(* ===== verification/Prelude.thy ===== *)
theory Prelude
  imports Main "HOL-Library.Word" "HOL-Library.Sublist"
begin

text \<open>
  Shared ground of the development: the types of Python bytes and strings, the
  state-and-exception actions every stateful operation is written in, the two
  compositional judgements the component proofs are carried out in
  (\<open>keeps\<close>: an action keeps an invariant of the state, on the normal and on the
  exceptional exit; \<open>raises_in\<close>: every exception an action raises satisfies a
  predicate), and the generic lemmas on lists that several components use.
\<close>

section \<open>Collections and basic types\<close>

named_theorems act_simps \<open>equations that run actions\<close>
named_theorems keeps_intros \<open>rules that show an action keeps an invariant\<close>
named_theorems raises_intros \<open>rules that bound the exceptions of an action\<close>

type_synonym byte = "8 word"

text \<open>A Python \<open>bytes\<close> object, and a Python \<open>str\<close> as its sequence of code points.\<close>

type_synonym bytes = "byte list"
type_synonym pystr = "nat list"

definition ustr :: "string \<Rightarrow> pystr" where
  "ustr s = map of_char s"

lemma ustr_simps [simp]: "ustr [] = []" "ustr (c # s) = of_char c # ustr s"
  by (simp_all add: ustr_def)

section \<open>Actions: state and exceptions\<close>

text \<open>
  An action takes the state and gives either an exception (\<open>Inl\<close>) or a result
  (\<open>Inr\<close>), and the new state in both cases: what a Python function did before it
  raised stays done.
\<close>

type_synonym ('s, 'e, 'a) act = "'s \<Rightarrow> ('e + 'a) \<times> 's"

definition ret :: "'a \<Rightarrow> ('s, 'e, 'a) act" where
  "ret x = (\<lambda>s. (Inr x, s))"

definition raise :: "'e \<Rightarrow> ('s, 'e, 'a) act" where
  "raise e = (\<lambda>s. (Inl e, s))"

definition bnd :: "('s, 'e, 'a) act \<Rightarrow> ('a \<Rightarrow> ('s, 'e, 'b) act) \<Rightarrow> ('s, 'e, 'b) act" where
  "bnd m f = (\<lambda>s. case m s of (r, s') \<Rightarrow> (case r of Inl e \<Rightarrow> (Inl e, s') | Inr x \<Rightarrow> f x s'))"

text \<open>\<open>try: m except: h\<close>; the handler decides by itself whether it re-raises.\<close>

definition try_except :: "('s, 'e, 'a) act \<Rightarrow> ('e \<Rightarrow> ('s, 'e, 'a) act) \<Rightarrow> ('s, 'e, 'a) act" where
  "try_except m h = (\<lambda>s. case m s of (r, s') \<Rightarrow> (case r of Inl e \<Rightarrow> h e s' | Inr x \<Rightarrow> (Inr x, s')))"

text \<open>\<open>try: m finally: f\<close>; an exception of \<open>f\<close> replaces the outcome of \<open>m\<close>.\<close>

definition try_finally :: "('s, 'e, 'a) act \<Rightarrow> ('s, 'e, unit) act \<Rightarrow> ('s, 'e, 'a) act" where
  "try_finally m f = (\<lambda>s. case m s of (r, s') \<Rightarrow>
     (case f s' of (Inl e, s'') \<Rightarrow> (Inl e, s'') | (Inr _, s'') \<Rightarrow> (r, s'')))"

definition of_result :: "'e + 'a \<Rightarrow> ('s, 'e, 'a) act" where
  "of_result r = (\<lambda>s. (r, s))"

definition reading :: "('s \<Rightarrow> 'a) \<Rightarrow> ('s, 'e, 'a) act" where
  "reading f = (\<lambda>s. (Inr (f s), s))"

definition updating :: "('s \<Rightarrow> 's) \<Rightarrow> ('s, 'e, unit) act" where
  "updating f = (\<lambda>s. (Inr (), f s))"

definition raise_if :: "bool \<Rightarrow> 'e \<Rightarrow> ('s, 'e, unit) act" where
  "raise_if b e = (if b then raise e else ret ())"

text \<open>
  An action on a part of the state (\<open>g\<close> reads the part, \<open>p\<close> writes it back), as when
  an object's method works on one of the objects it holds.
\<close>

definition zoom :: "('t \<Rightarrow> 's) \<Rightarrow> ('s \<Rightarrow> 't \<Rightarrow> 't) \<Rightarrow> ('s, 'e, 'a) act \<Rightarrow> ('t, 'e, 'a) act" where
  "zoom g p m = (\<lambda>t. case m (g t) of (r, s') \<Rightarrow> (r, p s' t))"

text \<open>A list comprehension whose element expression may raise: left to right.\<close>

fun map_act :: "('a \<Rightarrow> ('s, 'e, 'b) act) \<Rightarrow> 'a list \<Rightarrow> ('s, 'e, 'b list) act" where
  "map_act f [] = ret []"
| "map_act f (x # xs) = bnd (f x) (\<lambda>y. bnd (map_act f xs) (\<lambda>ys. ret (y # ys)))"

lemmas act_defs = ret_def raise_def bnd_def try_except_def try_finally_def of_result_def
  reading_def updating_def raise_if_def zoom_def

subsection \<open>Running actions\<close>

lemma ret_run [act_simps]: "ret x s = (Inr x, s)"
  by (simp add: ret_def)

lemma raise_run [act_simps]: "raise e s = (Inl e, s)"
  by (simp add: raise_def)

lemma reading_run [act_simps]: "reading f s = (Inr (f s), s)"
  by (simp add: reading_def)

lemma updating_run [act_simps]: "updating f s = (Inr (), f s)"
  by (simp add: updating_def)

lemma of_result_run [act_simps]: "of_result r s = (r, s)"
  by (simp add: of_result_def)

lemma raise_if_run [act_simps]: "raise_if b e s = (if b then (Inl e, s) else (Inr (), s))"
  by (simp add: raise_if_def ret_def raise_def)

lemma bnd_run [act_simps]:
  "bnd m f s = (case m s of (Inl e, s') \<Rightarrow> (Inl e, s') | (Inr x, s') \<Rightarrow> f x s')"
  by (auto simp: bnd_def split: prod.splits sum.splits)

lemma try_except_run [act_simps]:
  "try_except m h s = (case m s of (Inl e, s') \<Rightarrow> h e s' | (Inr x, s') \<Rightarrow> (Inr x, s'))"
  by (auto simp: try_except_def split: prod.splits sum.splits)

lemma try_finally_run [act_simps]:
  "try_finally m f s = (case m s of (r, s') \<Rightarrow>
     (case f s' of (Inl e, s'') \<Rightarrow> (Inl e, s'') | (Inr _, s'') \<Rightarrow> (r, s'')))"
  by (simp add: try_finally_def)

lemma zoom_run [act_simps]: "zoom g p m t = (case m (g t) of (r, s') \<Rightarrow> (r, p s' t))"
  by (simp add: zoom_def)

lemma bnd_InrE:
  assumes "bnd m f s = (Inr y, t)"
  obtains x s' where "m s = (Inr x, s')" and "f x s' = (Inr y, t)"
  using assms by (auto simp: bnd_def split: prod.splits sum.splits)

lemma bnd_InlE:
  assumes "bnd m f s = (Inl e, t)"
  obtains (first) "m s = (Inl e, t)"
    | (later) x s' where "m s = (Inr x, s')" and "f x s' = (Inl e, t)"
  using assms by (auto simp: bnd_def split: prod.splits sum.splits)

lemma bnd_assoc: "bnd (bnd m f) g = bnd m (\<lambda>x. bnd (f x) g)"
  by (auto simp: bnd_def fun_eq_iff split: prod.splits sum.splits)

subsection \<open>Invariants kept and exceptions raised\<close>

definition keeps :: "('s \<Rightarrow> bool) \<Rightarrow> ('s, 'e, 'a) act \<Rightarrow> bool" where
  "keeps I m \<longleftrightarrow> (\<forall>s. I s \<longrightarrow> I (snd (m s)))"

definition raises_in :: "('e \<Rightarrow> bool) \<Rightarrow> ('s, 'e, 'a) act \<Rightarrow> bool" where
  "raises_in P m \<longleftrightarrow> (\<forall>s e. fst (m s) = Inl e \<longrightarrow> P e)"

lemma keepsD: "keeps I m \<Longrightarrow> I s \<Longrightarrow> m s = (r, t) \<Longrightarrow> I t"
  unfolding keeps_def by (metis snd_conv)

lemma raises_inD: "raises_in P m \<Longrightarrow> m s = (Inl e, t) \<Longrightarrow> P e"
  unfolding raises_in_def by (metis fst_conv)

lemma keeps_ret [keeps_intros]: "keeps I (ret x)"
  by (simp add: keeps_def ret_def)

lemma keeps_raise [keeps_intros]: "keeps I (raise e)"
  by (simp add: keeps_def raise_def)

lemma keeps_of_result [keeps_intros]: "keeps I (of_result r)"
  by (simp add: keeps_def of_result_def)

lemma keeps_reading [keeps_intros]: "keeps I (reading f)"
  by (simp add: keeps_def reading_def)

lemma keeps_raise_if [keeps_intros]: "keeps I (raise_if b e)"
  by (simp add: raise_if_def keeps_ret keeps_raise)

lemma keeps_updating: "(\<And>s. I s \<Longrightarrow> I (f s)) \<Longrightarrow> keeps I (updating f)"
  by (simp add: keeps_def updating_def)

lemma keeps_bnd [keeps_intros]:
  "keeps I m \<Longrightarrow> (\<And>x. keeps I (f x)) \<Longrightarrow> keeps I (bnd m f)"
  unfolding keeps_def bnd_def by (auto split: prod.splits sum.splits)

lemma keeps_try_except [keeps_intros]:
  "keeps I m \<Longrightarrow> (\<And>e. keeps I (h e)) \<Longrightarrow> keeps I (try_except m h)"
  unfolding keeps_def try_except_def by (auto split: prod.splits sum.splits)

lemma keeps_try_finally [keeps_intros]:
  "keeps I m \<Longrightarrow> keeps I f \<Longrightarrow> keeps I (try_finally m f)"
  unfolding keeps_def try_finally_def by (auto split: prod.splits sum.splits)

lemma keeps_map_act [keeps_intros]:
  "(\<And>x. keeps I (f x)) \<Longrightarrow> keeps I (map_act f xs)"
  by (induction xs) (auto intro!: keeps_intros)

lemma raises_ret [raises_intros]: "raises_in P (ret x)"
  by (simp add: raises_in_def ret_def)

lemma raises_reading [raises_intros]: "raises_in P (reading f)"
  by (simp add: raises_in_def reading_def)

lemma raises_updating [raises_intros]: "raises_in P (updating f)"
  by (simp add: raises_in_def updating_def)

lemma raises_raise: "P e \<Longrightarrow> raises_in P (raise e)"
  by (simp add: raises_in_def raise_def)

lemma raises_raise_if: "(b \<Longrightarrow> P e) \<Longrightarrow> raises_in P (raise_if b e)"
  by (simp add: raise_if_def raises_ret raises_raise)

lemma raises_of_result: "(\<And>e. r = Inl e \<Longrightarrow> P e) \<Longrightarrow> raises_in P (of_result r)"
  by (simp add: raises_in_def of_result_def)

lemma raises_bnd [raises_intros]:
  "raises_in P m \<Longrightarrow> (\<And>x. raises_in P (f x)) \<Longrightarrow> raises_in P (bnd m f)"
  unfolding raises_in_def bnd_def by (auto split: prod.splits sum.splits) (metis fst_conv)+

lemma raises_try_except:
  "(\<And>s e t. m s = (Inl e, t) \<Longrightarrow> raises_in P (h e)) \<Longrightarrow> raises_in P (try_except m h)"
  unfolding raises_in_def try_except_def by (auto split: prod.splits sum.splits)

lemma raises_zoom [raises_intros]: "raises_in P m \<Longrightarrow> raises_in P (zoom g p m)"
  unfolding raises_in_def zoom_def by (auto split: prod.splits) (metis fst_conv)

lemma raises_mono: "raises_in P m \<Longrightarrow> (\<And>e. P e \<Longrightarrow> Q e) \<Longrightarrow> raises_in Q m"
  by (simp add: raises_in_def)

section \<open>Results without state\<close>

definition rbind :: "'e + 'a \<Rightarrow> ('a \<Rightarrow> 'e + 'b) \<Rightarrow> 'e + 'b" where
  "rbind r f = (case r of Inl e \<Rightarrow> Inl e | Inr x \<Rightarrow> f x)"

lemma rbind_simps [simp]: "rbind (Inl e) f = Inl e" "rbind (Inr x) f = f x"
  by (simp_all add: rbind_def)

lemma rbind_eq_Inr: "rbind r f = Inr y \<longleftrightarrow> (\<exists>x. r = Inr x \<and> f x = Inr y)"
  by (cases r) auto

lemma rbind_eq_Inl: "rbind r f = Inl e \<longleftrightarrow> r = Inl e \<or> (\<exists>x. r = Inr x \<and> f x = Inl e)"
  by (cases r) auto

section \<open>Lists\<close>

lemma takeWhile_append_absent:
  "c \<notin> set xs \<Longrightarrow> takeWhile (\<lambda>x. x \<noteq> c) (xs @ ys) = xs @ takeWhile (\<lambda>x. x \<noteq> c) ys"
  by (induction xs) auto

lemma takeWhile_neq_absent: "c \<notin> set xs \<Longrightarrow> takeWhile (\<lambda>x. x \<noteq> c) xs = xs"
  by (induction xs) auto

text \<open>\<open>bytes.find(c)\<close>: the first index of \<open>c\<close>; \<open>None\<close> is Python's \<open>-1\<close>.\<close>

fun find_index :: "'a \<Rightarrow> 'a list \<Rightarrow> nat option" where
  "find_index c [] = None"
| "find_index c (x # xs) = (if x = c then Some 0 else map_option Suc (find_index c xs))"

lemma find_index_None: "find_index c xs = None \<longleftrightarrow> c \<notin> set xs"
  by (induction xs) auto

lemma find_index_Some_takeWhile:
  "find_index c xs = Some n \<Longrightarrow> take n xs = takeWhile (\<lambda>x. x \<noteq> c) xs \<and> c \<in> set xs \<and> n < length xs"
  by (induction xs arbitrary: n) (auto split: if_splits)

lemma count_list_update:
  "i < length xs \<Longrightarrow> count_list (xs[i := x]) y + (if xs ! i = y then 1 else 0)
     = count_list xs y + (if x = y then 1 else 0)"
proof (induction xs arbitrary: i)
  case (Cons a xs)
  show ?case
  proof (cases i)
    case (Suc j)
    then show ?thesis using Cons.IH [of j] Cons.prems by (simp split: if_splits)
  qed simp
qed simp

lemma count_list_remove:
  "i < length xs \<Longrightarrow> count_list (take i xs @ drop (Suc i) xs) y + (if xs ! i = y then 1 else 0)
     = count_list xs y"
proof (induction xs arbitrary: i)
  case (Cons a xs)
  show ?case
  proof (cases i)
    case (Suc j)
    then show ?thesis using Cons.IH [of j] Cons.prems by simp
  qed simp
qed simp

end
