(* ===== verification/Errors.thy ===== *)
theory Errors
  imports Prelude
begin

text \<open>
  Exceptions: the typed hierarchy of \<^verbatim>\<open>opapywasm/errors.py\<close>, the classes of the
  language and of wasmtime that the SDK tests for, and exception objects.

  A raised exception is an object of a finite object graph: a list of exception objects,
  each with its class, its text and its \<open>__cause__\<close> and \<open>__context__\<close> links (indices
  into the list), and the index of the raised object. The links may form a cycle, as they
  do in Python once \<^verbatim>\<open>raise typed from exc\<close> has re-raised an object of the chain of
  \<^verbatim>\<open>exc\<close>. The texts of the SDK's own errors are constants: the values the source
  interpolates into them are left out (the message of \<^verbatim>\<open>opa_abort\<close> is kept), and no code of the SDK reads them (the text search of
  \<^verbatim>\<open>_is_epoch_interrupt\<close> runs only on chains without an SDK error).
\<close>

section \<open>Classes\<close>

datatype trap_code = MEMORY_OUT_OF_BOUNDS | INTERRUPT | OTHER_TRAP_CODE nat

datatype exc_class =
    OpaWasmError
  | OpaInvalidPolicyError
  | OpaAbiError
  | OpaAbortError
  | OpaEvaluationError
  | OpaBuiltinError
  | OpaMemoryError
  | OpaPoolTimeoutError
  | OpaPolicyClosedError
  | OpaInvalidInputError
  | OpaEntrypointError
  | OpaDataError
  | ValueError
  | UnicodeEncodeError
  | UnicodeDecodeError
  | JSONDecodeError
  | TypeError
  | ImportError
  | WasmtimeError
  | Trap "trap_code option"
  | OtherException string
  | OtherBaseException string

text \<open>\<open>issubclass(c, OpaWasmError)\<close>: the flat hierarchy of the SDK's typed errors.\<close>

definition is_opa_error :: "exc_class \<Rightarrow> bool" where
  "is_opa_error c \<longleftrightarrow> c \<in> {OpaWasmError, OpaInvalidPolicyError, OpaAbiError, OpaAbortError,
     OpaEvaluationError, OpaBuiltinError, OpaMemoryError, OpaPoolTimeoutError,
     OpaPolicyClosedError, OpaInvalidInputError, OpaEntrypointError, OpaDataError}"

text \<open>\<open>except Exception\<close> lets \<open>KeyboardInterrupt\<close>, \<open>SystemExit\<close> and their kin pass.\<close>

definition is_exception :: "exc_class \<Rightarrow> bool" where
  "is_exception c \<longleftrightarrow> (case c of OtherBaseException _ \<Rightarrow> False | _ \<Rightarrow> True)"

text \<open>\<open>UnicodeError\<close> and \<open>json.JSONDecodeError\<close> are subclasses of \<open>ValueError\<close>.\<close>

definition is_value_error :: "exc_class \<Rightarrow> bool" where
  "is_value_error c \<longleftrightarrow> c \<in> {ValueError, UnicodeEncodeError, UnicodeDecodeError, JSONDecodeError}"

definition is_wasmtime_error :: "exc_class \<Rightarrow> bool" where
  "is_wasmtime_error c \<longleftrightarrow> (case c of WasmtimeError \<Rightarrow> True | Trap _ \<Rightarrow> True | _ \<Rightarrow> False)"

section \<open>Exception objects\<close>

record exc_obj =
  eo_class :: exc_class
  eo_text :: pystr
  eo_cause :: "nat option"
  eo_context :: "nat option"

record exc =
  exc_objs :: "exc_obj list"
  exc_root :: nat

definition exc_class_of :: "exc \<Rightarrow> exc_class" where
  "exc_class_of e = (if exc_root e < length (exc_objs e)
     then eo_class (exc_objs e ! exc_root e) else OtherException [])"

text \<open>\<open>raise C(text)\<close> outside a handler.\<close>

definition new_exc_text :: "exc_class \<Rightarrow> pystr \<Rightarrow> exc" where
  "new_exc_text c t = \<lparr>exc_objs = [\<lparr>eo_class = c, eo_text = t, eo_cause = None, eo_context = None\<rparr>],
     exc_root = 0\<rparr>"

definition new_exc :: "exc_class \<Rightarrow> string \<Rightarrow> exc" where
  "new_exc c t = new_exc_text c (ustr t)"

text \<open>
  \<open>raise C(text) from exc\<close> inside the handler of \<open>exc\<close>: a new object whose
  \<open>__cause__\<close>, and as the exception being handled whose \<open>__context__\<close>, is \<open>exc\<close>.
\<close>

definition raise_from :: "exc_class \<Rightarrow> string \<Rightarrow> exc \<Rightarrow> exc" where
  "raise_from c t e = \<lparr>exc_objs = exc_objs e @
      [\<lparr>eo_class = c, eo_text = ustr t, eo_cause = Some (exc_root e), eo_context = Some (exc_root e)\<rparr>],
     exc_root = length (exc_objs e)\<rparr>"

text \<open>
  \<open>raise typed from exc\<close> for an object \<open>j\<close> that already is on the chain of \<open>exc\<close>.
  It sets \<open>__cause__\<close>; the implicit \<open>__context__\<close> is set to \<open>exc\<close> too (unless the two
  are the same object), after the interpreter has cut the first link back to \<open>j\<close> out of
  the context chain of \<open>exc\<close>.
\<close>

fun unlink_context :: "nat \<Rightarrow> nat \<Rightarrow> nat \<Rightarrow> exc_obj list \<Rightarrow> exc_obj list" where
  "unlink_context 0 i j h = h"
| "unlink_context (Suc n) i j h =
     (if i < length h then
        (case eo_context (h ! i) of
           None \<Rightarrow> h
         | Some c \<Rightarrow> if c = j then h[i := (h ! i)\<lparr>eo_context := None\<rparr>]
                     else unlink_context n c j h)
      else h)"

definition reraise_from :: "nat \<Rightarrow> exc \<Rightarrow> exc" where
  "reraise_from j e =
     (let i = exc_root e;
          h = (if i = j then exc_objs e
               else (let h' = unlink_context (length (exc_objs e)) i j (exc_objs e)
                     in h'[j := (h' ! j)\<lparr>eo_context := Some i\<rparr>]))
      in \<lparr>exc_objs = h[j := (h ! j)\<lparr>eo_cause := Some i\<rparr>], exc_root = j\<rparr>)"

section \<open>Lemmas\<close>

lemma is_opa_error_simps [simp]:
  "is_opa_error OpaWasmError" "is_opa_error OpaInvalidPolicyError" "is_opa_error OpaAbiError"
  "is_opa_error OpaAbortError" "is_opa_error OpaEvaluationError" "is_opa_error OpaBuiltinError"
  "is_opa_error OpaMemoryError" "is_opa_error OpaPoolTimeoutError"
  "is_opa_error OpaPolicyClosedError" "is_opa_error OpaInvalidInputError"
  "is_opa_error OpaEntrypointError" "is_opa_error OpaDataError"
  "\<not> is_opa_error ValueError" "\<not> is_opa_error UnicodeEncodeError"
  "\<not> is_opa_error UnicodeDecodeError" "\<not> is_opa_error JSONDecodeError"
  "\<not> is_opa_error TypeError" "\<not> is_opa_error ImportError" "\<not> is_opa_error WasmtimeError"
  "\<not> is_opa_error (Trap c)" "\<not> is_opa_error (OtherException s)"
  "\<not> is_opa_error (OtherBaseException s)"
  by (simp_all add: is_opa_error_def)

lemma is_opa_is_exception: "is_opa_error c \<Longrightarrow> is_exception c"
  by (cases c) (simp_all add: is_exception_def)

lemma is_exception_simps [simp]:
  "is_exception OpaMemoryError" "is_exception OpaBuiltinError" "is_exception OpaEvaluationError"
  "is_exception OpaInvalidInputError" "is_exception OpaDataError" "is_exception OpaAbiError"
  "is_exception OpaInvalidPolicyError" "is_exception TypeError" "is_exception ValueError"
  "is_exception UnicodeEncodeError" "is_exception JSONDecodeError"
  "is_exception UnicodeDecodeError" "is_exception (Trap c)" "is_exception WasmtimeError"
  by (simp_all add: is_exception_def)

lemma is_value_error_simps [simp]:
  "is_value_error ValueError" "is_value_error UnicodeEncodeError"
  "is_value_error UnicodeDecodeError" "is_value_error JSONDecodeError"
  "\<not> is_value_error TypeError"
  by (simp_all add: is_value_error_def)

lemma exc_class_of_new_text [simp]: "exc_class_of (new_exc_text c t) = c"
  by (simp add: exc_class_of_def new_exc_text_def)

lemma exc_class_of_new [simp]: "exc_class_of (new_exc c t) = c"
  by (simp add: new_exc_def)

lemma exc_class_of_raise_from [simp]: "exc_class_of (raise_from c t e) = c"
  by (simp add: exc_class_of_def raise_from_def)

lemma length_unlink_context [simp]: "length (unlink_context n i j h) = length h"
  by (induction n i j h rule: unlink_context.induct) (auto split: option.splits)

lemma unlink_context_class [simp]:
  "k < length h \<Longrightarrow> eo_class (unlink_context n i j h ! k) = eo_class (h ! k)"
  by (induction n i j h rule: unlink_context.induct)
    (auto split: option.splits simp: nth_list_update)

lemma exc_class_of_reraise [simp]:
  "j < length (exc_objs e) \<Longrightarrow> exc_class_of (reraise_from j e) = eo_class (exc_objs e ! j)"
  by (simp add: exc_class_of_def reraise_from_def Let_def)

end
