(* ===== verification/Wasm.thy ===== *)
theory Wasm
  imports Errors
begin

text \<open>
  The interface of the \<^verbatim>\<open>wasmtime\<close> package as \<^verbatim>\<open>opapywasm\<close> uses it. The package
  and the guest module are not part of the program: they are the parameter \<open>w\<close> of the
  definitions that call them, one field for each operation the source calls, over an
  arbitrary type \<open>'s\<close> of stores (linear memory, guest globals and allocator, epoch
  deadline). Nothing is assumed about a guest unless a theorem names the hypothesis.

  The one thing kept explicitly is which native \<^verbatim>\<open>Store\<close> objects are open, since the
  program promises to close every one it opens.
\<close>

section \<open>Types of the interface\<close>

datatype valtype = I32 | I64 | F32 | F64 | V128 | FUNCREF | EXTERNREF

text \<open>Exported and imported items; the Python value of a global is an int, a float or a reference.\<close>

datatype extern = Func "valtype list" "valtype list" | Global | Memory | Table

datatype gval = GInt int | GFloat "64 word" | GRef

record wmodule =
  m_imports :: "(string \<times> string \<times> extern) list"
  m_code :: bytes

text \<open>
  Host functions by import name, as the guest calls them: i32 arguments, and an i32 result or
  none. They run on the store of the guest that calls them.
\<close>

type_synonym 's host = "string \<Rightarrow> int list \<Rightarrow> ('s, exc, int option) act"

text \<open>What a linker binds: the host memory, or a host function with its declared type.\<close>

type_synonym link = "string \<times> string \<times> extern"

record 's wasm =
  wt_compile :: "bytes \<Rightarrow> exc + wmodule"
  wt_store_new :: "nat \<Rightarrow> exc + 's"
  wt_set_epoch_deadline :: "int \<Rightarrow> 's \<Rightarrow> 's"
  wt_memory_new :: "int \<Rightarrow> int option \<Rightarrow> ('s, exc, unit) act"
  wt_set_limits :: "int \<Rightarrow> ('s, exc, unit) act"
  wt_define :: "link \<Rightarrow> ('s, exc, unit) act"
  wt_instantiate :: "'s host \<Rightarrow> link list \<Rightarrow> wmodule \<Rightarrow> ('s, exc, unit) act"
  wt_exports :: "'s \<Rightarrow> string \<Rightarrow> extern option"
  wt_global_value :: "string \<Rightarrow> 's \<Rightarrow> gval"
  wt_call :: "'s host \<Rightarrow> string \<Rightarrow> int list \<Rightarrow> ('s, exc, int option) act"
  wt_memory_read :: "int \<Rightarrow> int \<Rightarrow> ('s, exc, bytes) act"
  wt_memory_write :: "bytes \<Rightarrow> int \<Rightarrow> ('s, exc, unit) act"
  wt_data_len :: "'s \<Rightarrow> int"

section \<open>Native stores\<close>

text \<open>How many \<^verbatim>\<open>Store\<close> objects were created, and which of them are open.\<close>

record native =
  nt_next :: nat
  nt_open :: "nat set"

definition store_open :: "native \<Rightarrow> native" where
  "store_open n = n\<lparr>nt_next := Suc (nt_next n), nt_open := insert (nt_next n) (nt_open n)\<rparr>"

text \<open>\<open>Store.close()\<close> is idempotent.\<close>

definition store_close :: "nat \<Rightarrow> native \<Rightarrow> native" where
  "store_close i n = n\<lparr>nt_open := nt_open n - {i}\<rparr>"

definition native_wf :: "native \<Rightarrow> bool" where
  "native_wf n \<longleftrightarrow> (\<forall>i \<in> nt_open n. i < nt_next n)"

lemma store_open_simps [simp]:
  "nt_next (store_open n) = Suc (nt_next n)"
  "nt_open (store_open n) = insert (nt_next n) (nt_open n)"
  by (simp_all add: store_open_def)

lemma store_close_simps [simp]:
  "nt_next (store_close i n) = nt_next n" "nt_open (store_close i n) = nt_open n - {i}"
  by (simp_all add: store_close_def)

lemma store_close_idem [simp]: "store_close i (store_close i n) = store_close i n"
  by (simp add: store_close_def)

lemma native_wf_open [simp]: "native_wf n \<Longrightarrow> native_wf (store_open n)"
  by (auto simp: native_wf_def less_Suc_eq)

lemma native_wf_close [simp]: "native_wf n \<Longrightarrow> native_wf (store_close i n)"
  by (auto simp: native_wf_def)

lemma native_wf_next: "native_wf n \<Longrightarrow> nt_next n \<notin> nt_open n"
  by (auto simp: native_wf_def)

section \<open>Documented behaviour of the host memory\<close>

text \<open>
  A view \<open>mem\<close> of the linear memory explains the three memory operations: \<open>data_len\<close> is its
  length, \<open>read\<close> is Python slicing (clamped at the end, the store unchanged), \<open>write\<close> inside
  the bounds replaces exactly the bytes it is given.
\<close>

definition memory_ok :: "'s wasm \<Rightarrow> ('s \<Rightarrow> bytes) \<Rightarrow> bool" where
  "memory_ok w mem \<longleftrightarrow>
     (\<forall>s. wt_data_len w s = int (length (mem s)))
   \<and> (\<forall>i j s. 0 \<le> i \<longrightarrow> i \<le> j \<longrightarrow>
        wt_memory_read w i j s = (Inr (take (nat (j - i)) (drop (nat i) (mem s))), s))
   \<and> (\<forall>b i s. 0 \<le> i \<longrightarrow> i + int (length b) \<le> int (length (mem s)) \<longrightarrow>
        (\<exists>s'. wt_memory_write w b i s = (Inr (), s')
           \<and> mem s' = take (nat i) (mem s) @ b @ drop (nat i + length b) (mem s)))"

lemma memory_ok_len: "memory_ok w mem \<Longrightarrow> wt_data_len w s = int (length (mem s))"
  by (simp add: memory_ok_def)

lemma memory_ok_read:
  "memory_ok w mem \<Longrightarrow> 0 \<le> i \<Longrightarrow> i \<le> j \<Longrightarrow>
   wt_memory_read w i j s = (Inr (take (nat (j - i)) (drop (nat i) (mem s))), s)"
  by (simp add: memory_ok_def)

lemma memory_ok_write:
  assumes "memory_ok w mem" and "0 \<le> i" and "i + int (length b) \<le> int (length (mem s))"
  obtains s' where "wt_memory_write w b i s = (Inr (), s')"
    and "mem s' = take (nat i) (mem s) @ b @ drop (nat i + length b) (mem s)"
  using assms unfolding memory_ok_def by blast

end
