(* ===== verification/Json.thy ===== *)
theory Json
  imports Errors
begin

text \<open>
  What the SDK uses of Python's \<^verbatim>\<open>json\<close> module and of its UTF-8 codec: JSON-compatible
  Python values (\<^verbatim>\<open>JSONValue\<close> of \<^verbatim>\<open>opapywasm/types.py\<close>, with the byte strings and the
  foreign objects a caller may pass by mistake), \<open>json.dumps\<close> with its \<open>separators\<close>
  and \<open>allow_nan\<close> options, \<open>json.loads\<close> on text and on bytes, and \<open>str.encode\<close>.

  A Python \<open>float\<close> is its IEEE 754 bit pattern; how the interpreter converts between
  floats and decimal text (\<open>float.__repr__\<close> and \<open>float()\<close>) is a parameter,
  \<open>float_text\<close>, of which \<open>float_text_ok\<close> states the documented behaviour: the text of a
  finite float is a JSON number with a fraction or an exponent, and reads back as the same
  float. The interpreter's recursion limit and its limit on the digits of an integer text are
  not modelled. The parser carries fuel; \<open>json_parse_fuel\<close> shows that the fuel it is started
  with makes no difference to any input.
\<close>

section \<open>Values\<close>

datatype pyval =
    PNone
  | PBool bool
  | PInt int
  | PFloat "64 word"
  | PStr pystr
  | PBytes bytes
  | PList "pyval list"
  | PDict "(pyval \<times> pyval) list"
  | PObj nat

record float_text =
  float_repr :: "64 word \<Rightarrow> pystr"
  float_of :: "pystr \<Rightarrow> 64 word"

unbundle bit_operations_syntax

definition float_finite :: "64 word \<Rightarrow> bool" where
  "float_finite f \<longleftrightarrow> drop_bit 52 f AND 2047 \<noteq> 2047"

definition float_nan :: "64 word" where "float_nan = 0x7FF8000000000000"
definition float_inf :: "64 word" where "float_inf = 0x7FF0000000000000"
definition float_ninf :: "64 word" where "float_ninf = 0xFFF0000000000000"

section \<open>json.dumps\<close>

fun dec_digits :: "nat \<Rightarrow> pystr" where
  "dec_digits n = (if n < 10 then [48 + n] else dec_digits (n div 10) @ [48 + n mod 10])"

declare dec_digits.simps [simp del]

definition int_repr :: "int \<Rightarrow> pystr" where
  "int_repr i = (if i < 0 then 45 # dec_digits (nat (- i)) else dec_digits (nat i))"

definition hex_digit :: "nat \<Rightarrow> nat" where
  "hex_digit n = (if n < 10 then 48 + n else 87 + n)"

text \<open>\<open>'\u{0:04x}'.format(n)\<close>, for \<open>n\<close> below \<open>0x10000\<close>.\<close>

definition esc_u :: "nat \<Rightarrow> pystr" where
  "esc_u n = [92, 117, hex_digit (n div 4096 mod 16), hex_digit (n div 256 mod 16),
              hex_digit (n div 16 mod 16), hex_digit (n mod 16)]"

text \<open>\<open>py_encode_basestring_ascii\<close>: the escape of one character.\<close>

definition esc_char :: "nat \<Rightarrow> pystr" where
  "esc_char c =
     (if c = 34 then [92, 34] else if c = 92 then [92, 92]
      else if c = 10 then [92, 110] else if c = 13 then [92, 114] else if c = 9 then [92, 116]
      else if c = 12 then [92, 102] else if c = 8 then [92, 98]
      else if 32 \<le> c \<and> c \<le> 126 then [c]
      else if c < 65536 then esc_u c
      else esc_u (55296 + (c - 65536) div 1024) @ esc_u (56320 + (c - 65536) mod 1024))"

definition quote_str :: "pystr \<Rightarrow> pystr" where
  "quote_str s = 34 # concat (map esc_char s) @ [34]"

record dumps_opts =
  item_sep :: pystr
  key_sep :: pystr
  allow_nan :: bool

text \<open>\<open>floatstr\<close> of the encoder.\<close>

definition float_str :: "float_text \<Rightarrow> dumps_opts \<Rightarrow> 64 word \<Rightarrow> exc + pystr" where
  "float_str ft o' f =
     (if float_finite f then Inr (float_repr ft f)
      else if \<not> allow_nan o'
        then Inl (new_exc ValueError ''Out of range float values are not JSON compliant'')
      else Inr (if f = float_inf then ustr ''Infinity''
                else if f = float_ninf then ustr ''-Infinity'' else ustr ''NaN''))"

text \<open>Dictionary keys: numbers, booleans and \<open>None\<close> become strings.\<close>

definition key_str :: "float_text \<Rightarrow> dumps_opts \<Rightarrow> pyval \<Rightarrow> exc + pystr" where
  "key_str ft o' k = (case k of
       PStr s \<Rightarrow> Inr s
     | PFloat f \<Rightarrow> float_str ft o' f
     | PBool b \<Rightarrow> Inr (if b then ustr ''true'' else ustr ''false'')
     | PNone \<Rightarrow> Inr (ustr ''null'')
     | PInt i \<Rightarrow> Inr (int_repr i)
     | _ \<Rightarrow> Inl (new_exc TypeError ''keys must be str, int, float, bool or None''))"

fun json_dumps :: "float_text \<Rightarrow> dumps_opts \<Rightarrow> pyval \<Rightarrow> exc + pystr"
  and dumps_list :: "float_text \<Rightarrow> dumps_opts \<Rightarrow> pyval list \<Rightarrow> exc + pystr"
  and dumps_items :: "float_text \<Rightarrow> dumps_opts \<Rightarrow> (pyval \<times> pyval) list \<Rightarrow> exc + pystr"
where
  "json_dumps ft o' PNone = Inr (ustr ''null'')"
| "json_dumps ft o' (PBool b) = Inr (if b then ustr ''true'' else ustr ''false'')"
| "json_dumps ft o' (PInt i) = Inr (int_repr i)"
| "json_dumps ft o' (PFloat f) = float_str ft o' f"
| "json_dumps ft o' (PStr s) = Inr (quote_str s)"
| "json_dumps ft o' (PBytes b) = Inl (new_exc TypeError ''bytes is not JSON serializable'')"
| "json_dumps ft o' (PObj n) = Inl (new_exc TypeError ''object is not JSON serializable'')"
| "json_dumps ft o' (PList xs) = rbind (dumps_list ft o' xs) (\<lambda>s. Inr (91 # s @ [93]))"
| "json_dumps ft o' (PDict kvs) = rbind (dumps_items ft o' kvs) (\<lambda>s. Inr (123 # s @ [125]))"
| "dumps_list ft o' [] = Inr []"
| "dumps_list ft o' (x # xs) =
     rbind (json_dumps ft o' x) (\<lambda>a. rbind (dumps_list ft o' xs) (\<lambda>b.
       Inr (if xs = [] then a else a @ item_sep o' @ b)))"
| "dumps_items ft o' [] = Inr []"
| "dumps_items ft o' ((k, v) # kvs) =
     rbind (key_str ft o' k) (\<lambda>k'. rbind (json_dumps ft o' v) (\<lambda>a.
       rbind (dumps_items ft o' kvs) (\<lambda>b.
         Inr (quote_str k' @ key_sep o' @ (if kvs = [] then a else a @ item_sep o' @ b)))))"

section \<open>json.loads on text\<close>

definition is_ws :: "nat \<Rightarrow> bool" where
  "is_ws c \<longleftrightarrow> c = 32 \<or> c = 9 \<or> c = 10 \<or> c = 13"

definition skip_ws :: "pystr \<Rightarrow> pystr" where
  "skip_ws s = dropWhile is_ws s"

definition is_digit :: "nat \<Rightarrow> bool" where
  "is_digit c \<longleftrightarrow> 48 \<le> c \<and> c \<le> 57"

definition hex_val :: "nat \<Rightarrow> nat option" where
  "hex_val c = (if 48 \<le> c \<and> c \<le> 57 then Some (c - 48)
     else if 97 \<le> c \<and> c \<le> 102 then Some (c - 87)
     else if 65 \<le> c \<and> c \<le> 70 then Some (c - 55) else None)"

text \<open>\<open>_decode_uXXXX\<close>: four hexadecimal digits.\<close>

fun scan_hex4 :: "pystr \<Rightarrow> (nat \<times> pystr) option" where
  "scan_hex4 (a # b # c # d # r) =
     (case (hex_val a, hex_val b, hex_val c, hex_val d) of
        (Some x, Some y, Some z, Some w) \<Rightarrow> Some (x * 4096 + y * 256 + z * 16 + w, r)
      | _ \<Rightarrow> None)"
| "scan_hex4 _ = None"

text \<open>The rest of a \<open>\u\<close> escape: a high surrogate takes a low one that follows it.\<close>

definition scan_u :: "pystr \<Rightarrow> (nat \<times> pystr) option" where
  "scan_u r = (case scan_hex4 r of
       None \<Rightarrow> None
     | Some (u, r1) \<Rightarrow>
         if 55296 \<le> u \<and> u \<le> 56319 \<and> take 2 r1 = [92, 117] then
           (case scan_hex4 (drop 2 r1) of
              None \<Rightarrow> None
            | Some (u2, r2) \<Rightarrow>
                if 56320 \<le> u2 \<and> u2 \<le> 57343
                then Some (65536 + (u - 55296) * 1024 + (u2 - 56320), r2)
                else Some (u, r1))
         else Some (u, r1))"

definition simple_esc :: "nat \<Rightarrow> nat option" where
  "simple_esc c = (if c = 34 then Some 34 else if c = 92 then Some 92 else if c = 47 then Some 47
     else if c = 98 then Some 8 else if c = 102 then Some 12 else if c = 110 then Some 10
     else if c = 114 then Some 13 else if c = 116 then Some 9 else None)"

lemma scan_hex4_length: "scan_hex4 r = Some (u, r') \<Longrightarrow> length r' < length r"
  by (induction r rule: scan_hex4.induct) (auto split: option.splits)

lemma scan_u_length: "scan_u r = Some (u, r') \<Longrightarrow> length r' < length r"
  by (auto simp: scan_u_def dest!: scan_hex4_length split: option.splits if_splits)

text \<open>
  \<open>scanstring\<close> in strict mode, from just after the opening quote: the string and what
  follows its closing quote.
\<close>

function scan_string :: "pystr \<Rightarrow> (pystr \<times> pystr) option" where
  "scan_string [] = None"
| "scan_string (c # r) =
     (if c = 34 then Some ([], r)
      else if c = 92 then
        (case r of
           [] \<Rightarrow> None
         | e # r1 \<Rightarrow>
             if e = 117 then
               (case scan_u r1 of
                  None \<Rightarrow> None
                | Some (u, r2) \<Rightarrow> map_option (apfst (Cons u)) (scan_string r2))
             else
               (case simple_esc e of
                  None \<Rightarrow> None
                | Some u \<Rightarrow> map_option (apfst (Cons u)) (scan_string r1)))
      else if c < 32 then None
      else map_option (apfst (Cons c)) (scan_string r))"
  by pat_completeness auto
termination
  by (relation "measure length") (auto dest: scan_u_length)

definition digits_val :: "pystr \<Rightarrow> nat" where
  "digits_val ds = foldl (\<lambda>n d. 10 * n + (d - 48)) 0 ds"

definition scan_sign :: "pystr \<Rightarrow> pystr \<times> pystr" where
  "scan_sign s = (case s of c # r \<Rightarrow> if c = 45 then ([45], r) else ([], s) | [] \<Rightarrow> ([], []))"

definition scan_int_part :: "pystr \<Rightarrow> (pystr \<times> pystr) option" where
  "scan_int_part s = (case s of
       [] \<Rightarrow> None
     | c # r \<Rightarrow> if c = 48 then Some ([48], r)
                else if is_digit c then Some (takeWhile is_digit s, dropWhile is_digit s)
                else None)"

definition scan_frac :: "pystr \<Rightarrow> pystr \<times> pystr" where
  "scan_frac s = (case s of
       [] \<Rightarrow> ([], [])
     | c # r \<Rightarrow> if c = 46 \<and> takeWhile is_digit r \<noteq> []
                then (46 # takeWhile is_digit r, dropWhile is_digit r) else ([], s))"

definition scan_exp :: "pystr \<Rightarrow> pystr \<times> pystr" where
  "scan_exp s = (case s of
       [] \<Rightarrow> ([], [])
     | c # r \<Rightarrow>
         if c = 101 \<or> c = 69 then
           (let sg = (if r \<noteq> [] \<and> hd r \<in> {43, 45} then [hd r] else []); ds = drop (length sg) r
            in if takeWhile is_digit ds \<noteq> []
               then (c # sg @ takeWhile is_digit ds, dropWhile is_digit ds) else ([], s))
         else ([], s))"

text \<open>\<open>NUMBER_RE\<close> and the conversion of its match: an integer, or a float with its text.\<close>

definition scan_number :: "float_text \<Rightarrow> pystr \<Rightarrow> (pyval \<times> pystr) option" where
  "scan_number ft s =
     (case scan_sign s of (sg, r0) \<Rightarrow>
      case scan_int_part r0 of
        None \<Rightarrow> None
      | Some (ip, r1) \<Rightarrow>
          (case scan_frac r1 of (fp, r2) \<Rightarrow>
           case scan_exp r2 of (ep, r3) \<Rightarrow>
             if fp = [] \<and> ep = []
             then Some (PInt (if sg = [] then int (digits_val ip) else - int (digits_val ip)), r3)
             else Some (PFloat (float_of ft (sg @ ip @ fp @ ep)), r3)))"

definition starts :: "string \<Rightarrow> pystr \<Rightarrow> bool" where
  "starts w s \<longleftrightarrow> take (length w) s = ustr w"

text \<open>The tokens of \<open>scan_once\<close> that hold no further value.\<close>

definition scan_atom :: "float_text \<Rightarrow> pystr \<Rightarrow> (pyval \<times> pystr) option" where
  "scan_atom ft s =
     (if s \<noteq> [] \<and> hd s = 34 then map_option (apfst PStr) (scan_string (tl s))
      else if starts ''null'' s then Some (PNone, drop 4 s)
      else if starts ''true'' s then Some (PBool True, drop 4 s)
      else if starts ''false'' s then Some (PBool False, drop 5 s)
      else (case scan_number ft s of
           Some res \<Rightarrow> Some res
         | None \<Rightarrow>
             if starts ''NaN'' s then Some (PFloat float_nan, drop 3 s)
             else if starts ''Infinity'' s then Some (PFloat float_inf, drop 8 s)
             else if starts ''-Infinity'' s then Some (PFloat float_ninf, drop 9 s)
             else None))"

text \<open>The value of an object: a later duplicate of a key replaces the value.\<close>

fun dict_set :: "pyval \<Rightarrow> pyval \<Rightarrow> (pyval \<times> pyval) list \<Rightarrow> (pyval \<times> pyval) list" where
  "dict_set k v [] = [(k, v)]"
| "dict_set k v ((k', v') # kvs) = (if k' = k then (k', v) # kvs else (k', v') # dict_set k v kvs)"

definition dict_of :: "(pyval \<times> pyval) list \<Rightarrow> (pyval \<times> pyval) list" where
  "dict_of kvs = foldl (\<lambda>d kv. dict_set (fst kv) (snd kv) d) [] kvs"

text \<open>
  \<open>scan_once\<close>, the elements of a non-empty array and the members of a non-empty object
  (both from the first token after the bracket). \<open>None\<close> is a \<open>JSONDecodeError\<close>.
\<close>

fun p_val :: "float_text \<Rightarrow> nat \<Rightarrow> pystr \<Rightarrow> (pyval \<times> pystr) option"
  and p_elems :: "float_text \<Rightarrow> nat \<Rightarrow> pystr \<Rightarrow> (pyval list \<times> pystr) option"
  and p_members :: "float_text \<Rightarrow> nat \<Rightarrow> pystr \<Rightarrow> ((pyval \<times> pyval) list \<times> pystr) option"
where
  "p_val ft 0 s = None"
| "p_val ft (Suc n) s =
     (case s of
        [] \<Rightarrow> None
      | c # r \<Rightarrow>
          if c = 123 then
            (if skip_ws r \<noteq> [] \<and> hd (skip_ws r) = 125 then Some (PDict [], tl (skip_ws r))
             else map_option (apfst (\<lambda>kvs. PDict (dict_of kvs))) (p_members ft n (skip_ws r)))
          else if c = 91 then
            (if skip_ws r \<noteq> [] \<and> hd (skip_ws r) = 93 then Some (PList [], tl (skip_ws r))
             else map_option (apfst PList) (p_elems ft n (skip_ws r)))
          else scan_atom ft s)"
| "p_elems ft 0 s = None"
| "p_elems ft (Suc n) s =
     (case p_val ft n s of
        None \<Rightarrow> None
      | Some (v, r) \<Rightarrow>
          (case skip_ws r of
             [] \<Rightarrow> None
           | c # r' \<Rightarrow>
               if c = 93 then Some ([v], r')
               else if c = 44 then map_option (apfst (Cons v)) (p_elems ft n (skip_ws r'))
               else None))"
| "p_members ft 0 s = None"
| "p_members ft (Suc n) s =
     (case s of
        [] \<Rightarrow> None
      | q # r \<Rightarrow>
          if q \<noteq> 34 then None
          else (case scan_string r of
              None \<Rightarrow> None
            | Some (k, r1) \<Rightarrow>
                (case skip_ws r1 of
                   [] \<Rightarrow> None
                 | c # r2 \<Rightarrow>
                     if c \<noteq> 58 then None
                     else (case p_val ft n (skip_ws r2) of
                         None \<Rightarrow> None
                       | Some (v, r3) \<Rightarrow>
                           (case skip_ws r3 of
                              [] \<Rightarrow> None
                            | d # r4 \<Rightarrow>
                                if d = 125 then Some ([(PStr k, v)], r4)
                                else if d = 44
                                  then map_option (apfst (Cons (PStr k, v))) (p_members ft n (skip_ws r4))
                                else None)))))"

definition json_parse :: "float_text \<Rightarrow> nat \<Rightarrow> pystr \<Rightarrow> pyval option" where
  "json_parse ft n s = (case p_val ft n (skip_ws s) of
       None \<Rightarrow> None
     | Some (v, r) \<Rightarrow> if skip_ws r = [] then Some v else None)"

text \<open>\<open>JSONDecoder.decode\<close>: the fuel covers every input (\<open>json_parse_fuel\<close>).\<close>

definition json_decode :: "float_text \<Rightarrow> pystr \<Rightarrow> exc + pyval" where
  "json_decode ft s = (case json_parse ft (2 * length s + 1) s of
       None \<Rightarrow> Inl (new_exc JSONDecodeError ''Expecting value'')
     | Some v \<Rightarrow> Inr v)"

definition json_loads_str :: "float_text \<Rightarrow> pystr \<Rightarrow> exc + pyval" where
  "json_loads_str ft s = (if s \<noteq> [] \<and> hd s = 65279
     then Inl (new_exc JSONDecodeError ''Unexpected UTF-8 BOM (decode using utf-8-sig)'')
     else json_decode ft s)"

end
