(* ===== verification/Encoding.thy ===== *)
theory Encoding
  imports Json
begin

text \<open>
  The text codecs the SDK uses: \<open>str.encode("utf-8")\<close> (strict), \<open>bytes.decode\<close> with the
  \<open>surrogatepass\<close> handler after \<open>json.detect_encoding\<close> (that is \<open>json.loads\<close> on bytes), and
  UTF-8 decoding with \<open>errors="replace"\<close> (diagnostics of the guest).
\<close>

section \<open>UTF-8\<close>

definition is_surrogate :: "nat \<Rightarrow> bool" where
  "is_surrogate c \<longleftrightarrow> 55296 \<le> c \<and> c \<le> 57343"

text \<open>The bytes of one code point that is not a surrogate.\<close>

definition utf8_char :: "nat \<Rightarrow> nat list" where
  "utf8_char c =
     (if c < 128 then [c]
      else if c < 2048 then [192 + c div 64, 128 + c mod 64]
      else if c < 65536 then [224 + c div 4096, 128 + c div 64 mod 64, 128 + c mod 64]
      else [240 + c div 262144, 128 + c div 4096 mod 64, 128 + c div 64 mod 64, 128 + c mod 64])"

definition utf8_encode :: "pystr \<Rightarrow> exc + bytes" where
  "utf8_encode s = (if \<exists>c \<in> set s. is_surrogate c
     then Inl (new_exc UnicodeEncodeError ''surrogates not allowed'')
     else Inr (map of_nat (concat (map utf8_char s))))"

definition is_cont :: "nat \<Rightarrow> bool" where
  "is_cont b \<longleftrightarrow> 128 \<le> b \<and> b \<le> 191"

text \<open>The second bytes the lead byte \<open>b0\<close> of a three- or four-byte sequence allows.\<close>

definition second_ok :: "bool \<Rightarrow> nat \<Rightarrow> nat \<Rightarrow> bool" where
  "second_ok pass b0 b1 \<longleftrightarrow> is_cont b1 \<and> (b0 = 224 \<longrightarrow> 160 \<le> b1) \<and> (b0 = 237 \<and> \<not> pass \<longrightarrow> b1 \<le> 159)
     \<and> (b0 = 240 \<longrightarrow> 144 \<le> b1) \<and> (b0 = 244 \<longrightarrow> b1 \<le> 143)"

text \<open>
  One step of the decoder at the byte \<open>b0\<close> followed by \<open>r\<close>: a code point and its length, or
  (\<open>None\<close>) an invalid sequence and how many bytes of it belong together.
\<close>

definition utf8_step :: "bool \<Rightarrow> nat \<Rightarrow> nat list \<Rightarrow> nat option \<times> nat" where
  "utf8_step pass b0 r =
     (if b0 < 128 then (Some b0, 1)
      else if 194 \<le> b0 \<and> b0 \<le> 223 then
        (case r of
           b1 # _ \<Rightarrow> if is_cont b1 then (Some ((b0 - 192) * 64 + (b1 - 128)), 2) else (None, 1)
         | [] \<Rightarrow> (None, 1))
      else if 224 \<le> b0 \<and> b0 \<le> 239 then
        (case r of
           b1 # r1 \<Rightarrow> if second_ok pass b0 b1
             then (case r1 of
                 b2 # _ \<Rightarrow> if is_cont b2
                   then (Some ((b0 - 224) * 4096 + (b1 - 128) * 64 + (b2 - 128)), 3) else (None, 2)
               | [] \<Rightarrow> (None, 2))
             else (None, 1)
         | [] \<Rightarrow> (None, 1))
      else if 240 \<le> b0 \<and> b0 \<le> 244 then
        (case r of
           b1 # r1 \<Rightarrow> if second_ok pass b0 b1
             then (case r1 of
                 b2 # r2 \<Rightarrow> if is_cont b2
                   then (case r2 of
                       b3 # _ \<Rightarrow> if is_cont b3
                         then (Some ((b0 - 240) * 262144 + (b1 - 128) * 4096
                                     + (b2 - 128) * 64 + (b3 - 128)), 4) else (None, 3)
                     | [] \<Rightarrow> (None, 3))
                   else (None, 2)
               | [] \<Rightarrow> (None, 2))
             else (None, 1)
         | [] \<Rightarrow> (None, 1))
      else (None, 1))"

text \<open>Strict decoding; \<open>pass\<close> is the \<open>surrogatepass\<close> handler.\<close>

function utf8_decode :: "bool \<Rightarrow> nat list \<Rightarrow> exc + pystr" where
  "utf8_decode pass [] = Inr []"
| "utf8_decode pass (b # r) = (case utf8_step pass b r of
       (None, k) \<Rightarrow> Inl (new_exc UnicodeDecodeError ''invalid utf-8'')
     | (Some c, k) \<Rightarrow> rbind (utf8_decode pass (drop (k - 1) r)) (\<lambda>s. Inr (c # s)))"
  by pat_completeness auto
termination
  by (relation "measure (\<lambda>(p, bs). length bs)") auto

text \<open>\<open>errors="replace"\<close>: every invalid sequence becomes U+FFFD.\<close>

function utf8_decode_replace :: "nat list \<Rightarrow> pystr" where
  "utf8_decode_replace [] = []"
| "utf8_decode_replace (b # r) = (case utf8_step False b r of
       (None, k) \<Rightarrow> 65533 # utf8_decode_replace (drop (k - 1) r)
     | (Some c, k) \<Rightarrow> c # utf8_decode_replace (drop (k - 1) r))"
  by pat_completeness auto
termination
  by (relation "measure length") auto

section \<open>UTF-16 and UTF-32, as json.detect\_encoding may choose them\<close>

fun pairs16 :: "bool \<Rightarrow> nat list \<Rightarrow> nat list option" where
  "pairs16 be [] = Some []"
| "pairs16 be [a] = None"
| "pairs16 be (a # b # r) = map_option (Cons (if be then a * 256 + b else b * 256 + a)) (pairs16 be r)"

fun join16 :: "nat list \<Rightarrow> pystr" where
  "join16 (u # v # r) =
     (if 55296 \<le> u \<and> u \<le> 56319 \<and> 56320 \<le> v \<and> v \<le> 57343
      then (65536 + (u - 55296) * 1024 + (v - 56320)) # join16 r else u # join16 (v # r))"
| "join16 us = us"

fun quads32 :: "bool \<Rightarrow> nat list \<Rightarrow> nat list option" where
  "quads32 be [] = Some []"
| "quads32 be (a # b # c # d # r) =
     (let u = (if be then ((a * 256 + b) * 256 + c) * 256 + d else ((d * 256 + c) * 256 + b) * 256 + a)
      in if u < 1114112 then map_option (Cons u) (quads32 be r) else None)"
| "quads32 be _ = None"

definition decode16 :: "bool \<Rightarrow> nat list \<Rightarrow> exc + pystr" where
  "decode16 be bs = (case pairs16 be bs of
      None \<Rightarrow> Inl (new_exc UnicodeDecodeError ''truncated data'') | Some us \<Rightarrow> Inr (join16 us))"

definition decode32 :: "bool \<Rightarrow> nat list \<Rightarrow> exc + pystr" where
  "decode32 be bs = (case quads32 be bs of
      None \<Rightarrow> Inl (new_exc UnicodeDecodeError ''truncated data'') | Some us \<Rightarrow> Inr us)"

datatype encoding = UTF_32 | UTF_16 | UTF_8_SIG | UTF_16_BE | UTF_32_BE | UTF_16_LE | UTF_32_LE | UTF_8

definition detect_encoding :: "nat list \<Rightarrow> encoding" where
  "detect_encoding b =
     (if take 4 b = [0, 0, 254, 255] \<or> take 4 b = [255, 254, 0, 0] then UTF_32
      else if take 2 b = [254, 255] \<or> take 2 b = [255, 254] then UTF_16
      else if take 3 b = [239, 187, 191] then UTF_8_SIG
      else if 4 \<le> length b then
        (if b ! 0 = 0 then (if b ! 1 \<noteq> 0 then UTF_16_BE else UTF_32_BE)
         else if b ! 1 = 0 then (if b ! 2 \<noteq> 0 \<or> b ! 3 \<noteq> 0 then UTF_16_LE else UTF_32_LE)
         else UTF_8)
      else if length b = 2 then
        (if b ! 0 = 0 then UTF_16_BE else if b ! 1 = 0 then UTF_16_LE else UTF_8)
      else UTF_8)"

definition decode_detected :: "nat list \<Rightarrow> exc + pystr" where
  "decode_detected b = (case detect_encoding b of
       UTF_32 \<Rightarrow> decode32 (take 2 b = [0, 0]) (drop 4 b)
     | UTF_16 \<Rightarrow> decode16 (take 1 b = [254]) (drop 2 b)
     | UTF_8_SIG \<Rightarrow> utf8_decode True (drop 3 b)
     | UTF_16_BE \<Rightarrow> decode16 True b
     | UTF_32_BE \<Rightarrow> decode32 True b
     | UTF_16_LE \<Rightarrow> decode16 False b
     | UTF_32_LE \<Rightarrow> decode32 False b
     | UTF_8 \<Rightarrow> utf8_decode True b)"

text \<open>\<open>json.loads\<close> on a \<open>bytes\<close> object.\<close>

definition json_loads_bytes :: "float_text \<Rightarrow> bytes \<Rightarrow> exc + pyval" where
  "json_loads_bytes ft b = rbind (decode_detected (map unat b)) (json_decode ft)"

section \<open>UTF-8 round trip\<close>

lemma utf8_char_bytes: "c < 1114112 \<Longrightarrow> b \<in> set (utf8_char c) \<Longrightarrow> b < 256"
  by (auto simp: utf8_char_def split: if_splits)

lemma utf8_char_nonempty: "utf8_char c \<noteq> []"
  by (simp add: utf8_char_def)

text \<open>The base-64 digits of a code point.\<close>

lemma base64_digits:
  fixes c :: nat
  shows "c div 4096 * 4096 + c div 64 mod 64 * 64 + c mod 64 = c"
    and "c div 262144 * 262144 + c div 4096 mod 64 * 4096 + c div 64 mod 64 * 64 + c mod 64 = c"
proof -
  have m: "c div 64 div 64 = c div 4096" "c div 4096 div 64 = c div 262144"
    by (simp_all add: div_mult2_eq [symmetric])
  have a: "c div 64 * 64 + c mod 64 = c" by (rule div_mult_mod_eq)
  have b: "c div 4096 * 64 + c div 64 mod 64 = c div 64"
    using div_mult_mod_eq [of "c div 64" 64] m by simp
  have d: "c div 262144 * 64 + c div 4096 mod 64 = c div 4096"
    using div_mult_mod_eq [of "c div 4096" 64] m by simp
  show one: "c div 4096 * 4096 + c div 64 mod 64 * 64 + c mod 64 = c"
    using a b by linarith
  show "c div 262144 * 262144 + c div 4096 mod 64 * 4096 + c div 64 mod 64 * 64 + c mod 64 = c"
    using one d by linarith
qed

lemma utf8_step_2:
  assumes "128 \<le> c" and "c < 2048"
  shows "utf8_step p (hd (utf8_char c)) (tl (utf8_char c) @ r) = (Some c, length (utf8_char c))"
proof -
  have "c div 64 * 64 + c mod 64 = c" by (rule div_mult_mod_eq)
  moreover have "2 \<le> c div 64" "c div 64 < 32" using assms by auto
  moreover have "c mod 64 < 64" by simp
  ultimately show ?thesis using assms
    by (simp add: utf8_char_def utf8_step_def is_cont_def)
qed

lemma utf8_step_3:
  assumes "2048 \<le> c" and "c < 65536" and "\<not> is_surrogate c"
  shows "utf8_step p (hd (utf8_char c)) (tl (utf8_char c) @ r) = (Some c, length (utf8_char c))"
proof -
  define x y z where "x = c div 4096" and "y = c div 64 mod 64" and "z = c mod 64"
  have e: "x * 4096 + y * 64 + z = c" unfolding x_def y_def z_def by (rule base64_digits)
  have b: "x < 16" "y < 64" "z < 64" using assms by (auto simp: x_def y_def z_def)
  have "x = 0 \<Longrightarrow> 32 \<le> y" using e b assms(1) by linarith
  moreover have "x = 13 \<Longrightarrow> y \<le> 31" using e b assms(3) unfolding is_surrogate_def by linarith
  ultimately have s: "second_ok p (224 + x) (128 + y)"
    using b by (auto simp: second_ok_def is_cont_def)
  have u: "utf8_char c = [224 + x, 128 + y, 128 + z]"
    using assms by (simp add: utf8_char_def x_def y_def z_def)
  show ?thesis unfolding u using s b e by (simp add: utf8_step_def is_cont_def)
qed

lemma utf8_step_4:
  assumes "65536 \<le> c" and "c < 1114112"
  shows "utf8_step p (hd (utf8_char c)) (tl (utf8_char c) @ r) = (Some c, length (utf8_char c))"
proof -
  define w x y z where "w = c div 262144" and "x = c div 4096 mod 64"
    and "y = c div 64 mod 64" and "z = c mod 64"
  have e: "w * 262144 + x * 4096 + y * 64 + z = c"
    unfolding w_def x_def y_def z_def by (rule base64_digits)
  have b: "w < 5" "x < 64" "y < 64" "z < 64" using assms by (auto simp: w_def x_def y_def z_def)
  have "w = 0 \<Longrightarrow> 16 \<le> x" using e b assms(1) by linarith
  moreover have "w = 4 \<Longrightarrow> x \<le> 15" using e b assms(2) by linarith
  ultimately have s: "second_ok p (240 + w) (128 + x)"
    using b by (auto simp: second_ok_def is_cont_def)
  have u: "utf8_char c = [240 + w, 128 + x, 128 + y, 128 + z]"
    using assms by (simp add: utf8_char_def w_def x_def y_def z_def)
  show ?thesis unfolding u using s b e by (simp add: utf8_step_def is_cont_def)
qed

lemma utf8_step_char:
  assumes "c < 1114112" and "\<not> is_surrogate c"
  shows "utf8_step p (hd (utf8_char c)) (tl (utf8_char c) @ r) = (Some c, length (utf8_char c))"
proof -
  consider "c < 128" | "128 \<le> c" "c < 2048" | "2048 \<le> c" "c < 65536" | "65536 \<le> c"
    by linarith
  then show ?thesis
  proof cases
    case 1
    then show ?thesis by (simp add: utf8_char_def utf8_step_def)
  qed (use assms utf8_step_2 utf8_step_3 utf8_step_4 in blast)+
qed

lemma utf8_decode_char:
  assumes "c < 1114112" and "\<not> is_surrogate c"
  shows "utf8_decode p (utf8_char c @ r) = rbind (utf8_decode p r) (\<lambda>s. Inr (c # s))"
proof -
  obtain b t where bt: "utf8_char c = b # t"
    using utf8_char_nonempty by (cases "utf8_char c") auto
  have "utf8_step p b (t @ r) = (Some c, Suc (length t))"
    using utf8_step_char [OF assms, of p r] bt by simp
  then show ?thesis using bt by simp
qed

lemma utf8_decode_encode:
  assumes "\<forall>c \<in> set s. c < 1114112 \<and> \<not> is_surrogate c"
  shows "utf8_decode p (concat (map utf8_char s)) = Inr s"
  using assms by (induction s) (auto simp: utf8_decode_char simp del: utf8_decode.simps(2))

lemma unat_of_byte: "n < 256 \<Longrightarrow> unat (of_nat n :: byte) = n"
  by (simp add: unat_of_nat take_bit_nat_eq_self)

lemma map_unat_of_bytes:
  "\<forall>n \<in> set ns. n < 256 \<Longrightarrow> map (unat \<circ> (of_nat :: nat \<Rightarrow> byte)) ns = ns"
  by (induction ns) (auto simp: unat_of_byte)

end
