(* ===== verification/Runtime.thy ===== *)
theory Runtime
  imports Wasm Encoding
begin

text \<open>
  \<^verbatim>\<open>opapywasm/runtime.py\<close> without the ticker: the host functions a guest may import,
  the factory, the constructor of a runtime with its retry loop over initial memory sizes,
  and the lookup of exports.
\<close>

section \<open>Constants\<close>

definition NO_DEADLINE_TICKS :: int where "NO_DEADLINE_TICKS = 2 ^ 40"
definition WASM_PAGE_BYTES :: int where "WASM_PAGE_BYTES = 64 * 1024"
definition DEFAULT_MEMORY_PAGES :: int where "DEFAULT_MEMORY_PAGES = 2"
definition MAX_INSTANTIATION_MEMORY_PAGES :: int where "MAX_INSTANTIATION_MEMORY_PAGES = 16384"

definition BUILTIN_IMPORTS :: "(string \<times> nat) list" where
  "BUILTIN_IMPORTS = [(''opa_builtin0'', 0), (''opa_builtin1'', 1), (''opa_builtin2'', 2),
     (''opa_builtin3'', 3), (''opa_builtin4'', 4)]"

section \<open>Host functions\<close>

text \<open>The callback of an instance: builtin id, context, argument addresses.\<close>

type_synonym 's dispatch = "int \<Rightarrow> int \<Rightarrow> int list \<Rightarrow> ('s, exc, int) act"

definition read_cstring_lenient :: "'s wasm \<Rightarrow> int \<Rightarrow> ('s, exc, pystr) act" where
  "read_cstring_lenient w addr =
     bnd (try_except (bnd (wt_memory_read w addr (addr + 4096)) (\<lambda>data. ret (Some data)))
            (\<lambda>e. if is_exception (exc_class_of e) then ret None else raise e))
       (\<lambda>data. case data of
           None \<Rightarrow> ret (ustr ''<unreadable message at addr '' @ int_repr addr @ ustr ''>'')
         | Some b \<Rightarrow> ret (utf8_decode_replace (map unat
             (case find_index 0 b of Some nul \<Rightarrow> take nul b | None \<Rightarrow> b))))"

definition opa_abort :: "'s wasm \<Rightarrow> int \<Rightarrow> ('s, exc, unit) act" where
  "opa_abort w addr = bnd (read_cstring_lenient w addr) (\<lambda>message. raise (new_exc_text OpaAbortError message))"

definition opa_println :: "'s wasm \<Rightarrow> int \<Rightarrow> ('s, exc, unit) act" where
  "opa_println w addr = bnd (read_cstring_lenient w addr) (\<lambda>message. ret ())"

definition opa_builtin :: "'s dispatch option \<Rightarrow> int \<Rightarrow> int \<Rightarrow> int list \<Rightarrow> ('s, exc, int) act" where
  "opa_builtin dispatch builtin_id ctx args = (case dispatch of
       None \<Rightarrow> raise (new_exc OpaBuiltinError ''no builtin dispatch is registered'')
     | Some d \<Rightarrow> d builtin_id ctx args)"

text \<open>The functions the linker may bind, by import name.\<close>

definition host_fns :: "'s wasm \<Rightarrow> 's dispatch option \<Rightarrow> 's host" where
  "host_fns w dispatch name args =
     (if name = ''opa_abort'' then
        (case args of [a] \<Rightarrow> bnd (opa_abort w a) (\<lambda>_. ret None) | _ \<Rightarrow> raise (new_exc TypeError ''arity''))
      else if name = ''opa_println'' then
        (case args of [a] \<Rightarrow> bnd (opa_println w a) (\<lambda>_. ret None) | _ \<Rightarrow> raise (new_exc TypeError ''arity''))
      else (case args of
          builtin_id # ctx # rest \<Rightarrow> bnd (opa_builtin dispatch builtin_id ctx rest) (\<lambda>r. ret (Some r))
        | _ \<Rightarrow> raise (new_exc TypeError ''arity'')))"

text \<open>
  \<open>_register_env_imports\<close>: the memory always, a host function only when the module declares
  it; \<open>opa_builtinN\<close> takes \<open>N + 2\<close> arguments.
\<close>

definition env_functions :: "(string \<times> valtype list \<times> valtype list) list" where
  "env_functions = [(''opa_abort'', [I32], []), (''opa_println'', [I32], [])]
     @ map (\<lambda>(name, arity). (name, [I32, I32] @ replicate arity I32, [I32])) BUILTIN_IMPORTS"

definition env_links :: "wmodule \<Rightarrow> link list" where
  "env_links m =
     (let declared = map (\<lambda>(mo, name, ty). (mo, name)) (m_imports m) in
      (''env'', ''memory'', Memory)
      # map (\<lambda>(name, ps, rs). (''env'', name, Func ps rs))
          (filter (\<lambda>(name, ps, rs). (''env'', name) \<in> set declared) env_functions))"

definition register_env_imports :: "'s wasm \<Rightarrow> wmodule \<Rightarrow> ('s, exc, link list) act" where
  "register_env_imports w m = bnd (map_act (wt_define w) (env_links m)) (\<lambda>_. ret (env_links m))"

section \<open>Construction of a runtime\<close>

record 's runtime =
  rt_id :: nat
  rt_store :: 's
  rt_exports :: "string \<Rightarrow> extern option"

definition is_memory_overflow_trap :: "exc \<Rightarrow> bool" where
  "is_memory_overflow_trap e \<longleftrightarrow> exc_class_of e = Trap (Some MEMORY_OUT_OF_BOUNDS)"

text \<open>The body of the inner \<open>try\<close>: one attempt on a fresh store.\<close>

definition attempt ::
  "'s wasm \<Rightarrow> wmodule \<Rightarrow> 's dispatch option \<Rightarrow> int option \<Rightarrow> int \<Rightarrow> ('s, exc, string \<Rightarrow> extern option) act"
where
  "attempt w m dispatch max_pages initial_pages =
     bnd (updating (wt_set_epoch_deadline w NO_DEADLINE_TICKS)) (\<lambda>_.
     bnd (wt_memory_new w initial_pages max_pages) (\<lambda>_.
     bnd (case max_pages of None \<Rightarrow> ret () | Some p \<Rightarrow> wt_set_limits w (p * WASM_PAGE_BYTES)) (\<lambda>_.
     bnd (register_env_imports w m) (\<lambda>linker.
     bnd (wt_instantiate w (host_fns w dispatch) linker m) (\<lambda>_.
     reading (wt_exports w))))))"

text \<open>
  The \<open>while True\<close> loop. \<open>cur\<close> is the store held in \<open>self._store\<close> (\<open>None\<close>: not yet
  assigned); the result is the outcome, \<open>self._store\<close> and the native stores. \<open>None\<close> would be
  a loop that never ends; \<open>instantiate_loop_spec\<close> shows that it always does.
\<close>

partial_function (option) instantiate_loop ::
  "'s wasm \<Rightarrow> wmodule \<Rightarrow> 's dispatch option \<Rightarrow> int option \<Rightarrow> int \<Rightarrow> int \<Rightarrow> nat option \<Rightarrow> native
     \<Rightarrow> ((exc + int \<times> 's runtime) \<times> nat option \<times> native) option"
where
  [code]: "instantiate_loop w m dispatch max_pages ceiling initial_pages cur nt =
     (case wt_store_new w (nt_next nt) of
        Inl e \<Rightarrow> Some (Inl e, cur, nt)
      | Inr s \<Rightarrow>
          (let i = nt_next nt; nt1 = store_open nt in
           case attempt w m dispatch max_pages initial_pages s of
             (Inr exports, s') \<Rightarrow>
               Some (Inr (initial_pages, \<lparr>rt_id = i, rt_store = s', rt_exports = exports\<rparr>), Some i, nt1)
           | (Inl e, s') \<Rightarrow>
               if \<not> is_wasmtime_error (exc_class_of e) then Some (Inl e, Some i, nt1)
               else (let nt2 = store_close i nt1 in
                 if \<not> is_memory_overflow_trap e \<or> ceiling \<le> initial_pages
                 then Some (Inl (raise_from OpaInvalidPolicyError ''failed to instantiate policy'' e), Some i, nt2)
                 else instantiate_loop w m dispatch max_pages ceiling
                        (min (initial_pages * 2) ceiling) (Some i) nt2)))"

text \<open>\<open>WasmtimeRuntime.__init__\<close>; the outer \<open>except BaseException\<close> closes \<open>self._store\<close>.\<close>

definition runtime_init ::
  "'s wasm \<Rightarrow> wmodule \<Rightarrow> 's dispatch option \<Rightarrow> int option \<Rightarrow> native
     \<Rightarrow> ((exc + int \<times> 's runtime) \<times> native) option"
where
  "runtime_init w m dispatch max_pages nt =
     (if (case max_pages of None \<Rightarrow> False | Some p \<Rightarrow> p < DEFAULT_MEMORY_PAGES)
      then Some (Inl (new_exc OpaInvalidPolicyError ''max_memory_pages is below the minimum''), nt)
      else (case instantiate_loop w m dispatch max_pages
               (case max_pages of None \<Rightarrow> MAX_INSTANTIATION_MEMORY_PAGES | Some p \<Rightarrow> p)
               DEFAULT_MEMORY_PAGES None nt of
          None \<Rightarrow> None
        | Some (Inr pr, cur, nt') \<Rightarrow> Some (Inr pr, nt')
        | Some (Inl e, cur, nt') \<Rightarrow>
            Some (Inl e, (case cur of None \<Rightarrow> nt' | Some i \<Rightarrow> store_close i nt'))))"

text \<open>\<open>WasmtimeRuntime.close\<close>\<close>

definition runtime_close :: "'s runtime \<Rightarrow> native \<Rightarrow> native" where
  "runtime_close rt nt = store_close (rt_id rt) nt"

section \<open>The factory\<close>

record wfactory =
  fa_module :: wmodule
  fa_max_memory_pages :: "int option"

text \<open>\<open>_validate_required_env_imports\<close>; of two imports with one name the dictionary keeps the last.\<close>

definition validate_required_env_imports :: "wmodule \<Rightarrow> exc + unit" where
  "validate_required_env_imports m =
     (case map_of (rev (map (\<lambda>(mo, name, ty). ((mo, name), ty)) (m_imports m))) (''env'', ''memory'') of
        None \<Rightarrow> Inl (new_exc OpaInvalidPolicyError ''policy wasm does not import env.memory'')
      | Some ty \<Rightarrow> if ty = Memory then Inr ()
          else Inl (new_exc OpaInvalidPolicyError ''env.memory import is not a memory''))"

definition factory_init :: "'s wasm \<Rightarrow> bytes \<Rightarrow> int option \<Rightarrow> exc + wfactory" where
  "factory_init w wasm_bytes max_pages =
     (if wasm_bytes = [] then Inl (new_exc OpaInvalidPolicyError ''policy wasm is empty'')
      else (case wt_compile w wasm_bytes of
          Inl e \<Rightarrow> if is_wasmtime_error (exc_class_of e)
            then Inl (raise_from OpaInvalidPolicyError ''invalid policy wasm'' e) else Inl e
        | Inr m \<Rightarrow> rbind (validate_required_env_imports m)
            (\<lambda>_. Inr \<lparr>fa_module = m, fa_max_memory_pages = max_pages\<rparr>)))"

text \<open>\<open>create_runtime\<close>; the constructor always returns (\<open>runtime_init_total\<close>).\<close>

definition create_runtime ::
  "'s wasm \<Rightarrow> wfactory \<Rightarrow> 's dispatch option \<Rightarrow> native \<Rightarrow> (exc + 's runtime) \<times> native" where
  "create_runtime w f dispatch nt =
     (case the (runtime_init w (fa_module f) dispatch (fa_max_memory_pages f) nt) of
        (Inl e, nt') \<Rightarrow> (Inl e, nt') | (Inr (p, rt), nt') \<Rightarrow> (Inr rt, nt'))"

section \<open>Exports\<close>

definition has_export :: "(string \<Rightarrow> extern option) \<Rightarrow> string \<Rightarrow> bool" where
  "has_export ex name \<longleftrightarrow> ex name \<noteq> None"

definition get_export :: "(string \<Rightarrow> extern option) \<Rightarrow> string \<Rightarrow> exc + extern" where
  "get_export ex name = (case ex name of
       None \<Rightarrow> Inl (new_exc OpaInvalidPolicyError ''policy is missing required export'')
     | Some item \<Rightarrow> Inr item)"

definition get_func :: "(string \<Rightarrow> extern option) \<Rightarrow> string \<Rightarrow> exc + (valtype list \<times> valtype list)" where
  "get_func ex name = rbind (get_export ex name) (\<lambda>item. case item of
       Func ps rs \<Rightarrow> Inr (ps, rs)
     | _ \<Rightarrow> Inl (new_exc OpaInvalidPolicyError ''export is not a function''))"

section \<open>The retry loop ends, bounded, and leaks no store\<close>

lemmas instantiate_loop_unfold = instantiate_loop.simps

text \<open>
  What the loop leaves behind, for a current store that is not open (none yet, or the closed
  store of the previous attempt): \<open>p\<close> is the size it starts with, \<open>c\<close> the ceiling.
\<close>

definition loop_post ::
  "int \<Rightarrow> int \<Rightarrow> native \<Rightarrow> (exc + int \<times> 's runtime) \<times> nat option \<times> native \<Rightarrow> bool" where
  "loop_post p c nt res \<longleftrightarrow> (case res of (r, cur, nt') \<Rightarrow> native_wf nt'
     \<and> (\<exists>k. nt_next nt' = nt_next nt + k \<and> p * 2 ^ k < 4 * c)
     \<and> (case r of
          Inl e \<Rightarrow> nt_open nt' - set_option cur = nt_open nt
        | Inr (q, rt) \<Rightarrow> p \<le> q \<and> q \<le> c \<and> nt_next nt \<le> rt_id rt \<and> nt_open nt' = insert (rt_id rt) (nt_open nt)))"

lemma doubling_bound:
  fixes p c :: int
  assumes "0 < p" and "p < c" and "min (p * 2) c * 2 ^ k < 4 * c"
  shows "p * 2 ^ Suc k < 4 * c"
proof (cases "p * 2 \<le> c")
  case True
  then show ?thesis using assms by (simp add: min_def)
next
  case False
  then have "c * 2 ^ k < c * 4" using assms by (simp add: min_def)
  then have "(2::int) ^ k < 2 ^ 2" using assms by simp
  then have "k < 2" using power_strict_increasing_iff [of "2::int" k 2] by linarith
  then have "k = 0 \<or> k = 1" by auto
  then show ?thesis using assms by auto
qed

lemma instantiate_loop_spec:
  assumes "0 < p" and "p \<le> c" and "native_wf nt" and "set_option cur \<inter> nt_open nt = {}"
  shows "\<exists>res. instantiate_loop w m d mp c p cur nt = Some res \<and> loop_post p c nt res"
  using assms
proof (induction "nat (c - p)" arbitrary: p cur nt rule: less_induct)
  case less
  let ?i = "nt_next nt"
  have fresh: "?i \<notin> nt_open nt" using less.prems(3) by (rule native_wf_next)
  have b0: "p * 2 ^ 0 < 4 * c" "p * 2 ^ Suc 0 < 4 * c" using less.prems by auto
  show ?case
  proof (cases "wt_store_new w ?i")
    case (Inl e)
    then show ?thesis using less.prems b0
      by (subst instantiate_loop_unfold) (auto simp: loop_post_def intro: exI [of _ "0::nat"])
  next
    case (Inr s)
    obtain r s' where a: "attempt w m d mp p s = (r, s')" by fastforce
    let ?again = "\<exists>e. r = Inl e \<and> is_wasmtime_error (exc_class_of e) \<and> is_memory_overflow_trap e \<and> p < c"
    show ?thesis
    proof (cases ?again)
      case True
      let ?nt2 = "store_close ?i (store_open nt)" and ?p = "min (p * 2) c"
      have o2: "nt_open ?nt2 = nt_open nt" using fresh by auto
      have "\<exists>res. instantiate_loop w m d mp c ?p (Some ?i) ?nt2 = Some res \<and> loop_post ?p c ?nt2 res"
        by (rule less.hyps) (use True less.prems fresh in auto)
      then obtain res where res: "instantiate_loop w m d mp c ?p (Some ?i) ?nt2 = Some res"
        "loop_post ?p c ?nt2 res" by blast
      obtain k where "nt_next (snd (snd res)) = Suc (nt_next nt) + k" "?p * 2 ^ k < 4 * c"
        using res(2) by (auto simp: loop_post_def split: prod.splits)
      then have "\<exists>k. nt_next (snd (snd res)) = nt_next nt + k \<and> p * 2 ^ k < 4 * c"
        using doubling_bound [of p c k] True less.prems by (intro exI [of _ "Suc k"]) auto
      then have "loop_post p c nt res" using res(2) less.prems True o2
        by (auto simp: loop_post_def split: prod.splits sum.splits)
      then show ?thesis using Inr a True res(1)
        by (subst instantiate_loop_unfold, cases res) (auto simp: Let_def)
    next
      case False
      have one: "\<exists>k. Suc (nt_next nt) = nt_next nt + k \<and> p * 2 ^ k < 4 * c"
        using b0(2) by (intro exI [of _ "Suc 0"]) auto
      show ?thesis using Inr a False less.prems fresh one
        by (subst instantiate_loop_unfold)
          (auto simp: Let_def loop_post_def not_less split: sum.splits)
    qed
  qed
qed

definition runtime_post ::
  "int option \<Rightarrow> native \<Rightarrow> (exc + int \<times> 's runtime) \<times> native \<Rightarrow> bool" where
  "runtime_post mp nt res \<longleftrightarrow> (case res of (r, nt') \<Rightarrow> native_wf nt'
     \<and> (\<exists>k. nt_next nt' = nt_next nt + k
           \<and> 2 ^ k < 2 * (case mp of None \<Rightarrow> 16384 | Some p \<Rightarrow> max 2 p))
     \<and> (case r of
          Inl e \<Rightarrow> nt_open nt' = nt_open nt
        | Inr (q, rt) \<Rightarrow> 2 \<le> q \<and> q \<le> (case mp of None \<Rightarrow> 16384 | Some p \<Rightarrow> p)
            \<and> nt_next nt \<le> rt_id rt \<and> nt_open nt' = insert (rt_id rt) (nt_open nt)))"

lemma runtime_init_spec:
  assumes "native_wf nt"
  shows "\<exists>res. runtime_init w m d mp nt = Some res \<and> runtime_post mp nt res"
proof (cases "\<exists>p. mp = Some p \<and> p < 2")
  case True
  then show ?thesis using assms
    by (auto simp: runtime_init_def runtime_post_def DEFAULT_MEMORY_PAGES_def intro: exI [of _ "0::nat"])
next
  case False
  let ?c = "case mp of None \<Rightarrow> 16384 | Some p \<Rightarrow> p"
  have c: "2 \<le> ?c" "(case mp of None \<Rightarrow> 16384 | Some p \<Rightarrow> max 2 p) = ?c"
    using False by (auto split: option.splits)
  obtain r cur nt' where l: "instantiate_loop w m d mp ?c 2 None nt = Some (r, cur, nt')"
    "loop_post 2 ?c nt (r, cur, nt')"
    using instantiate_loop_spec [of 2 ?c nt None w m d mp] c(1) assms by auto
  obtain k where k: "nt_next nt' = nt_next nt + k" "2 * 2 ^ k < 4 * ?c"
    using l(2) by (auto simp: loop_post_def)
  have cl: "native_wf (case cur of None \<Rightarrow> nt' | Some i \<Rightarrow> store_close i nt')"
    "nt_next (case cur of None \<Rightarrow> nt' | Some i \<Rightarrow> store_close i nt') = nt_next nt'"
    "nt_open (case cur of None \<Rightarrow> nt' | Some i \<Rightarrow> store_close i nt') = nt_open nt' - set_option cur"
    using l(2) by (auto simp: loop_post_def split: option.splits)
  have "runtime_init w m d mp nt = Some (case r of
      Inr pr \<Rightarrow> (Inr pr, nt') | Inl e \<Rightarrow> (Inl e, case cur of None \<Rightarrow> nt' | Some i \<Rightarrow> store_close i nt'))"
    using False l(1)
    by (auto simp: runtime_init_def DEFAULT_MEMORY_PAGES_def MAX_INSTANTIATION_MEMORY_PAGES_def
        split: option.splits sum.splits)
  moreover have "runtime_post mp nt (case r of
      Inr pr \<Rightarrow> (Inr pr, nt') | Inl e \<Rightarrow> (Inl e, case cur of None \<Rightarrow> nt' | Some i \<Rightarrow> store_close i nt'))"
    using l(2) k cl c(2)
    by (auto simp: runtime_post_def loop_post_def split: sum.splits intro: exI [of _ k])
  ultimately show ?thesis by blast
qed

lemma create_runtime_cases:
  assumes "native_wf nt"
  obtains (failed) e nt' where "create_runtime w f d nt = (Inl e, nt')" "native_wf nt'" "nt_open nt' = nt_open nt"
        "nt_next nt \<le> nt_next nt'"
    | (built) rt nt' where "create_runtime w f d nt = (Inr rt, nt')" "native_wf nt'"
        "nt_open nt' = insert (rt_id rt) (nt_open nt)" "nt_next nt \<le> rt_id rt" "nt_next nt \<le> nt_next nt'"
proof -
  obtain r nt' where *: "runtime_init w (fa_module f) d (fa_max_memory_pages f) nt = Some (r, nt')"
    "runtime_post (fa_max_memory_pages f) nt (r, nt')"
    using runtime_init_spec [OF assms] by (metis surj_pair)
  show thesis
  proof (cases r)
    case (Inl e)
    show thesis by (rule failed [of e nt']) (use * Inl in \<open>auto simp: create_runtime_def runtime_post_def\<close>)
  next
    case (Inr pr)
    obtain q rt where "pr = (q, rt)" by fastforce
    with * Inr show thesis by (intro built [of rt nt']) (auto simp: create_runtime_def runtime_post_def)
  qed
qed

lemma runtime_init_total: "native_wf nt \<Longrightarrow> \<exists>res. runtime_init w m d mp nt = Some res"
  using runtime_init_spec by blast

text \<open>The deadline of a runtime's store.\<close>

definition rt_set_epoch_deadline :: "'s wasm \<Rightarrow> int \<Rightarrow> ('s, exc, unit) act" where
  "rt_set_epoch_deadline w ticks = updating (wt_set_epoch_deadline w ticks)"

definition rt_clear_epoch_deadline :: "'s wasm \<Rightarrow> ('s, exc, unit) act" where
  "rt_clear_epoch_deadline w = updating (wt_set_epoch_deadline w NO_DEADLINE_TICKS)"

section \<open>Host functions and lookups\<close>

lemma read_cstring_lenient_raises:
  "raises_in (\<lambda>e. \<not> is_exception (exc_class_of e)) (read_cstring_lenient w addr)"
  unfolding read_cstring_lenient_def
  by (auto intro!: raises_bnd raises_try_except raises_ret raises_raise split: option.splits)

lemma get_func_Inr: "get_func ex name = Inr (ps, rs) \<longleftrightarrow> ex name = Some (Func ps rs)"
  by (auto simp: get_func_def get_export_def split: option.splits extern.splits)

lemma get_func_error: "get_func ex name = Inl e \<Longrightarrow> exc_class_of e = OpaInvalidPolicyError"
  by (auto simp: get_func_def get_export_def split: option.splits extern.splits)

section \<open>Where the outcome of a construction comes from\<close>

text \<open>
  A runtime is what one attempt on its own fresh store gave. An error is the failure to create
  a store, a wasmtime error of an attempt wrapped as an invalid policy, or another exception
  of an attempt as it was raised.
\<close>

definition attempt_outcome ::
  "'s wasm \<Rightarrow> wmodule \<Rightarrow> 's dispatch option \<Rightarrow> int option \<Rightarrow> exc + int \<times> 's runtime \<Rightarrow> bool" where
  "attempt_outcome w m d mp r \<longleftrightarrow> (case r of
       Inr (q, rt) \<Rightarrow> \<exists>s. wt_store_new w (rt_id rt) = Inr s
         \<and> attempt w m d mp q s = (Inr (rt_exports rt), rt_store rt)
     | Inl e \<Rightarrow> (\<exists>n. wt_store_new w n = Inl e)
         \<or> (\<exists>n s q e' s'. wt_store_new w n = Inr s \<and> attempt w m d mp q s = (Inl e', s')
              \<and> e = (if is_wasmtime_error (exc_class_of e')
                     then raise_from OpaInvalidPolicyError ''failed to instantiate policy'' e' else e')))"

lemma instantiate_loop_outcome:
  "instantiate_loop w m d mp c p cur nt = Some res \<Longrightarrow> attempt_outcome w m d mp (fst res)"
proof (induction rule: instantiate_loop.raw_induct [rotated, consumes 1, case_names step])
  case (step loop w m d mp c p cur nt res)
  show ?case
  proof (cases "wt_store_new w (nt_next nt)")
    case (Inl e)
    then show ?thesis using step(2) by (auto simp: attempt_outcome_def)
  next
    case (Inr s)
    obtain r s' where a: "attempt w m d mp p s = (r, s')" by fastforce
    show ?thesis
    proof (cases r)
      case (Inr ex)
      then show ?thesis using step(2) \<open>wt_store_new w (nt_next nt) = Inr s\<close> a by (auto simp: Let_def attempt_outcome_def)
    next
      case (Inl e)
      have "attempt_outcome w m d mp (Inl (if is_wasmtime_error (exc_class_of e)
          then raise_from OpaInvalidPolicyError ''failed to instantiate policy'' e else e) :: exc + int \<times> 'a runtime)"
        using \<open>wt_store_new w (nt_next nt) = Inr s\<close> a Inl unfolding attempt_outcome_def by fastforce
      then show ?thesis using step \<open>wt_store_new w (nt_next nt) = Inr s\<close> a Inl
        by (auto simp: Let_def split: if_splits)
    qed
  qed
qed

lemma runtime_init_outcome:
  assumes "runtime_init w m d mp nt = Some (r, nt')"
  shows "attempt_outcome w m d mp r
    \<or> r = Inl (new_exc OpaInvalidPolicyError ''max_memory_pages is below the minimum'')"
  using assms instantiate_loop_outcome [of w m d mp]
  by (auto simp: runtime_init_def split: if_splits option.splits sum.splits)

lemma runtime_init_error:
  assumes "runtime_init w m d mp nt = Some (Inl e, nt')"
  shows "(\<exists>n. wt_store_new w n = Inl e) \<or> exc_class_of e = OpaInvalidPolicyError
    \<or> \<not> is_wasmtime_error (exc_class_of e)
      \<and> (\<exists>n s q s'. wt_store_new w n = Inr s \<and> attempt w m d mp q s = (Inl e, s'))"
proof (rule disjE [OF runtime_init_outcome [OF assms]])
  assume "attempt_outcome w m d mp (Inl e)"
  then consider "\<exists>n. wt_store_new w n = Inl e"
    | n s q e' s' where "wt_store_new w n = Inr s" "attempt w m d mp q s = (Inl e', s')"
        "e = (if is_wasmtime_error (exc_class_of e')
              then raise_from OpaInvalidPolicyError ''failed to instantiate policy'' e' else e')"
    unfolding attempt_outcome_def by auto
  then show ?thesis
  proof cases
    case 2
    then show ?thesis by (cases "is_wasmtime_error (exc_class_of e')") auto
  qed blast
qed simp

end
