(* ===== verification/Abi.thy ===== *)
theory Abi
  imports Runtime
begin

text \<open>
  \<^verbatim>\<open>opapywasm/abi.py\<close>: the versions and exports the SDK accepts, the validation in the
  constructor of the adapter, and the typed wrappers around the exports. An adapter is bound
  to the exports of one instance and to the host functions its guest may call.
\<close>

section \<open>The specification of the ABI\<close>

definition REQUIRED_EXPORTS :: "string list" where
  "REQUIRED_EXPORTS = [''opa_malloc'', ''opa_free'', ''opa_json_parse'', ''opa_json_dump'',
     ''opa_heap_ptr_get'', ''opa_heap_ptr_set'', ''entrypoints'', ''builtins'']"

definition EVAL_CTX_EXPORTS :: "string list" where
  "EVAL_CTX_EXPORTS = [''opa_eval_ctx_new'', ''opa_eval_ctx_set_input'', ''opa_eval_ctx_set_data'',
     ''opa_eval_ctx_set_entrypoint'', ''eval'', ''opa_eval_ctx_get_result'']"

definition HEAP_STASH_EXPORTS :: "string list" where
  "HEAP_STASH_EXPORTS = [''opa_heap_blocks_stash'', ''opa_heap_blocks_restore'', ''opa_heap_stash_clear'']"

definition EXPECTED_SIGNATURES :: "(string \<times> valtype list \<times> valtype list) list" where
  "EXPECTED_SIGNATURES = [
     (''opa_malloc'', [I32], [I32]),
     (''opa_free'', [I32], []),
     (''opa_json_parse'', [I32, I32], [I32]),
     (''opa_json_dump'', [I32], [I32]),
     (''opa_heap_ptr_get'', [], [I32]),
     (''opa_heap_ptr_set'', [I32], []),
     (''entrypoints'', [], [I32]),
     (''builtins'', [], [I32]),
     (''opa_eval'', replicate 7 I32, [I32])]"

record abi_spec =
  min_major :: int
  max_major :: int
  min_minor_for_eval :: int
  required_exports :: "string list"

definition default_spec :: abi_spec where
  "default_spec = \<lparr>min_major = 1, max_major = 1, min_minor_for_eval = 2, required_exports = REQUIRED_EXPORTS\<rparr>"

definition check_version :: "abi_spec \<Rightarrow> int \<Rightarrow> int \<Rightarrow> exc + unit" where
  "check_version sp major minor =
     (if \<not> (min_major sp \<le> major \<and> major \<le> max_major sp)
      then Inl (new_exc OpaAbiError ''unsupported OPA Wasm ABI major version'') else Inr ())"

definition requires_eval_fast_path :: "abi_spec \<Rightarrow> int \<Rightarrow> bool" where
  "requires_eval_fast_path sp minor \<longleftrightarrow> min_minor_for_eval sp \<le> minor"

section \<open>The adapter\<close>

record 's abi =
  ab_wasm :: "'s wasm"
  ab_host :: "'s host"
  ab_exports :: "string \<Rightarrow> extern option"
  ab_version :: "int \<times> int"
  supports_opa_eval :: bool
  supports_eval_context :: bool
  supports_heap_stash :: bool
  supports_value_free :: bool

definition read_version :: "'s wasm \<Rightarrow> (string \<Rightarrow> extern option) \<Rightarrow> 's \<Rightarrow> exc + (int \<times> int)" where
  "read_version w ex s =
     (if ex ''opa_wasm_abi_version'' \<noteq> Some Global
      then Inl (new_exc OpaAbiError ''policy is missing the ABI global; not an OPA policy'')
      else (let major = wt_global_value w ''opa_wasm_abi_version'' s;
                minor = (if ex ''opa_wasm_abi_minor_version'' = Some Global
                         then wt_global_value w ''opa_wasm_abi_minor_version'' s else GInt 0)
            in case (major, minor) of
                 (GInt a, GInt b) \<Rightarrow> Inr (a, b)
               | _ \<Rightarrow> Inl (new_exc OpaAbiError ''OPA ABI version globals are not integers'')))"

definition validate_required_exports :: "abi_spec \<Rightarrow> (string \<Rightarrow> extern option) \<Rightarrow> exc + unit" where
  "validate_required_exports sp ex =
     (if filter (\<lambda>name. \<not> has_export ex name) (required_exports sp) \<noteq> []
      then Inl (new_exc OpaAbiError ''policy is missing required OPA ABI export(s)'') else Inr ())"

fun validate_signatures ::
  "(string \<Rightarrow> extern option) \<Rightarrow> (string \<times> valtype list \<times> valtype list) list \<Rightarrow> exc + unit" where
  "validate_signatures ex [] = Inr ()"
| "validate_signatures ex ((name, want_params, want_results) # r) =
     (if \<not> has_export ex name then validate_signatures ex r
      else rbind (get_func ex name) (\<lambda>(got_params, got_results).
        if got_params \<noteq> want_params \<or> got_results \<noteq> want_results
        then Inl (new_exc OpaAbiError ''OPA export has unexpected signature'')
        else validate_signatures ex r))"

definition abi_init ::
  "'s wasm \<Rightarrow> 's host \<Rightarrow> (string \<Rightarrow> extern option) \<Rightarrow> abi_spec \<Rightarrow> 's \<Rightarrow> exc + 's abi" where
  "abi_init w host ex sp s =
     rbind (read_version w ex s) (\<lambda>(major, minor).
     rbind (check_version sp major minor) (\<lambda>_.
     rbind (validate_required_exports sp ex) (\<lambda>_.
     (let eval_ok = (has_export ex ''opa_eval'' \<and> requires_eval_fast_path sp minor) in
      if \<not> eval_ok then Inl (new_exc OpaAbiError ''policy ABI does not expose the opa_eval fast path'')
      else rbind (validate_signatures ex EXPECTED_SIGNATURES) (\<lambda>_.
        Inr \<lparr>ab_wasm = w, ab_host = host, ab_exports = ex, ab_version = (major, minor),
             supports_opa_eval = eval_ok,
             supports_eval_context = list_all (has_export ex) EVAL_CTX_EXPORTS,
             supports_heap_stash = list_all (has_export ex) HEAP_STASH_EXPORTS,
             supports_value_free = has_export ex ''opa_value_free''\<rparr>)))))"

section \<open>Wrappers\<close>

definition memory_write :: "'s abi \<Rightarrow> int \<Rightarrow> bytes \<Rightarrow> ('s, exc, unit) act" where
  "memory_write ab addr data = wt_memory_write (ab_wasm ab) data addr"

definition memory_read :: "'s abi \<Rightarrow> int \<Rightarrow> int \<Rightarrow> ('s, exc, bytes) act" where
  "memory_read ab start stop = wt_memory_read (ab_wasm ab) start stop"

definition memory_len :: "'s abi \<Rightarrow> ('s, exc, int) act" where
  "memory_len ab = reading (wt_data_len (ab_wasm ab))"

definition set_epoch_deadline :: "'s abi \<Rightarrow> int \<Rightarrow> ('s, exc, unit) act" where
  "set_epoch_deadline ab ticks = rt_set_epoch_deadline (ab_wasm ab) ticks"

definition clear_epoch_deadline :: "'s abi \<Rightarrow> ('s, exc, unit) act" where
  "clear_epoch_deadline ab = rt_clear_epoch_deadline (ab_wasm ab)"

text \<open>A call whose result is not used, and \<open>_call\<close>: \<open>int(None)\<close> raises.\<close>

definition call_void :: "'s abi \<Rightarrow> string \<Rightarrow> int list \<Rightarrow> ('s, exc, int option) act" where
  "call_void ab name args = bnd (of_result (get_func (ab_exports ab) name))
     (\<lambda>_. wt_call (ab_wasm ab) (ab_host ab) name args)"

definition abi_call :: "'s abi \<Rightarrow> string \<Rightarrow> int list \<Rightarrow> ('s, exc, int) act" where
  "abi_call ab name args = bnd (call_void ab name args) (\<lambda>r. case r of
       None \<Rightarrow> raise (new_exc TypeError ''int() argument must not be NoneType'')
     | Some v \<Rightarrow> ret v)"

definition opa_malloc :: "'s abi \<Rightarrow> int \<Rightarrow> ('s, exc, int) act" where
  "opa_malloc ab size' = abi_call ab ''opa_malloc'' [size']"

definition opa_free :: "'s abi \<Rightarrow> int \<Rightarrow> ('s, exc, unit) act" where
  "opa_free ab addr = bnd (call_void ab ''opa_free'' [addr]) (\<lambda>_. ret ())"

definition opa_json_parse :: "'s abi \<Rightarrow> int \<Rightarrow> int \<Rightarrow> ('s, exc, int) act" where
  "opa_json_parse ab addr len = abi_call ab ''opa_json_parse'' [addr, len]"

definition opa_json_dump :: "'s abi \<Rightarrow> int \<Rightarrow> ('s, exc, int) act" where
  "opa_json_dump ab value_addr = abi_call ab ''opa_json_dump'' [value_addr]"

definition opa_heap_ptr_get :: "'s abi \<Rightarrow> ('s, exc, int) act" where
  "opa_heap_ptr_get ab = abi_call ab ''opa_heap_ptr_get'' []"

definition opa_heap_ptr_set :: "'s abi \<Rightarrow> int \<Rightarrow> ('s, exc, unit) act" where
  "opa_heap_ptr_set ab addr = bnd (call_void ab ''opa_heap_ptr_set'' [addr]) (\<lambda>_. ret ())"

definition abi_entrypoints :: "'s abi \<Rightarrow> ('s, exc, int) act" where
  "abi_entrypoints ab = abi_call ab ''entrypoints'' []"

definition abi_builtins :: "'s abi \<Rightarrow> ('s, exc, int) act" where
  "abi_builtins ab = abi_call ab ''builtins'' []"

text \<open>\<open>opa_eval(reserved, entrypoint, data, input, input_len, heap_ptr, format)\<close>\<close>

definition opa_eval :: "'s abi \<Rightarrow> int \<Rightarrow> int \<Rightarrow> int \<Rightarrow> int \<Rightarrow> int \<Rightarrow> ('s, exc, int) act" where
  "opa_eval ab entrypoint_id data_addr input_addr input_len heap_ptr =
     abi_call ab ''opa_eval'' [0, entrypoint_id, data_addr, input_addr, input_len, heap_ptr, 0]"

section \<open>What the constructor accepts\<close>

text \<open>Declaratively: an integer ABI version 1.2 or later, and every export the SDK calls with its type.\<close>

definition abi_accepts :: "'s wasm \<Rightarrow> (string \<Rightarrow> extern option) \<Rightarrow> 's \<Rightarrow> bool" where
  "abi_accepts w ex s \<longleftrightarrow>
     ex ''opa_wasm_abi_version'' = Some Global \<and> wt_global_value w ''opa_wasm_abi_version'' s = GInt 1
   \<and> ex ''opa_wasm_abi_minor_version'' = Some Global
   \<and> (\<exists>minor \<ge> 2. wt_global_value w ''opa_wasm_abi_minor_version'' s = GInt minor)
   \<and> (\<forall>(name, ps, rs) \<in> set EXPECTED_SIGNATURES. ex name = Some (Func ps rs))"

lemma validate_signatures_Inr:
  "validate_signatures ex sigs = Inr () \<longleftrightarrow>
     (\<forall>(name, ps, rs) \<in> set sigs. ex name = None \<or> ex name = Some (Func ps rs))"
  by (induction ex sigs rule: validate_signatures.induct)
    (auto simp: has_export_def rbind_eq_Inr get_func_Inr)

lemma validate_signatures_error:
  "validate_signatures ex sigs = Inl e \<Longrightarrow> exc_class_of e \<in> {OpaAbiError, OpaInvalidPolicyError}"
  by (induction ex sigs rule: validate_signatures.induct)
    (auto simp: rbind_eq_Inl get_func_error split: if_splits dest: get_func_error)

lemma read_version_Inr:
  "read_version w ex s = Inr (major, minor) \<longleftrightarrow>
     ex ''opa_wasm_abi_version'' = Some Global \<and> wt_global_value w ''opa_wasm_abi_version'' s = GInt major
   \<and> (if ex ''opa_wasm_abi_minor_version'' = Some Global
      then wt_global_value w ''opa_wasm_abi_minor_version'' s = GInt minor else minor = 0)"
  by (auto simp: read_version_def Let_def split: gval.splits)

lemma read_version_error: "read_version w ex s = Inl e \<Longrightarrow> exc_class_of e = OpaAbiError"
  by (auto simp: read_version_def Let_def split: gval.splits if_splits)

lemma expected_exports:
  "(\<forall>name \<in> set REQUIRED_EXPORTS. has_export ex name) \<and> has_export ex ''opa_eval''
   \<longleftrightarrow> (\<forall>(name, ps, rs) \<in> set EXPECTED_SIGNATURES. has_export ex name)"
  by (simp add: REQUIRED_EXPORTS_def EXPECTED_SIGNATURES_def conj_assoc)

lemma abi_init_Inr_iff:
  "(\<exists>ab. abi_init w host ex default_spec s = Inr ab) \<longleftrightarrow> abi_accepts w ex s"
proof -
  have "(\<forall>(name, ps, rs) \<in> set EXPECTED_SIGNATURES. ex name = Some (Func ps rs)) \<longleftrightarrow>
      ((\<forall>name \<in> set REQUIRED_EXPORTS. has_export ex name) \<and> has_export ex ''opa_eval'')
      \<and> validate_signatures ex EXPECTED_SIGNATURES = Inr ()"
    unfolding expected_exports validate_signatures_Inr unfolding has_export_def by fastforce
  then show ?thesis
    unfolding abi_accepts_def abi_init_def
    by (auto simp: rbind_eq_Inr read_version_Inr check_version_def validate_required_exports_def
        default_spec_def requires_eval_fast_path_def Let_def filter_empty_conv split: if_splits)
qed

lemma abi_init_error:
  "abi_init w host ex sp s = Inl e \<Longrightarrow> exc_class_of e \<in> {OpaAbiError, OpaInvalidPolicyError}"
  unfolding abi_init_def check_version_def validate_required_exports_def
  by (auto simp: rbind_eq_Inl Let_def split: if_splits
      dest: read_version_error validate_signatures_error)

end
