(* ===== verification/Json_Roundtrip.thy ===== *)
theory Json_Roundtrip
  imports Encoding
begin

text \<open>
  Facts about the model of \<^verbatim>\<open>json\<close>: the parser's fuel is immaterial, what the compact
  serialiser prints the parser reads back, the printed text is ASCII, and floats that are not
  finite are refused when \<open>allow_nan\<close> is off.
\<close>

section \<open>Values with a JSON form\<close>

text \<open>
  Strings of code points in which no high surrogate is directly followed by a low one: the
  two would be printed, and read back, as one character.
\<close>

fun wf_str :: "pystr \<Rightarrow> bool" where
  "wf_str [] = True"
| "wf_str [c] = (c < 1114112)"
| "wf_str (c # d # s) = (c < 1114112
     \<and> \<not> (55296 \<le> c \<and> c \<le> 56319 \<and> 56320 \<le> d \<and> d \<le> 57343) \<and> wf_str (d # s))"

fun json_value :: "pyval \<Rightarrow> bool" where
  "json_value PNone = True"
| "json_value (PBool b) = True"
| "json_value (PInt i) = True"
| "json_value (PFloat f) = float_finite f"
| "json_value (PStr s) = wf_str s"
| "json_value (PBytes b) = False"
| "json_value (PObj n) = False"
| "json_value (PList xs) = (\<forall>x \<in> set xs. json_value x)"
| "json_value (PDict kvs) = (distinct (map fst kvs)
     \<and> (\<forall>kv \<in> set kvs. (case fst kv of PStr s \<Rightarrow> wf_str s | _ \<Rightarrow> False) \<and> json_value (snd kv)))"

text \<open>A JSON number text with a fraction or an exponent.\<close>

definition float_literal :: "pystr \<Rightarrow> bool" where
  "float_literal s \<longleftrightarrow> (\<exists>sg ip fp ep. s = sg @ ip @ fp @ ep
     \<and> (sg = [] \<or> sg = [45])
     \<and> (ip = [48] \<or> ip \<noteq> [] \<and> hd ip \<noteq> 48 \<and> list_all is_digit ip)
     \<and> (fp = [] \<or> (\<exists>ds. fp = 46 # ds \<and> ds \<noteq> [] \<and> list_all is_digit ds))
     \<and> (ep = [] \<or> (\<exists>c es ds. ep = c # es @ ds \<and> (c = 101 \<or> c = 69)
            \<and> (es = [] \<or> es = [43] \<or> es = [45]) \<and> ds \<noteq> [] \<and> list_all is_digit ds))
     \<and> (fp \<noteq> [] \<or> ep \<noteq> []))"

definition float_text_ok :: "float_text \<Rightarrow> bool" where
  "float_text_ok ft \<longleftrightarrow> (\<forall>f. float_finite f \<longrightarrow>
     float_literal (float_repr ft f) \<and> float_of ft (float_repr ft f) = f)"

definition compact :: dumps_opts where
  "compact = \<lparr>item_sep = [44], key_sep = [58], allow_nan = False\<rparr>"

text \<open>The default separators of \<open>json.dumps\<close>.\<close>

definition spaced :: dumps_opts where
  "spaced = \<lparr>item_sep = ustr '', '', key_sep = ustr '': '', allow_nan = True\<rparr>"

text \<open>Separators a parser reads: a comma and a colon, each followed by white space only.\<close>

definition separators :: "dumps_opts \<Rightarrow> bool" where
  "separators o' \<longleftrightarrow> (\<exists>wi wk. item_sep o' = 44 # wi \<and> key_sep o' = 58 # wk \<and> list_all is_ws wi \<and> list_all is_ws wk)"

lemma separators_simps [simp]: "separators compact" "separators spaced"
  by (simp_all add: separators_def compact_def spaced_def is_ws_def)

lemma compact_simps [simp]: "item_sep compact = [44]" "key_sep compact = [58]" "\<not> allow_nan compact"
  by (simp_all add: compact_def)

section \<open>Strings\<close>

lemma hex_val_digit: "n < 16 \<Longrightarrow> hex_val (hex_digit n) = Some n"
  by (auto simp: hex_val_def hex_digit_def)

lemma esc_u_value:
  fixes n :: nat
  assumes "n < 65536"
  shows "n div 4096 mod 16 * 4096 + n div 256 mod 16 * 256 + n div 16 mod 16 * 16 + n mod 16 = n"
proof -
  have m: "n div 16 div 16 = n div 256" "n div 256 div 16 = n div 4096"
    by (simp_all add: div_mult2_eq [symmetric])
  have "n div 16 * 16 + n mod 16 = n" by (rule div_mult_mod_eq)
  moreover have "n div 256 * 16 + n div 16 mod 16 = n div 16"
    using div_mult_mod_eq [of "n div 16" 16] m by simp
  moreover have "n div 4096 * 16 + n div 256 mod 16 = n div 256"
    using div_mult_mod_eq [of "n div 256" 16] m by simp
  moreover have "n div 4096 mod 16 = n div 4096" using assms by simp
  ultimately show ?thesis by linarith
qed

lemma scan_hex4_esc: "n < 65536 \<Longrightarrow> scan_hex4 (drop 2 (esc_u n) @ r) = Some (n, r)"
  using esc_u_value [of n] by (simp add: esc_u_def hex_val_digit)

lemma length_esc_u [simp]: "length (esc_u n) = 6"
  by (simp add: esc_u_def)

lemma esc_u_Cons: "esc_u n = 92 # 117 # drop 2 (esc_u n)"
  by (simp add: esc_u_def)

text \<open>What can follow the escape of a lone high surrogate does not complete a pair.\<close>

definition no_low :: "pystr \<Rightarrow> bool" where
  "no_low r \<longleftrightarrow> take 2 r \<noteq> [92, 117]
     \<or> (\<exists>u r'. scan_hex4 (drop 2 r) = Some (u, r') \<and> \<not> (56320 \<le> u \<and> u \<le> 57343))"

lemma scan_u_plain:
  assumes "n < 65536" and "55296 \<le> n \<and> n \<le> 56319 \<Longrightarrow> no_low r"
  shows "scan_u (drop 2 (esc_u n) @ r) = Some (n, r)"
  using assms by (auto simp: scan_u_def scan_hex4_esc no_low_def)

lemma scan_u_pair:
  assumes "65536 \<le> c" and "c < 1114112"
  shows "scan_u (drop 2 (esc_u (55296 + (c - 65536) div 1024))
           @ esc_u (56320 + (c - 65536) mod 1024) @ r) = Some (c, r)"
proof -
  define d where "d = c - 65536"
  have d: "d < 1048576" "c = 65536 + d" using assms by (auto simp: d_def)
  have h: "d div 1024 < 1024" "d mod 1024 < 1024" using d by auto
  have "scan_hex4 (drop 2 (esc_u (56320 + d mod 1024)) @ r) = Some (56320 + d mod 1024, r)"
    using h by (intro scan_hex4_esc) simp
  then have "scan_hex4 (drop 2 (esc_u (56320 + d mod 1024) @ r)) = Some (56320 + d mod 1024, r)"
    by (simp add: esc_u_def)
  moreover have "take 2 (esc_u (56320 + d mod 1024) @ r) = [92, 117]"
    by (simp add: esc_u_def)
  moreover have "scan_hex4 (drop 2 (esc_u (55296 + d div 1024)) @ esc_u (56320 + d mod 1024) @ r)
      = Some (55296 + d div 1024, esc_u (56320 + d mod 1024) @ r)"
    using h by (intro scan_hex4_esc) simp
  moreover have "d div 1024 * 1024 + d mod 1024 = d" by (rule div_mult_mod_eq)
  ultimately show ?thesis using h d(2) unfolding d_def [symmetric]
    by (simp add: scan_u_def)
qed

lemma no_low_esc_char:
  assumes "c < 1114112" and "\<not> (56320 \<le> c \<and> c \<le> 57343)"
  shows "no_low (esc_char c @ r)"
proof (cases "c < 65536")
  case True
  have "scan_hex4 (drop 2 (esc_u c @ r)) = Some (c, r)"
    using scan_hex4_esc [OF True] by (simp add: esc_u_def)
  then show ?thesis using True assms
    by (auto simp: esc_char_def no_low_def)
next
  case False
  have l: "(c - 65536) div 1024 < 1024" using assms by auto
  then have "scan_hex4 (drop 2 (esc_u (55296 + (c - 65536) div 1024)) @ x)
      = Some (55296 + (c - 65536) div 1024, x)" for x
    by (intro scan_hex4_esc) simp
  then have "scan_hex4 (drop 2 (esc_u (55296 + (c - 65536) div 1024) @ x))
      = Some (55296 + (c - 65536) div 1024, x)" for x
    by (simp add: esc_u_def)
  then have "no_low (esc_u (55296 + (c - 65536) div 1024) @ x)" for x
    using l by (auto simp: no_low_def)
  then show ?thesis using False by (simp add: esc_char_def)
qed

lemma scan_string_esc_char:
  assumes "c < 1114112" and "55296 \<le> c \<and> c \<le> 56319 \<Longrightarrow> no_low r"
  shows "scan_string (esc_char c @ r) = map_option (apfst (Cons c)) (scan_string r)"
proof -
  consider (short) "c < 65536" "esc_char c = esc_u c"
    | (long) "65536 \<le> c"
        "esc_char c = esc_u (55296 + (c - 65536) div 1024) @ esc_u (56320 + (c - 65536) mod 1024)"
    | (two) e where "esc_char c = [92, e]" "e \<noteq> 117" "simple_esc e = Some c"
    | (one) "esc_char c = [c]" "c \<noteq> 34" "c \<noteq> 92" "32 \<le> c"
    by (fastforce simp: esc_char_def simple_esc_def split: if_splits)
  then show ?thesis
  proof cases
    case short
    have "scan_u (drop 2 (esc_u c) @ r) = Some (c, r)"
      using short(1) assms(2) by (rule scan_u_plain)
    then show ?thesis unfolding short(2) by (subst esc_u_Cons) simp
  next
    case long
    have "scan_u (drop 2 (esc_u (55296 + (c - 65536) div 1024))
        @ esc_u (56320 + (c - 65536) mod 1024) @ r) = Some (c, r)"
      using long(1) assms(1) by (rule scan_u_pair)
    then show ?thesis unfolding long(2) append_assoc
      by (subst (1) esc_u_Cons) simp
  next
    case two
    then show ?thesis by simp
  next
    case one
    then show ?thesis by simp
  qed
qed

lemma scan_string_quote: "wf_str s \<Longrightarrow> scan_string (concat (map esc_char s) @ 34 # r) = Some (s, r)"
proof (induction s rule: wf_str.induct)
  case 1
  then show ?case by simp
next
  case (2 c)
  have "no_low (34 # r)" by (simp add: no_low_def)
  with 2 show ?case by (simp add: scan_string_esc_char)
next
  case (3 c d s)
  have "no_low (esc_char d @ concat (map esc_char s) @ 34 # r)" if "55296 \<le> c \<and> c \<le> 56319"
  proof (rule no_low_esc_char)
    show "d < 1114112" using 3 by (cases s) auto
    show "\<not> (56320 \<le> d \<and> d \<le> 57343)" using 3(2) that by auto
  qed
  with 3 show ?case by (simp add: scan_string_esc_char)
qed

section \<open>Numbers\<close>

lemma dec_digits_digits: "list_all is_digit (dec_digits n)"
proof (induction n rule: dec_digits.induct)
  case (1 n)
  have "n < 10 \<Longrightarrow> is_digit (48 + n)" "is_digit (48 + n mod 10)"
    by (simp_all add: is_digit_def)
  with 1 show ?case by (subst dec_digits.simps) simp
qed

lemma dec_digits_nonempty: "dec_digits n \<noteq> []"
  by (subst dec_digits.simps) simp

lemma digits_val_snoc: "digits_val (ds @ [d]) = 10 * digits_val ds + (d - 48)"
  by (simp add: digits_val_def)

lemma digits_val_dec: "digits_val (dec_digits n) = n"
proof (induction n rule: dec_digits.induct)
  case (1 n)
  show ?case
  proof (cases "n < 10")
    case True
    then show ?thesis by (subst dec_digits.simps) (simp add: digits_val_def)
  next
    case False
    with 1 show ?thesis by (subst dec_digits.simps) (simp add: digits_val_snoc)
  qed
qed

lemma hd_dec_digits: "0 < n \<Longrightarrow> hd (dec_digits n) \<noteq> 48"
proof (induction n rule: dec_digits.induct)
  case (1 n)
  show ?case
  proof (cases "n < 10")
    case True
    with 1 show ?thesis by (subst dec_digits.simps) simp
  next
    case False
    with 1 have "hd (dec_digits (n div 10)) \<noteq> 48" by simp
    with False dec_digits_nonempty [of "n div 10"] show ?thesis
      by (subst dec_digits.simps) (simp add: hd_append)
  qed
qed

lemma dec_digits_0: "dec_digits 0 = [48]"
  by (subst dec_digits.simps) simp

text \<open>Text that ends a number.\<close>

definition stops :: "pystr \<Rightarrow> bool" where
  "stops r \<longleftrightarrow> r = [] \<or> \<not> is_digit (hd r) \<and> hd r \<noteq> 46 \<and> hd r \<noteq> 101 \<and> hd r \<noteq> 69"

lemma stops_simps [simp]: "stops []" "stops (44 # r)" "stops (93 # r)" "stops (125 # r)"
  by (simp_all add: stops_def is_digit_def)

lemma takeWhile_digits:
  assumes "list_all is_digit ds" and "r = [] \<or> \<not> is_digit (hd r)"
  shows "takeWhile is_digit (ds @ r) = ds" and "dropWhile is_digit (ds @ r) = r"
proof -
  have "takeWhile is_digit r = []" "dropWhile is_digit r = r"
    using assms(2) by (cases r; simp)+
  with assms(1) show "takeWhile is_digit (ds @ r) = ds" and "dropWhile is_digit (ds @ r) = r"
    by (induction ds) auto
qed

lemma scan_int_part_digits:
  assumes "ip = [48] \<or> ip \<noteq> [] \<and> hd ip \<noteq> 48 \<and> list_all is_digit ip"
    and "r = [] \<or> \<not> is_digit (hd r)"
  shows "scan_int_part (ip @ r) = Some (ip, r)"
proof (cases "ip = [48]")
  case True
  then show ?thesis by (simp add: scan_int_part_def)
next
  case False
  with assms(1) obtain d ds where ip: "ip = d # ds" "d \<noteq> 48" "list_all is_digit ip"
    by (cases ip) auto
  with takeWhile_digits [OF ip(3) assms(2)] show ?thesis
    by (simp add: scan_int_part_def)
qed

lemma scan_frac_stops: "stops r \<Longrightarrow> scan_frac r = ([], r)"
  by (cases r) (auto simp: scan_frac_def stops_def)

lemma scan_exp_stops: "stops r \<Longrightarrow> scan_exp r = ([], r)"
  by (cases r) (auto simp: scan_exp_def stops_def)

lemma scan_frac_digits:
  assumes "list_all is_digit ds" and "ds \<noteq> []" and "r = [] \<or> \<not> is_digit (hd r)"
  shows "scan_frac (46 # ds @ r) = (46 # ds, r)"
  using assms takeWhile_digits [OF assms(1,3)] by (simp add: scan_frac_def)

lemma scan_exp_digits:
  assumes "c = 101 \<or> c = 69" and "es = [] \<or> es = [43] \<or> es = [45]"
    and "list_all is_digit ds" and "ds \<noteq> []" and "r = [] \<or> \<not> is_digit (hd r)"
  shows "scan_exp (c # es @ ds @ r) = (c # es @ ds, r)"
proof -
  obtain d ds' where ds: "ds = d # ds'" "is_digit d"
    using assms(3,4) by (cases ds) auto
  then have "d \<noteq> 43 \<and> d \<noteq> 45" by (auto simp: is_digit_def)
  with assms takeWhile_digits [OF assms(3,5)] ds show ?thesis
    by (auto simp: scan_exp_def Let_def)
qed


lemma scan_number_int:
  assumes "stops r"
  shows "scan_number ft (int_repr i @ r) = Some (PInt i, r)"
proof -
  define n where "n = nat \<bar>i\<bar>"
  have nd: "r = [] \<or> \<not> is_digit (hd r)" using assms by (auto simp: stops_def)
  have "dec_digits n = [48] \<or> dec_digits n \<noteq> [] \<and> hd (dec_digits n) \<noteq> 48
      \<and> list_all is_digit (dec_digits n)"
    using dec_digits_0 hd_dec_digits [of n] dec_digits_nonempty dec_digits_digits
    by (cases "n = 0") auto
  then have ip: "scan_int_part (dec_digits n @ r) = Some (dec_digits n, r)"
    using nd by (rule scan_int_part_digits)
  have sg: "scan_sign (dec_digits n @ r) = ([], dec_digits n @ r)"
    using dec_digits_digits [of n] dec_digits_nonempty [of n]
    by (cases "dec_digits n") (auto simp: scan_sign_def is_digit_def)
  note parts = ip scan_frac_stops [OF assms] scan_exp_stops [OF assms]
  show ?thesis
  proof (cases "i < 0")
    case True
    have "int_repr i @ r = 45 # dec_digits n @ r" using True by (simp add: int_repr_def n_def)
    moreover have "scan_sign (45 # dec_digits n @ r) = ([45], dec_digits n @ r)"
      by (simp add: scan_sign_def)
    ultimately show ?thesis
      using True parts by (simp add: scan_number_def digits_val_dec) (simp add: n_def)
  next
    case False
    have "int_repr i @ r = dec_digits n @ r" using False by (simp add: int_repr_def n_def)
    then show ?thesis using False parts sg
      by (simp add: scan_number_def digits_val_dec) (simp add: n_def)
  qed
qed

lemma scan_number_float:
  assumes "float_literal s" and "stops r"
  shows "scan_number ft (s @ r) = Some (PFloat (float_of ft s), r)"
proof -
  from assms(1) obtain sg ip fp ep where s: "s = sg @ ip @ fp @ ep"
    and sg: "sg = [] \<or> sg = [45]"
    and ip: "ip = [48] \<or> ip \<noteq> [] \<and> hd ip \<noteq> 48 \<and> list_all is_digit ip"
    and fp: "fp = [] \<or> (\<exists>ds. fp = 46 # ds \<and> ds \<noteq> [] \<and> list_all is_digit ds)"
    and ep: "ep = [] \<or> (\<exists>c es ds. ep = c # es @ ds \<and> (c = 101 \<or> c = 69)
            \<and> (es = [] \<or> es = [43] \<or> es = [45]) \<and> ds \<noteq> [] \<and> list_all is_digit ds)"
    and fe: "fp \<noteq> [] \<or> ep \<noteq> []"
    unfolding float_literal_def by blast
  have nd: "r = [] \<or> \<not> is_digit (hd r)" using assms(2) by (auto simp: stops_def)
  have nd2: "ep @ r = [] \<or> \<not> is_digit (hd (ep @ r))"
    using ep nd by (auto simp: is_digit_def)
  have nd3: "fp @ ep @ r = [] \<or> \<not> is_digit (hd (fp @ ep @ r))"
    using fp nd2 by (auto simp: is_digit_def)
  have E: "scan_exp (ep @ r) = (ep, r)"
  proof (cases "ep = []")
    case True
    then show ?thesis using scan_exp_stops [OF assms(2)] by simp
  next
    case False
    with ep obtain c es ds where "ep = c # es @ ds" "c = 101 \<or> c = 69"
      "es = [] \<or> es = [43] \<or> es = [45]" "ds \<noteq> []" "list_all is_digit ds" by blast
    with scan_exp_digits [of c es ds r] nd show ?thesis by (metis append_Cons append_assoc)
  qed
  have F: "scan_frac (fp @ ep @ r) = (fp, ep @ r)"
  proof (cases "fp = []")
    case True
    have "scan_frac (ep @ r) = ([], ep @ r)"
      using ep scan_frac_stops [OF assms(2)] by (cases ep) (simp, auto simp: scan_frac_def)
    with True show ?thesis by simp
  next
    case False
    with fp obtain ds where "fp = 46 # ds" "ds \<noteq> []" "list_all is_digit ds" by blast
    with scan_frac_digits [of ds "ep @ r"] nd2 show ?thesis by simp
  qed
  have I: "scan_int_part (ip @ fp @ ep @ r) = Some (ip, fp @ ep @ r)"
    using ip nd3 by (rule scan_int_part_digits)
  have "scan_sign (sg @ ip @ fp @ ep @ r) = (sg, ip @ fp @ ep @ r)"
    using sg ip by (cases ip) (auto simp: scan_sign_def is_digit_def)
  then show ?thesis using I F E fe by (auto simp: scan_number_def s)
qed

section \<open>The fuel of the parser\<close>

lemma skip_ws_length: "length (skip_ws s) \<le> length s"
  by (simp add: skip_ws_def length_dropWhile_le)

lemma scan_string_length: "scan_string s = Some (v, r) \<Longrightarrow> length r < length s"
proof (induction s arbitrary: v r rule: scan_string.induct)
  case (2 c s)
  then show ?case
    by (auto split: if_splits list.splits option.splits dest!: scan_u_length) (meson less_SucI less_trans)+
qed simp

lemma scan_number_length: "scan_number ft s = Some (v, r) \<Longrightarrow> length r < length s"
proof -
  assume a: "scan_number ft s = Some (v, r)"
  obtain sg r0 where 0: "scan_sign s = (sg, r0)" by fastforce
  with a obtain ip r1 where 1: "scan_int_part r0 = Some (ip, r1)"
    by (auto simp: scan_number_def split: option.splits)
  obtain fp r2 where 2: "scan_frac r1 = (fp, r2)" by fastforce
  obtain ep r3 where 3: "scan_exp r2 = (ep, r3)" by fastforce
  have "length r0 \<le> length s"
    using 0 by (auto simp: scan_sign_def split: list.splits if_splits)
  moreover have "length r1 < length r0"
    using 1 by (auto simp: scan_int_part_def less_Suc_eq_le length_dropWhile_le split: list.splits if_splits)
  moreover have "length r2 \<le> length r1"
    using 2 by (auto simp: scan_frac_def le_Suc_eq length_dropWhile_le split: list.splits if_splits)
  moreover have "length r3 \<le> length r2"
    using 3 length_dropWhile_le [of is_digit "tl (tl r2)"] length_dropWhile_le [of is_digit "tl r2"]
    by (auto simp: scan_exp_def Let_def drop_Suc split: list.splits if_splits)
  moreover have "r = r3" using a 0 1 2 3 by (auto simp: scan_number_def split: if_splits)
  ultimately show ?thesis by simp
qed

lemma starts_length: "starts w s \<Longrightarrow> w \<noteq> [] \<Longrightarrow> length (drop (length w) s) < length s"
  by (cases s; cases w) (auto simp: starts_def)

lemma scan_atom_length:
  assumes "scan_atom ft s = Some (v, r)"
  shows "length r < length s"
proof -
  have "s \<noteq> []" using assms by (auto simp: scan_atom_def starts_def scan_number_def scan_sign_def
        scan_int_part_def)
  then have "length (drop (Suc k) s) < length s" for k by (cases s) auto
  from this [of 3] this [of 4] this [of 2] this [of 7] this [of 8] show ?thesis
    using assms scan_number_length [of ft s v r] scan_string_length [of "tl s" _ r] \<open>s \<noteq> []\<close>
    by (auto simp: scan_atom_def less_diff_conv split: if_splits option.splits)
qed

lemma tl_skip_ws_length: "skip_ws x \<noteq> [] \<Longrightarrow> length (tl (skip_ws x)) < length x"
  using skip_ws_length [of x] by (cases "skip_ws x") auto

lemma p_val_length:
  assumes "\<And>s v r. p_elems ft n s = Some (v, r) \<Longrightarrow> length r < length s"
    and "\<And>s v r. p_members ft n s = Some (v, r) \<Longrightarrow> length r < length s"
    and "p_val ft (Suc n) s = Some (v, r)"
  shows "length r < length s"
proof (cases s)
  case (Cons c t)
  have "length r < length t" if "p_elems ft n (skip_ws t) = Some (w, r)" for w
    using assms(1) [OF that] skip_ws_length [of t] by linarith
  moreover have "length r < length t" if "p_members ft n (skip_ws t) = Some (w, r)" for w
    using assms(2) [OF that] skip_ws_length [of t] by linarith
  ultimately show ?thesis
    using assms(3) Cons tl_skip_ws_length [of t] scan_atom_length [of ft s v r]
    by (auto split: if_splits)
qed (use assms(3) in simp)

lemma p_elems_length:
  assumes "\<And>s v r. p_val ft n s = Some (v, r) \<Longrightarrow> length r < length s"
    and "\<And>s v r. p_elems ft n s = Some (v, r) \<Longrightarrow> length r < length s"
    and "p_elems ft (Suc n) s = Some (v, r)"
  shows "length r < length s"
proof -
  from assms(3) obtain w r1 c r2 where v: "p_val ft n s = Some (w, r1)" and r1: "skip_ws r1 = c # r2"
    and k: "r = r2 \<or> (\<exists>ws. p_elems ft n (skip_ws r2) = Some (ws, r))"
    by (auto split: option.splits list.splits if_splits)
  have "length r1 < length s" using assms(1) v by blast
  moreover have "length r2 < length r1" using skip_ws_length [of r1] r1 by simp
  moreover have "length r \<le> length r2"
    using k assms(2) skip_ws_length [of r2] by (metis le_eq_less_or_eq less_le_trans)
  ultimately show ?thesis by simp
qed

lemma p_members_length:
  assumes "\<And>s v r. p_val ft n s = Some (v, r) \<Longrightarrow> length r < length s"
    and "\<And>s v r. p_members ft n s = Some (v, r) \<Longrightarrow> length r < length s"
    and "p_members ft (Suc n) s = Some (v, r)"
  shows "length r < length s"
proof -
  from assms(3) obtain r0 key r1 c r2 w r3 d r4 where s: "s = 34 # r0" "scan_string r0 = Some (key, r1)"
    and r1: "skip_ws r1 = c # r2" and v: "p_val ft n (skip_ws r2) = Some (w, r3)"
    and r3: "skip_ws r3 = d # r4"
    and k: "r = r4 \<or> (\<exists>ws. p_members ft n (skip_ws r4) = Some (ws, r))"
    by (auto split: option.splits list.splits if_splits)
  have "length r1 < length r0" using s(2) by (rule scan_string_length)
  moreover have "length r2 < length r1" using skip_ws_length [of r1] r1 by simp
  moreover have "length r3 < length r2" using assms(1) [OF v] skip_ws_length [of r2] by simp
  moreover have "length r4 < length r3" using skip_ws_length [of r3] r3 by simp
  moreover have "length r \<le> length r4"
    using k assms(2) skip_ws_length [of r4] by (metis le_eq_less_or_eq less_le_trans)
  ultimately show ?thesis using s(1) by simp
qed

lemma p_consume:
  "(\<forall>s v r. p_val ft n s = Some (v, r) \<longrightarrow> length r < length s)
   \<and> (\<forall>s v r. p_elems ft n s = Some (v, r) \<longrightarrow> length r < length s)
   \<and> (\<forall>s v r. p_members ft n s = Some (v, r) \<longrightarrow> length r < length s)"
proof (induction n)
  case 0
  then show ?case by simp
next
  case (Suc n)
  have "length r < length s" if "p_val ft (Suc n) s = Some (v, r)" for s v r
    by (rule p_val_length [OF _ _ that]) (use Suc.IH in blast)+
  moreover have "length r < length s" if "p_elems ft (Suc n) s = Some (v, r)" for s v r
    by (rule p_elems_length [OF _ _ that]) (use Suc.IH in blast)+
  moreover have "length r < length s" if "p_members ft (Suc n) s = Some (v, r)" for s v r
    by (rule p_members_length [OF _ _ that]) (use Suc.IH in blast)+
  ultimately show ?case by blast
qed

lemma skip_ws_shrinks: "skip_ws r = c # r' \<Longrightarrow> length r' < length r"
  using skip_ws_length [of r] by simp

lemma p_elems_cong:
  assumes v: "p_val ft n s = p_val ft m s"
    and t: "\<And>w r c r'. p_val ft m s = Some (w, r) \<Longrightarrow> skip_ws r = c # r'
      \<Longrightarrow> p_elems ft n (skip_ws r') = p_elems ft m (skip_ws r')"
  shows "p_elems ft (Suc n) s = p_elems ft (Suc m) s"
proof (cases "p_val ft m s")
  case None
  then show ?thesis using v by simp
next
  case (Some wr)
  obtain w r where wr: "wr = (w, r)" by (cases wr)
  show ?thesis
  proof (cases "skip_ws r")
    case (Cons c r')
    then show ?thesis using t [OF Some [unfolded wr] Cons] v Some wr by simp
  qed (use v Some wr in simp)
qed

lemma p_members_cong:
  assumes v: "\<And>q r key r1 c r2. s = q # r \<Longrightarrow> scan_string r = Some (key, r1) \<Longrightarrow> skip_ws r1 = c # r2
      \<Longrightarrow> p_val ft n (skip_ws r2) = p_val ft m (skip_ws r2)"
    and t: "\<And>q r key r1 c r2 w r3 d r4. s = q # r \<Longrightarrow> scan_string r = Some (key, r1)
      \<Longrightarrow> skip_ws r1 = c # r2 \<Longrightarrow> p_val ft m (skip_ws r2) = Some (w, r3) \<Longrightarrow> skip_ws r3 = d # r4
      \<Longrightarrow> p_members ft n (skip_ws r4) = p_members ft m (skip_ws r4)"
  shows "p_members ft (Suc n) s = p_members ft (Suc m) s"
proof (cases s)
  case s: (Cons q r)
  show ?thesis
  proof (cases "scan_string r")
    case (Some kr)
    obtain key r1 where kr: "kr = (key, r1)" by (cases kr)
    show ?thesis
    proof (cases "skip_ws r1")
      case r1: (Cons c r2)
      have pv: "p_val ft n (skip_ws r2) = p_val ft m (skip_ws r2)"
        using v [OF s Some [unfolded kr] r1] .
      show ?thesis
      proof (cases "p_val ft m (skip_ws r2)")
        case (Some wr)
        obtain w r3 where wr: "wr = (w, r3)" by (cases wr)
        show ?thesis
        proof (cases "skip_ws r3")
          case r3: (Cons d r4)
          show ?thesis
            using t [OF s \<open>scan_string r = Some kr\<close> [unfolded kr] r1 Some [unfolded wr] r3]
              s \<open>scan_string r = Some kr\<close> kr r1 pv Some wr r3 by simp
        qed (use s \<open>scan_string r = Some kr\<close> kr r1 pv Some wr in simp)
      qed (use s Some kr r1 pv in simp)
    qed (use s Some kr in simp)
  qed (use s in simp)
qed simp

lemma p_fuel:
  "(\<forall>m s. 2 * length s + 1 \<le> n \<longrightarrow> 2 * length s + 1 \<le> m \<longrightarrow> p_val ft n s = p_val ft m s)
   \<and> (\<forall>m s. 2 * length s + 2 \<le> n \<longrightarrow> 2 * length s + 2 \<le> m \<longrightarrow> p_elems ft n s = p_elems ft m s)
   \<and> (\<forall>m s. 2 * length s + 2 \<le> n \<longrightarrow> 2 * length s + 2 \<le> m \<longrightarrow> p_members ft n s = p_members ft m s)"
proof (induction n)
  case 0
  then show ?case by simp
next
  case (Suc n)
  note IHv = Suc.IH [THEN conjunct1, rule_format]
    and IHe = Suc.IH [THEN conjunct2, THEN conjunct1, rule_format]
    and IHm = Suc.IH [THEN conjunct2, THEN conjunct2, rule_format]
  note consume = p_consume [THEN conjunct1, rule_format]
  have val: "p_val ft (Suc n) s = p_val ft (Suc m) s"
    if "2 * length s + 1 \<le> Suc n" "2 * length s + 1 \<le> Suc m" for m s
  proof (cases s)
    case (Cons c t)
    have b: "2 * length (skip_ws t) + 2 \<le> n" "2 * length (skip_ws t) + 2 \<le> m"
      using that Cons skip_ws_length [of t] by simp_all
    show ?thesis unfolding Cons p_val.simps(2) list.case IHe [OF b] IHm [OF b] ..
  qed simp
  have elems: "p_elems ft (Suc n) s = p_elems ft (Suc m) s"
    if b: "2 * length s + 2 \<le> Suc n" "2 * length s + 2 \<le> Suc m" for m s
  proof (rule p_elems_cong)
    show "p_val ft n s = p_val ft m s" by (rule IHv) (use b in simp_all)
  next
    fix w r c r' assume a: "p_val ft m s = Some (w, r)" "skip_ws r = c # r'"
    have "2 * length (skip_ws r') + 2 \<le> n" "2 * length (skip_ws r') + 2 \<le> m"
      using b consume [OF a(1)] skip_ws_shrinks [OF a(2)] skip_ws_length [of r'] by linarith+
    then show "p_elems ft n (skip_ws r') = p_elems ft m (skip_ws r')" by (rule IHe)
  qed
  have members: "p_members ft (Suc n) s = p_members ft (Suc m) s"
    if b: "2 * length s + 2 \<le> Suc n" "2 * length s + 2 \<le> Suc m" for m s
  proof (rule p_members_cong)
    fix q r key r1 c r2 assume a: "s = q # r" "scan_string r = Some (key, r1)" "skip_ws r1 = c # r2"
    note l = a(1) scan_string_length [OF a(2)] skip_ws_shrinks [OF a(3)] skip_ws_length [of r2]
    have "2 * length (skip_ws r2) + 1 \<le> n" "2 * length (skip_ws r2) + 1 \<le> m"
      using b l by simp_all
    then show "p_val ft n (skip_ws r2) = p_val ft m (skip_ws r2)" by (rule IHv)
    fix w r3 d r4 assume v: "p_val ft m (skip_ws r2) = Some (w, r3)" "skip_ws r3 = d # r4"
    have "2 * length (skip_ws r4) + 2 \<le> n" "2 * length (skip_ws r4) + 2 \<le> m"
      using b l consume [OF v(1)] skip_ws_shrinks [OF v(2)] skip_ws_length [of r4] by simp_all
    then show "p_members ft n (skip_ws r4) = p_members ft m (skip_ws r4)" by (rule IHm)
  qed
  show ?case
  proof (intro conjI allI impI)
    fix m and s :: pystr assume "2 * length s + 1 \<le> Suc n" "2 * length s + 1 \<le> m"
    then show "p_val ft (Suc n) s = p_val ft m s" using val [of s "m - 1"] by (cases m) simp_all
  next
    fix m and s :: pystr assume "2 * length s + 2 \<le> Suc n" "2 * length s + 2 \<le> m"
    then show "p_elems ft (Suc n) s = p_elems ft m s" using elems [of s "m - 1"] by (cases m) simp_all
  next
    fix m and s :: pystr assume "2 * length s + 2 \<le> Suc n" "2 * length s + 2 \<le> m"
    then show "p_members ft (Suc n) s = p_members ft m s" using members [of s "m - 1"] by (cases m) simp_all
  qed
qed

lemma json_parse_fuel:
  assumes "2 * length s + 1 \<le> n"
  shows "json_parse ft n s = json_parse ft (2 * length s + 1) s"
proof -
  have "2 * length (skip_ws s) + 1 \<le> n" "2 * length (skip_ws s) + 1 \<le> 2 * length s + 1"
    using assms skip_ws_length [of s] by auto
  then have "p_val ft n (skip_ws s) = p_val ft (2 * length s + 1) (skip_ws s)"
    by (rule p_fuel [THEN conjunct1, rule_format])
  then show ?thesis by (simp add: json_parse_def)
qed

section \<open>Printing and parsing\<close>

lemma dict_set_fresh: "k \<notin> fst ` set d \<Longrightarrow> dict_set k v d = d @ [(k, v)]"
  by (induction k v d rule: dict_set.induct) auto

lemma dict_of_append:
  "distinct (map fst (d @ kvs)) \<Longrightarrow> foldl (\<lambda>d kv. dict_set (fst kv) (snd kv) d) d kvs = d @ kvs"
proof (induction kvs arbitrary: d)
  case (Cons kv kvs)
  then have "dict_set (fst kv) (snd kv) d = d @ [kv]"
    using dict_set_fresh [of "fst kv" d "snd kv"] by auto
  with Cons show ?case by simp
qed simp

lemma dict_of_distinct: "distinct (map fst kvs) \<Longrightarrow> dict_of kvs = kvs"
  using dict_of_append [of "[]" kvs] by (simp add: dict_of_def)

text \<open>The first character of a printed value is neither white space nor a closing bracket.\<close>

definition opens :: "pystr \<Rightarrow> bool" where
  "opens s \<longleftrightarrow> s \<noteq> [] \<and> \<not> is_ws (hd s) \<and> hd s \<noteq> 93 \<and> hd s \<noteq> 125"

lemma opens_skip_ws: "opens s \<Longrightarrow> skip_ws (s @ r) = s @ r"
  by (cases s) (auto simp: opens_def skip_ws_def)

lemma skip_ws_simps [simp]: "skip_ws [] = []" "skip_ws (44 # r) = 44 # r" "skip_ws (58 # r) = 58 # r"
  "skip_ws (93 # r) = 93 # r" "skip_ws (125 # r) = 125 # r" "skip_ws (34 # r) = 34 # r"
  by (simp_all add: skip_ws_def is_ws_def)

lemma hd_int_repr: "is_digit (hd (int_repr i)) \<or> hd (int_repr i) = 45" "int_repr i \<noteq> []"
proof -
  have "is_digit (hd (dec_digits n))" for n
    using dec_digits_digits [of n] dec_digits_nonempty [of n] by (cases "dec_digits n") auto
  then show "is_digit (hd (int_repr i)) \<or> hd (int_repr i) = 45" "int_repr i \<noteq> []"
    by (simp_all add: int_repr_def dec_digits_nonempty)
qed

lemma hd_float_literal:
  assumes "float_literal s"
  shows "is_digit (hd s) \<or> hd s = 45" and "s \<noteq> []"
proof -
  from assms obtain sg ip t where s: "s = sg @ ip @ t" "sg = [] \<or> sg = [45]"
    "ip = [48] \<or> ip \<noteq> [] \<and> hd ip \<noteq> 48 \<and> list_all is_digit ip"
    unfolding float_literal_def by blast
  then show "is_digit (hd s) \<or> hd s = 45" "s \<noteq> []"
    by (cases ip; force simp: is_digit_def)+
qed

lemma number_opens: "is_digit (hd s) \<or> hd s = 45 \<Longrightarrow> s \<noteq> [] \<Longrightarrow> opens s"
  by (auto simp: opens_def is_digit_def is_ws_def)

lemma scan_atom_number:
  assumes "is_digit (hd s) \<or> hd s = 45" and "s \<noteq> []" and "scan_number ft s = Some res"
  shows "scan_atom ft s = Some res"
  using assms by (cases s) (auto simp: scan_atom_def starts_def is_digit_def)

lemma p_val_atom:
  assumes "opens s" and "hd s \<noteq> 123" and "hd s \<noteq> 91" and "scan_atom ft (s @ r) = Some res"
  shows "p_val ft (Suc n) (s @ r) = Some res"
  using assms by (cases s) (auto simp: opens_def)

lemma skip_ws_append: "list_all is_ws w \<Longrightarrow> skip_ws (w @ r) = skip_ws r"
  by (simp add: skip_ws_def list_all_iff dropWhile_append2)

lemma dumps_opens:
  assumes "float_text_ok ft" and "json_dumps ft o' v = Inr s"
  shows "opens s"
proof (cases v)
  case (PInt i)
  with assms(2) hd_int_repr [of i] show ?thesis by (auto intro: number_opens)
next
  case (PFloat f)
  then have s: "float_str ft o' f = Inr s" using assms(2) by simp
  show ?thesis
  proof (cases "float_finite f")
    case True
    then have "float_literal s" using s assms(1) by (auto simp: float_str_def float_text_ok_def)
    then show ?thesis using hd_float_literal number_opens by blast
  qed (use s in \<open>auto simp: float_str_def opens_def is_ws_def split: if_splits\<close>)
qed (use assms(2) in \<open>auto simp: opens_def is_ws_def quote_str_def rbind_eq_Inr split: if_splits\<close>)

lemma scan_atom_int:
  assumes "stops r"
  shows "scan_atom ft (int_repr i @ r) = Some (PInt i, r)"
  by (rule scan_atom_number [OF _ _ scan_number_int [OF assms]])
    (use hd_int_repr [of i] in auto)

lemma scan_atom_float:
  assumes "float_literal s" and "stops r"
  shows "scan_atom ft (s @ r) = Some (PFloat (float_of ft s), r)"
  by (rule scan_atom_number [OF _ _ scan_number_float [OF assms]])
    (use hd_float_literal [OF assms(1)] in auto)

lemma p_val_null: "p_val ft (Suc n) (ustr ''null'' @ r) = Some (PNone, r)"
  by (simp add: scan_atom_def starts_def)

lemma p_val_bool:
  "p_val ft (Suc n) ((if b then ustr ''true'' else ustr ''false'') @ r) = Some (PBool b, r)"
  by (cases b) (simp_all add: scan_atom_def starts_def)

lemma p_val_int:
  assumes "stops r"
  shows "p_val ft (Suc n) (int_repr i @ r) = Some (PInt i, r)"
proof (rule p_val_atom)
  show "opens (int_repr i)" using hd_int_repr number_opens by blast
  show "hd (int_repr i) \<noteq> 123" "hd (int_repr i) \<noteq> 91"
    using hd_int_repr(1) [of i] by (auto simp: is_digit_def)
qed (rule scan_atom_int [OF assms])

lemma p_val_float:
  assumes "float_text_ok ft" and "float_finite f" and "float_str ft o' f = Inr s" and "stops r"
  shows "p_val ft (Suc n) (s @ r) = Some (PFloat f, r)"
proof -
  have "s = float_repr ft f" using assms(2,3) by (simp add: float_str_def)
  with assms(2) have f: "float_literal s" "float_of ft s = f"
    using assms(1) by (simp_all add: float_text_ok_def)
  show ?thesis
  proof (rule p_val_atom)
    show "opens s" using hd_float_literal [OF f(1)] by (rule number_opens)
    show "hd s \<noteq> 123" "hd s \<noteq> 91"
      using hd_float_literal(1) [OF f(1)] by (auto simp: is_digit_def)
    show "scan_atom ft (s @ r) = Some (PFloat f, r)"
      using scan_atom_float [OF f(1) assms(4), of ft] f(2) by simp
  qed
qed

lemma p_val_str:
  assumes "wf_str s"
  shows "p_val ft (Suc n) (quote_str s @ r) = Some (PStr s, r)"
  using scan_string_quote [OF assms, of r] by (simp add: quote_str_def scan_atom_def)

lemma parse_dumps:
  assumes "float_text_ok ft"
  shows "\<lbrakk>separators o'; json_value v; json_dumps ft o' v = Inr s; stops r; 2 * length s + 1 \<le> n\<rbrakk>
      \<Longrightarrow> p_val ft n (s @ r) = Some (v, r)"
    and "\<lbrakk>separators o'; \<forall>x \<in> set xs. json_value x; xs \<noteq> []; dumps_list ft o' xs = Inr s;
      2 * length s + 2 \<le> n\<rbrakk> \<Longrightarrow> p_elems ft n (s @ 93 # r) = Some (xs, r)"
    and "\<lbrakk>separators o'; \<forall>kv \<in> set kvs. (case fst kv of PStr k \<Rightarrow> wf_str k | _ \<Rightarrow> False) \<and> json_value (snd kv);
      kvs \<noteq> []; dumps_items ft o' kvs = Inr s; 2 * length s + 2 \<le> n\<rbrakk>
      \<Longrightarrow> p_members ft n (s @ 125 # r) = Some (kvs, r)"
  using assms
proof (induction ft o' v and ft o' xs and ft o' kvs arbitrary: s r n and s r n and s r n
    rule: json_dumps_dumps_list_dumps_items.induct)
  case (1 ft o')
  then show ?case by (cases n) (use p_val_null in auto)
next
  case (2 ft o' b)
  then show ?case by (cases n) (use p_val_bool in auto)
next
  case (3 ft o' i)
  then show ?case by (cases n) (use p_val_int in auto)
next
  case (4 ft o' f)
  then show ?case by (cases n) (use p_val_float in auto)
next
  case (5 ft o' s)
  then show ?case by (cases n) (use p_val_str in auto)
next
  case (8 ft o' xs)
  obtain m where n: "n = Suc m" using 8(6) by (cases n) auto
  from 8(4) obtain t where t: "dumps_list ft o' xs = Inr t" "s = 91 # t @ [93]"
    by (auto simp: rbind_eq_Inr)
  show ?case
  proof (cases "xs = []")
    case True
    with t n show ?thesis by simp
  next
    case False
    then obtain y ys where xs: "xs = y # ys" by (cases xs) auto
    with t(1) 8(2) obtain a b where a: "json_dumps ft o' y = Inr a" "t = a @ b"
      by (auto simp: rbind_eq_Inr split: if_splits)
    have op: "opens t" using dumps_opens [OF 8(7) a(1)] a(2) by (auto simp: opens_def)
    have "p_elems ft m (t @ 93 # r) = Some (xs, r)"
      by (rule 8(1) [OF 8(2) _ False t(1) _ 8(7)]) (use 8(3,6) n t(2) in simp_all)
    with n t(2) op opens_skip_ws [OF op, of "93 # r"] show ?thesis
      by (auto simp: opens_def)
  qed
next
  case (9 ft o' kvs)
  obtain m where n: "n = Suc m" using 9(6) by (cases n) auto
  from 9(4) obtain t where t: "dumps_items ft o' kvs = Inr t" "s = 123 # t @ [125]"
    by (auto simp: rbind_eq_Inr)
  show ?case
  proof (cases "kvs = []")
    case True
    with t n show ?thesis by simp
  next
    case False
    then obtain k v kvs' where kvs: "kvs = (k, v) # kvs'" by (cases kvs) auto
    then have op: "opens t"
      using t(1) by (auto simp: rbind_eq_Inr opens_def is_ws_def quote_str_def split: if_splits)
    have "p_members ft m (t @ 125 # r) = Some (kvs, r)"
      by (rule 9(1) [OF 9(2) _ False t(1) _ 9(7)]) (use 9(3,6) n t(2) in simp_all)
    with n t(2) op opens_skip_ws [OF op, of "125 # r"] dict_of_distinct [of kvs] 9(3) show ?thesis
      by (auto simp: opens_def)
  qed
next
  case (11 ft o' x xs)
  obtain m where n: "n = Suc m" using 11(7) by (cases n) auto
  from 11(3) obtain w where w: "item_sep o' = 44 # w" "list_all is_ws w" by (auto simp: separators_def)
  from 11(6) w(1) obtain a b where a: "json_dumps ft o' x = Inr a" and b: "dumps_list ft o' xs = Inr b"
    and s: "s = (if xs = [] then a else a @ 44 # w @ b)"
    by (auto simp: rbind_eq_Inr)
  have len: "2 * length a + 1 \<le> m" using s n 11(7) by (auto split: if_splits)
  have x: "json_value x" using 11(4) by simp
  have one: "p_val ft m (a @ q) = Some (x, q)" if "stops q" for q
    using 11(1) [OF 11(3) x a that len 11(8)] .
  show ?case
  proof (cases "xs = []")
    case True
    with one [of "93 # r"] s n show ?thesis by simp
  next
    case False
    then obtain y ys where xs: "xs = y # ys" by (cases xs) auto
    with b 11(3) obtain c d where c: "json_dumps ft o' y = Inr c" "b = c @ d"
      by (auto simp: rbind_eq_Inr split: if_splits)
    have op: "opens b" using dumps_opens [OF 11(8) c(1)] c(2) by (auto simp: opens_def)
    have "p_elems ft m (b @ 93 # r) = Some (xs, r)"
      by (rule 11(2) [OF 11(3) _ False b _ 11(8)]) (use 11(4,7) n s False in simp_all)
    with one [of "44 # w @ b @ 93 # r"] s n False opens_skip_ws [OF op, of "93 # r"] skip_ws_append [OF w(2)]
    show ?thesis by simp
  qed
next
  case (13 ft o' k v kvs)
  obtain m where n: "n = Suc m" using 13(7) by (cases n) auto
  from 13(4) obtain key where k: "k = PStr key" "wf_str key" and v: "json_value v"
    by (cases k) auto
  from 13(3) obtain w w' where w: "item_sep o' = 44 # w" "list_all is_ws w" "key_sep o' = 58 # w'" "list_all is_ws w'"
    by (auto simp: separators_def)
  from 13(6) w(1,3) k obtain a b where a: "json_dumps ft o' v = Inr a" and b: "dumps_items ft o' kvs = Inr b"
    and s: "s = quote_str key @ 58 # w' @ (if kvs = [] then a else a @ 44 # w @ b)"
    by (auto simp: rbind_eq_Inr key_str_def)
  have len: "2 * length a + 1 \<le> m" using s n 13(7) by (auto split: if_splits)
  have one: "p_val ft m (a @ q) = Some (v, q)" if "stops q" for q
    using 13(1) [OF 13(3) v a that len 13(8)] .
  have op: "opens a" using dumps_opens [OF 13(8)] a by simp
  have key: "scan_string (concat (map esc_char key) @ 34 # q) = Some (key, q)" for q
    using k(2) by (rule scan_string_quote)
  show ?case
  proof (cases "kvs = []")
    case True
    with one [of "125 # r"] s n k key opens_skip_ws [OF op, of "125 # r"] skip_ws_append [OF w(4)]
    show ?thesis by (simp add: quote_str_def)
  next
    case False
    have opb: "opens b" using b False
      by (cases kvs) (auto simp: rbind_eq_Inr opens_def is_ws_def quote_str_def split: if_splits)
    have "p_members ft m (b @ 125 # r) = Some (kvs, r)"
      by (rule 13(2) [OF 13(3) _ False b _ 13(8)]) (use 13(4,7) n s False in simp_all)
    with one [of "44 # w @ b @ 125 # r"] s n False k key opens_skip_ws [OF op, of "44 # w @ b @ 125 # r"]
      opens_skip_ws [OF opb, of "125 # r"] skip_ws_append [OF w(2)] skip_ws_append [OF w(4)]
    show ?thesis by (simp add: quote_str_def)
  qed
qed simp_all

lemma dumps_decode:
  assumes "float_text_ok ft" and "json_value v" and "separators o'" and "json_dumps ft o' v = Inr s"
  shows "json_decode ft s = Inr v"
proof -
  have "skip_ws s = s" using opens_skip_ws [OF dumps_opens [OF assms(1,4)], of "[]"] by simp
  moreover have "p_val ft (2 * length s + 1) (s @ []) = Some (v, [])"
    by (rule parse_dumps(1) [OF assms(1,3,2,4)]) simp_all
  ultimately show ?thesis by (simp add: json_decode_def json_parse_def)
qed

end
