(* ===== verification/Json_Accept.thy ===== *)
theory Json_Accept
  imports Json_Roundtrip
begin

text \<open>
  Which values \<open>json.dumps(value, separators=(",", ":"), allow_nan=False)\<close> accepts, that
  its output is plain ASCII (so that it encodes to the same bytes and is detected as UTF-8
  when it is read back), and the exception classes of the serialiser and the parser.
\<close>

section \<open>What the serialiser accepts\<close>

fun dumpable_key :: "pyval \<Rightarrow> bool" where
  "dumpable_key (PFloat f) = float_finite f"
| "dumpable_key (PBytes b) = False"
| "dumpable_key (PList xs) = False"
| "dumpable_key (PDict kvs) = False"
| "dumpable_key (PObj n) = False"
| "dumpable_key _ = True"

text \<open>No float that is not finite, no byte string, no foreign object, no unusable key.\<close>

fun dumpable :: "pyval \<Rightarrow> bool" where
  "dumpable (PFloat f) = float_finite f"
| "dumpable (PBytes b) = False"
| "dumpable (PObj n) = False"
| "dumpable (PList xs) = (\<forall>x \<in> set xs. dumpable x)"
| "dumpable (PDict kvs) = (\<forall>kv \<in> set kvs. dumpable_key (fst kv) \<and> dumpable (snd kv))"
| "dumpable _ = True"

lemma key_str_compact: "(\<exists>s. key_str ft compact k = Inr s) \<longleftrightarrow> dumpable_key k"
  by (cases k) (auto simp: key_str_def float_str_def)

lemma dumps_Inr_iff:
  shows "o' = compact \<Longrightarrow> (\<exists>s. json_dumps ft o' v = Inr s) \<longleftrightarrow> dumpable v"
    and "o' = compact \<Longrightarrow> (\<exists>s. dumps_list ft o' xs = Inr s) \<longleftrightarrow> (\<forall>x \<in> set xs. dumpable x)"
    and "o' = compact \<Longrightarrow> (\<exists>s. dumps_items ft o' kvs = Inr s)
      \<longleftrightarrow> (\<forall>kv \<in> set kvs. dumpable_key (fst kv) \<and> dumpable (snd kv))"
proof (induction ft o' v and ft o' xs and ft o' kvs
    rule: json_dumps_dumps_list_dumps_items.induct)
  case (11 ft o' x xs)
  then show ?case by (cases "json_dumps ft compact x"; cases "dumps_list ft compact xs") auto
next
  case (13 ft o' k v kvs)
  then show ?case using key_str_compact [of ft k]
    by (cases "key_str ft compact k"; cases "json_dumps ft compact v";
        cases "dumps_items ft compact kvs") auto
qed (auto simp: rbind_eq_Inr float_str_def)

lemma key_str_error: "key_str ft o' k = Inl e \<Longrightarrow> exc_class_of e \<in> {TypeError, ValueError}"
  by (cases k) (auto simp: key_str_def float_str_def split: if_splits)

lemma dumps_error:
  shows "json_dumps ft o' v = Inl e \<Longrightarrow> exc_class_of e \<in> {TypeError, ValueError}"
    and "dumps_list ft o' xs = Inl e \<Longrightarrow> exc_class_of e \<in> {TypeError, ValueError}"
    and "dumps_items ft o' kvs = Inl e \<Longrightarrow> exc_class_of e \<in> {TypeError, ValueError}"
proof (induction ft o' v and ft o' xs and ft o' kvs arbitrary: e and e and e
    rule: json_dumps_dumps_list_dumps_items.induct)
  case (13 ft o' k v kvs)
  then show ?case using key_str_error [of ft o' k e] by (auto simp: rbind_eq_Inl)
qed (auto simp: rbind_eq_Inl float_str_def split: if_splits)

lemma json_value_dumpable: "json_value v \<Longrightarrow> dumpable v"
proof (induction v rule: json_value.induct)
  case (9 kvs)
  have "dumpable_key (fst kv)" if "kv \<in> set kvs" for kv
    using 9(2) that by (cases "fst kv") auto
  with 9 show ?case by auto
qed auto

text \<open>Whatever the separators, a JSON value is printed.\<close>

lemma dumps_json_value:
  shows "json_value v \<Longrightarrow> \<exists>s. json_dumps ft o' v = Inr s"
    and "\<forall>x \<in> set xs. json_value x \<Longrightarrow> \<exists>s. dumps_list ft o' xs = Inr s"
    and "\<forall>kv \<in> set kvs. (case fst kv of PStr k \<Rightarrow> wf_str k | _ \<Rightarrow> False) \<and> json_value (snd kv) \<Longrightarrow>
      \<exists>s. dumps_items ft o' kvs = Inr s"
proof (induction ft o' v and ft o' xs and ft o' kvs
    rule: json_dumps_dumps_list_dumps_items.induct)
  case (11 ft o' x xs)
  then obtain a b where "json_dumps ft o' x = Inr a" "dumps_list ft o' xs = Inr b" by auto
  then show ?case by simp
next
  case (13 ft o' k v kvs)
  obtain key where k: "k = PStr key" using 13 by (cases k) auto
  have "json_value v" using 13 by simp
  from 13(1) [OF this] 13(2) 13(3) obtain a b where "json_dumps ft o' v = Inr a" "dumps_items ft o' kvs = Inr b" by auto
  then show ?case using k by (auto simp: key_str_def)
qed (auto simp: float_str_def rbind_eq_Inr)

section \<open>The printed text is ASCII\<close>

definition ascii :: "pystr \<Rightarrow> bool" where
  "ascii s \<longleftrightarrow> (\<forall>c \<in> set s. 32 \<le> c \<and> c \<le> 126)"

lemma ascii_simps [simp]: "ascii []" "ascii (c # s) \<longleftrightarrow> 32 \<le> c \<and> c \<le> 126 \<and> ascii s"
  "ascii (s @ t) \<longleftrightarrow> ascii s \<and> ascii t"
  by (auto simp: ascii_def)

lemma ascii_digits: "list_all is_digit ds \<Longrightarrow> ascii ds"
  by (induction ds) (auto simp: is_digit_def)

lemma ascii_esc_char: "ascii (esc_char c)"
proof -
  have "hex_digit (n mod 16) \<le> 126 \<and> 32 \<le> hex_digit (n mod 16)" for n
    using mod_less_divisor [of 16 n] by (auto simp: hex_digit_def)
  then have "ascii (esc_u n)" for n by (simp add: esc_u_def)
  then show ?thesis by (simp add: esc_char_def)
qed

lemma ascii_quote: "ascii (quote_str s)"
proof -
  have "ascii (concat (map esc_char s))" by (induction s) (simp_all add: ascii_esc_char)
  then show ?thesis by (simp add: quote_str_def)
qed

lemma ascii_float_literal: "float_literal s \<Longrightarrow> ascii s"
  unfolding float_literal_def by (auto dest!: ascii_digits)

lemma ascii_int_repr: "ascii (int_repr i)"
  by (simp add: int_repr_def ascii_digits dec_digits_digits)

definition ascii_opts :: "dumps_opts \<Rightarrow> bool" where
  "ascii_opts o' \<longleftrightarrow> ascii (item_sep o') \<and> ascii (key_sep o')"

lemma ascii_opts_simps [simp]: "ascii_opts compact" "ascii_opts spaced"
  by (simp_all add: ascii_opts_def compact_def spaced_def)

lemma dumps_ascii:
  assumes "float_text_ok ft"
  shows "ascii_opts o' \<Longrightarrow> json_dumps ft o' v = Inr s \<Longrightarrow> ascii s"
    and "ascii_opts o' \<Longrightarrow> dumps_list ft o' xs = Inr s \<Longrightarrow> ascii s"
    and "ascii_opts o' \<Longrightarrow> dumps_items ft o' kvs = Inr s \<Longrightarrow> ascii s"
  using assms
proof (induction ft o' v and ft o' xs and ft o' kvs arbitrary: s and s and s
    rule: json_dumps_dumps_list_dumps_items.induct)
  case (4 ft o' f)
  then show ?case
    by (auto simp: float_str_def float_text_ok_def ascii_float_literal split: if_splits)
next
  case (11 ft o' x xs)
  from 11(4) obtain a b where "json_dumps ft o' x = Inr a" "dumps_list ft o' xs = Inr b"
    "s = (if xs = [] then a else a @ item_sep o' @ b)" by (auto simp: rbind_eq_Inr)
  then show ?case using 11(1) [OF 11(3)] 11(2) [OF 11(3)] 11(3,5) by (auto simp: ascii_opts_def)
next
  case (13 ft o' k v kvs)
  from 13(4) obtain k' a b where "json_dumps ft o' v = Inr a" "dumps_items ft o' kvs = Inr b"
    "s = quote_str k' @ key_sep o' @ (if kvs = [] then a else a @ item_sep o' @ b)" by (auto simp: rbind_eq_Inr)
  then show ?case using 13(1) [OF 13(3)] 13(2) [OF 13(3)] 13(3,5) ascii_quote [of k'] by (auto simp: ascii_opts_def)
qed (auto simp: rbind_eq_Inr ascii_quote ascii_int_repr)

lemma ascii_utf8: "ascii s \<Longrightarrow> concat (map utf8_char s) = s"
  by (induction s) (auto simp: utf8_char_def)

lemma ascii_encode:
  assumes "ascii s"
  shows "utf8_encode s = Inr (map of_nat s)" and "map unat (map of_nat s :: bytes) = s"
proof -
  have "\<forall>c \<in> set s. \<not> is_surrogate c" using assms by (auto simp: ascii_def is_surrogate_def)
  then show "utf8_encode s = Inr (map of_nat s)" using ascii_utf8 [OF assms]
    by (auto simp: utf8_encode_def)
  show "map unat (map of_nat s :: bytes) = s"
    using map_unat_of_bytes [of s] assms by (fastforce simp: ascii_def list.map_comp)
qed

lemma ascii_detect:
  assumes "ascii s"
  shows "detect_encoding s = UTF_8"
proof -
  have n: "s ! i \<noteq> 0" if "i < length s" for i
    using assms nth_mem [OF that] unfolding ascii_def by fastforce
  have t: "take k s \<noteq> x # y" if "x = 0 \<or> 126 < x" for k x y
    using assms that by (cases s; cases k) auto
  have "s ! 0 \<noteq> 0 \<and> s ! 1 \<noteq> 0" if "2 \<le> length s"
    using that by (intro conjI n) linarith+
  then show ?thesis unfolding detect_encoding_def
    by (cases "2 \<le> length s") (auto simp: t)
qed

lemma ascii_decode: "ascii s \<Longrightarrow> decode_detected s = Inr s"
proof -
  assume a: "ascii s"
  have "utf8_decode True (concat (map utf8_char s)) = Inr s"
    using a by (intro utf8_decode_encode) (auto simp: ascii_def is_surrogate_def)
  with a show ?thesis by (simp add: decode_detected_def ascii_detect ascii_utf8)
qed

section \<open>Errors of the parser\<close>

lemma json_decode_error: "json_decode ft s = Inl e \<Longrightarrow> exc_class_of e = JSONDecodeError"
  by (auto simp: json_decode_def split: option.splits)

lemma utf8_decode_error: "utf8_decode p bs = Inl e \<Longrightarrow> exc_class_of e = UnicodeDecodeError"
  by (induction p bs rule: utf8_decode.induct)
    (auto simp: rbind_eq_Inl split: prod.splits option.splits)

lemma loads_bytes_error:
  "json_loads_bytes ft b = Inl e \<Longrightarrow> exc_class_of e \<in> {JSONDecodeError, UnicodeDecodeError}"
  by (auto simp: json_loads_bytes_def rbind_eq_Inl decode_detected_def decode16_def decode32_def
      dest: json_decode_error utf8_decode_error split: encoding.splits option.splits)

lemma loads_str_error: "json_loads_str ft s = Inl e \<Longrightarrow> exc_class_of e = JSONDecodeError"
  by (auto simp: json_loads_str_def dest: json_decode_error split: if_splits)

section \<open>What the parser returns\<close>

text \<open>The Python values \<open>json.loads\<close> can return: no bytes, no foreign objects, distinct text keys.\<close>

fun is_text :: "pyval \<Rightarrow> bool" where
  "is_text (PStr s) = True"
| "is_text _ = False"

fun loaded :: "pyval \<Rightarrow> bool" where
  "loaded (PBytes b) = False"
| "loaded (PObj n) = False"
| "loaded (PList xs) = (\<forall>x \<in> set xs. loaded x)"
| "loaded (PDict kvs) = (distinct (map fst kvs) \<and> (\<forall>kv \<in> set kvs. is_text (fst kv) \<and> loaded (snd kv)))"
| "loaded _ = True"

lemma dict_set_keys: "fst ` set (dict_set k v d) = insert k (fst ` set d)"
  by (induction k v d rule: dict_set.induct) auto

lemma dict_set_distinct: "distinct (map fst d) \<Longrightarrow> distinct (map fst (dict_set k v d))"
  by (induction k v d rule: dict_set.induct) (auto simp: dict_set_keys image_iff)

lemma dict_set_values: "set (dict_set k v d) \<subseteq> insert (k, v) (set d)"
  by (induction k v d rule: dict_set.induct) auto

lemma dict_set_loaded:
  assumes "loaded (PDict d)" and "is_text k" and "loaded v"
  shows "loaded (PDict (dict_set k v d))"
proof -
  have "is_text (fst kv) \<and> loaded (snd kv)" if "kv \<in> set (dict_set k v d)" for kv
    using that assms dict_set_values [of k v d] unfolding loaded.simps by force
  then show ?thesis using assms(1) dict_set_distinct [of d k v] unfolding loaded.simps by blast
qed

lemma dict_of_loaded:
  assumes "\<forall>kv \<in> set kvs. is_text (fst kv) \<and> loaded (snd kv)"
  shows "loaded (PDict (dict_of kvs))"
proof -
  have "loaded (PDict (foldl (\<lambda>d kv. dict_set (fst kv) (snd kv) d) d kvs))" if "loaded (PDict d)" for d
    using assms that
  proof (induction kvs arbitrary: d)
    case (Cons kv kvs)
    have "loaded (PDict (dict_set (fst kv) (snd kv) d))"
      by (rule dict_set_loaded [OF Cons.prems(2)]) (use Cons.prems(1) in simp_all)
    then show ?case unfolding foldl_Cons by (intro Cons.IH) (use Cons.prems(1) in simp)
  qed (simp del: loaded.simps)
  from this [of "[]"] show ?thesis unfolding dict_of_def by simp
qed

lemma scan_atom_loaded: "scan_atom ft s = Some (v, r) \<Longrightarrow> loaded v"
  by (auto simp: scan_atom_def scan_number_def split: if_splits option.splits prod.splits)

abbreviation loaded_member :: "pyval \<times> pyval \<Rightarrow> bool" where
  "loaded_member kv \<equiv> is_text (fst kv) \<and> loaded (snd kv)"

lemma p_val_loaded:
  assumes "\<And>s vs r. p_elems ft n s = Some (vs, r) \<Longrightarrow> \<forall>v \<in> set vs. loaded v"
    and "\<And>s kvs r. p_members ft n s = Some (kvs, r) \<Longrightarrow> \<forall>kv \<in> set kvs. loaded_member kv"
    and "p_val ft (Suc n) s = Some (v, r)"
  shows "loaded v"
proof -
  obtain c x where s: "s = c # x" using assms(3) by (cases s) auto
  note run = assms(3) [unfolded s p_val.simps list.case]
  let ?obj = "skip_ws x \<noteq> [] \<and> hd (skip_ws x) = 125" and ?arr = "skip_ws x \<noteq> [] \<and> hd (skip_ws x) = 93"
  consider (members) "c = 123" "\<not> ?obj" | (empty) "c = 123" "?obj" | (elems) "c = 91" "\<not> ?arr"
    | (none) "c = 91" "?arr" | (atom) "c \<noteq> 123" "c \<noteq> 91" by blast
  then show ?thesis
  proof cases
    case members
    with run obtain kvs where "p_members ft n (skip_ws x) = Some (kvs, r)" "v = PDict (dict_of kvs)" by auto
    then show ?thesis using dict_of_loaded [OF assms(2)] by simp
  next
    case elems
    with run obtain vs where "p_elems ft n (skip_ws x) = Some (vs, r)" "v = PList vs" by auto
    then show ?thesis using assms(1) by simp
  next
    case atom
    with run have "scan_atom ft s = Some (v, r)" using s by simp
    then show ?thesis by (rule scan_atom_loaded)
  qed (use run in auto)
qed

lemma p_elems_loaded:
  assumes "\<And>s v r. p_val ft n s = Some (v, r) \<Longrightarrow> loaded v"
    and "\<And>s vs r. p_elems ft n s = Some (vs, r) \<Longrightarrow> \<forall>v \<in> set vs. loaded v"
    and "p_elems ft (Suc n) s = Some (vs, r)"
  shows "\<forall>v \<in> set vs. loaded v"
proof -
  obtain v r1 where v: "p_val ft n s = Some (v, r1)" using assms(3) by (auto split: option.splits)
  with assms(3) consider "vs = [v]" | (more) x ws where "p_elems ft n x = Some (ws, r)" "vs = v # ws"
    by (auto split: list.splits if_splits)
  then show ?thesis using assms(1) [OF v] assms(2) by cases auto
qed

lemma p_members_loaded:
  assumes "\<And>s v r. p_val ft n s = Some (v, r) \<Longrightarrow> loaded v"
    and "\<And>s kvs r. p_members ft n s = Some (kvs, r) \<Longrightarrow> \<forall>kv \<in> set kvs. loaded_member kv"
    and "p_members ft (Suc n) s = Some (kvs, r)"
  shows "\<forall>kv \<in> set kvs. loaded_member kv"
proof -
  from assms(3) have "\<exists>k x v r1. p_val ft n x = Some (v, r1)
    \<and> (kvs = [(PStr k, v)] \<or> (\<exists>y ws. p_members ft n y = Some (ws, r) \<and> kvs = (PStr k, v) # ws))"
    by (auto split: option.splits list.splits if_splits) blast+
  then show ?thesis using assms(1,2) by fastforce
qed

lemma p_loaded:
  shows "p_val ft n s = Some (v, r) \<Longrightarrow> loaded v"
    and "p_elems ft n s = Some (vs, r) \<Longrightarrow> \<forall>v \<in> set vs. loaded v"
    and "p_members ft n s = Some (kvs, r) \<Longrightarrow> \<forall>kv \<in> set kvs. loaded_member kv"
proof (induction n arbitrary: s v r vs kvs)
  case (Suc n)
  note ih = Suc.IH
  { case 1 show ?case by (rule p_val_loaded [OF ih(2,3) 1]) }
  { case 2 show ?case by (rule p_elems_loaded [OF ih(1,2) 2]) }
  { case 3 show ?case by (rule p_members_loaded [OF ih(1,3) 3]) }
qed simp_all

lemma json_decode_loaded: "json_decode ft s = Inr v \<Longrightarrow> loaded v"
  by (auto simp: json_decode_def json_parse_def split: option.splits if_splits prod.splits
      simp del: p_val.simps dest: p_loaded(1))

lemma loads_bytes_loaded: "json_loads_bytes ft b = Inr v \<Longrightarrow> loaded v"
  by (auto simp: json_loads_bytes_def rbind_eq_Inr dest: json_decode_loaded)

section \<open>Printing and parsing text\<close>

text \<open>\<open>json.loads(json.dumps(v))\<close>, with any separators of the kind above.\<close>

lemma dumps_loads_str:
  assumes "float_text_ok ft" and "json_value v" and "separators o'" and "ascii_opts o'"
  shows "\<exists>t. json_dumps ft o' v = Inr t \<and> json_loads_str ft t = Inr v"
proof -
  obtain t where t: "json_dumps ft o' v = Inr t" using dumps_json_value(1) [OF assms(2)] by blast
  have "ascii t" using dumps_ascii(1) [OF assms(1,4) t] .
  then have "\<not> (t \<noteq> [] \<and> hd t = 65279)" by (cases t) auto
  then have "json_loads_str ft t = json_decode ft t" by (simp only: json_loads_str_def if_False)
  then show ?thesis using dumps_decode [OF assms(1,2,3) t] t by simp
qed

lemma dumps_loads_bytes:
  assumes "float_text_ok ft" and "json_value v" and "separators o'" and "ascii_opts o'"
    and "rbind (json_dumps ft o' v) utf8_encode = Inr raw"
  shows "json_loads_bytes ft raw = Inr v"
proof -
  obtain t where t: "json_dumps ft o' v = Inr t" "utf8_encode t = Inr raw" using assms(5) by (auto simp: rbind_eq_Inr)
  have "ascii t" using dumps_ascii(1) [OF assms(1,4) t(1)] .
  then show ?thesis using dumps_decode [OF assms(1-3) t(1)] t(2)
    by (auto simp: json_loads_bytes_def ascii_encode ascii_decode simp del: map_map)
qed

text \<open>What \<open>json.loads\<close> returns or raises.\<close>

lemma json_loads_type:
  "case json_loads_bytes ft b of
      Inr v \<Rightarrow> loaded v
    | Inl e \<Rightarrow> exc_class_of e \<in> {JSONDecodeError, UnicodeDecodeError} \<and> is_value_error (exc_class_of e)"
  using loads_bytes_loaded [of ft b] loads_bytes_error [of ft b] by (auto split: sum.splits)

end
