(* ===== verification/Codec.thy ===== *)
theory Codec
  imports Abi Json_Accept
begin

text \<open>
  \<^verbatim>\<open>opapywasm/memory.py\<close>: the codec between Python values and the linear memory of one
  instance. Every operation is an action on the store; the interpreter's float conversions
  \<open>cd_float\<close> are a parameter (see \<open>Json\<close>).
\<close>

section \<open>Codec state\<close>

record 's codec =
  cd_abi :: "'s abi"
  cd_float :: float_text
  cd_max_input_bytes :: int
  cd_max_data_bytes :: int
  cd_max_result_bytes :: int
  cd_max_cstring_scan_bytes :: int

definition CSTRING_CHUNK :: int where "CSTRING_CHUNK = 4096"

abbreviation memory_error :: "string \<Rightarrow> exc" where
  "memory_error t \<equiv> new_exc OpaMemoryError t"

section \<open>Raw memory\<close>

definition check_range :: "'s codec \<Rightarrow> int \<Rightarrow> int \<Rightarrow> ('s, exc, unit) act" where
  "check_range cd addr len =
     bnd (raise_if (addr < 0) (memory_error ''negative guest address'')) (\<lambda>_.
     bnd (raise_if (len < 0) (memory_error ''negative length'')) (\<lambda>_.
     bnd (memory_len (cd_abi cd)) (\<lambda>mem_len.
     raise_if (mem_len < addr + len) (memory_error ''range exceeds guest memory size''))))"

definition check_pointer :: "int \<Rightarrow> ('s, exc, int) act" where
  "check_pointer addr =
     bnd (raise_if (addr \<le> 0) (memory_error ''OPA returned an invalid guest pointer'')) (\<lambda>_. ret addr)"

definition write_bytes :: "'s codec \<Rightarrow> bytes \<Rightarrow> ('s, exc, int) act" where
  "write_bytes cd data =
     bnd (bnd (opa_malloc (cd_abi cd) (int (length data))) check_pointer) (\<lambda>addr.
     bnd (check_range cd addr (int (length data))) (\<lambda>_.
     bnd (memory_write (cd_abi cd) addr data) (\<lambda>_. ret addr)))"

definition read_bytes :: "'s codec \<Rightarrow> int \<Rightarrow> int \<Rightarrow> ('s, exc, bytes) act" where
  "read_bytes cd addr len =
     bnd (check_range cd addr len) (\<lambda>_. memory_read (cd_abi cd) addr (addr + len))"

text \<open>The scan of \<open>read_cstring\<close>: \<open>out\<close> holds what was read before \<open>pos\<close>.\<close>

function scan_loop :: "'s codec \<Rightarrow> int \<Rightarrow> int \<Rightarrow> bytes \<Rightarrow> 's \<Rightarrow> (exc + bytes) \<times> 's" where
  "scan_loop cd mem_len pos out s =
     (let remaining = cd_max_cstring_scan_bytes cd - int (length out) in
      if remaining \<le> 0 then (Inl (memory_error ''no NUL terminator found''), s)
      else (let stop = min (min (pos + CSTRING_CHUNK) (pos + remaining)) mem_len in
        if stop \<le> pos then (Inl (memory_error ''no NUL terminator found''), s)
        else (case memory_read (cd_abi cd) pos stop s of
            (Inl e, s') \<Rightarrow> (Inl e, s')
          | (Inr chunk, s') \<Rightarrow>
              (case find_index 0 chunk of
                 Some nul \<Rightarrow> (Inr (out @ take nul chunk), s')
               | None \<Rightarrow> scan_loop cd mem_len stop (out @ chunk) s'))))"
  by pat_completeness auto
termination
  by (relation "measure (\<lambda>(cd, mem_len, pos, out, s). nat (mem_len - pos))") auto

declare scan_loop.simps [simp del]

definition read_cstring :: "'s codec \<Rightarrow> int \<Rightarrow> ('s, exc, bytes) act" where
  "read_cstring cd addr =
     bnd (memory_len (cd_abi cd)) (\<lambda>mem_len.
     bnd (raise_if (addr < 0 \<or> mem_len \<le> addr) (memory_error ''start address outside guest memory'')) (\<lambda>_.
     scan_loop cd mem_len addr []))"

section \<open>JSON\<close>

definition dumps :: "float_text \<Rightarrow> pyval \<Rightarrow> exc + bytes" where
  "dumps ft v = (case rbind (json_dumps ft compact v) utf8_encode of
       Inr b \<Rightarrow> Inr b
     | Inl e \<Rightarrow> if exc_class_of e = TypeError \<or> is_value_error (exc_class_of e)
         then Inl (raise_from OpaInvalidInputError ''value is not JSON-serialisable'' e) else Inl e)"

text \<open>\<open>json.loads(raw)\<close> for validation only.\<close>

definition validate_json :: "float_text \<Rightarrow> string \<Rightarrow> bytes \<Rightarrow> exc + bytes" where
  "validate_json ft msg raw = (case json_loads_bytes ft raw of
       Inr v \<Rightarrow> Inr raw
     | Inl e \<Rightarrow> if is_value_error (exc_class_of e)
         then Inl (raise_from OpaInvalidInputError msg e) else Inl e)"

definition coerce_to_json_bytes :: "float_text \<Rightarrow> bool \<Rightarrow> pyval \<Rightarrow> exc + bytes" where
  "coerce_to_json_bytes ft validate v =
     (case v of
        PStr s \<Rightarrow> rbind (utf8_encode s) (\<lambda>raw.
          if validate then validate_json ft ''input str/bytes is not valid JSON text'' raw else Inr raw)
      | PBytes raw \<Rightarrow>
          if validate then validate_json ft ''input str/bytes is not valid JSON text'' raw else Inr raw
      | _ \<Rightarrow> dumps ft v)"

definition check_size :: "bytes \<Rightarrow> int \<Rightarrow> exc + unit" where
  "check_size raw limit = (if limit < int (length raw)
     then Inl (memory_error ''document exceeds the byte limit'') else Inr ())"

definition encode_input :: "'s codec \<Rightarrow> pyval \<Rightarrow> int \<Rightarrow> bool \<Rightarrow> exc + bytes" where
  "encode_input cd v limit validate =
     rbind (coerce_to_json_bytes (cd_float cd) validate v) (\<lambda>raw.
     rbind (check_size raw limit) (\<lambda>_. Inr raw))"

definition write_json :: "'s codec \<Rightarrow> pyval \<Rightarrow> int \<Rightarrow> bool \<Rightarrow> ('s, exc, int \<times> int) act" where
  "write_json cd v limit validate =
     bnd (of_result (coerce_to_json_bytes (cd_float cd) validate v)) (\<lambda>raw.
     bnd (of_result (check_size raw limit)) (\<lambda>_.
     bnd (write_bytes cd raw) (\<lambda>addr. ret (addr, int (length raw)))))"

definition read_json_cstring :: "'s codec \<Rightarrow> int \<Rightarrow> int option \<Rightarrow> ('s, exc, pyval) act" where
  "read_json_cstring cd addr limit =
     bnd (read_cstring cd addr) (\<lambda>raw.
     bnd (of_result (check_size raw (case limit of None \<Rightarrow> cd_max_result_bytes cd | Some l \<Rightarrow> l))) (\<lambda>_.
     of_result (case json_loads_bytes (cd_float cd) raw of
         Inr v \<Rightarrow> Inr v
       | Inl e \<Rightarrow> if is_value_error (exc_class_of e)
           then Inl (raise_from OpaMemoryError ''OPA emitted invalid JSON'' e) else Inl e)))"

section \<open>OPA values\<close>

definition python_to_opa_value :: "'s codec \<Rightarrow> pyval \<Rightarrow> int \<Rightarrow> bool \<Rightarrow> ('s, exc, int) act" where
  "python_to_opa_value cd v limit validate =
     bnd (write_json cd v limit validate) (\<lambda>(raw_addr, raw_len).
     bnd (opa_json_parse (cd_abi cd) raw_addr raw_len) check_pointer)"

definition python_object_to_opa_value :: "'s codec \<Rightarrow> pyval \<Rightarrow> int \<Rightarrow> ('s, exc, int) act" where
  "python_object_to_opa_value cd v limit =
     bnd (of_result (dumps (cd_float cd) v)) (\<lambda>raw.
     bnd (of_result (check_size raw limit)) (\<lambda>_.
     bnd (write_bytes cd raw) (\<lambda>addr.
     bnd (opa_json_parse (cd_abi cd) addr (int (length raw))) check_pointer)))"

definition opa_value_to_python :: "'s codec \<Rightarrow> int \<Rightarrow> int option \<Rightarrow> ('s, exc, pyval) act" where
  "opa_value_to_python cd value_addr limit =
     bnd (bnd (opa_json_dump (cd_abi cd) value_addr) check_pointer) (\<lambda>str_addr.
     read_json_cstring cd str_addr limit)"

section \<open>Metadata\<close>

text \<open>The loop over \<open>decoded.items()\<close>; \<open>PBool\<close> is not \<open>PInt\<close>, as the source insists.\<close>

fun str_int_items :: "(pyval \<times> pyval) list \<Rightarrow> exc + (pystr \<times> int) list" where
  "str_int_items [] = Inr []"
| "str_int_items ((PStr name, PInt ident) # r) =
     rbind (str_int_items r) (\<lambda>m. Inr ((name, ident) # m))"
| "str_int_items (_ # r) = Inl (memory_error ''entry is not a str->int mapping'')"

definition decode_str_int_map :: "'s codec \<Rightarrow> int \<Rightarrow> ('s, exc, (pystr \<times> int) list) act" where
  "decode_str_int_map cd value_addr =
     bnd (opa_value_to_python cd value_addr None) (\<lambda>decoded.
     of_result (case decoded of
         PDict kvs \<Rightarrow> str_int_items kvs
       | _ \<Rightarrow> Inl (memory_error ''metadata did not decode to an object'')))"

definition decode_entrypoints :: "'s codec \<Rightarrow> ('s, exc, (pystr \<times> int) list) act" where
  "decode_entrypoints cd = bnd (abi_entrypoints (cd_abi cd)) (decode_str_int_map cd)"

definition decode_builtins :: "'s codec \<Rightarrow> ('s, exc, (pystr \<times> int) list) act" where
  "decode_builtins cd = bnd (abi_builtins (cd_abi cd)) (decode_str_int_map cd)"

section \<open>Raw memory: what a write leaves and a read returns\<close>

lemma check_range_run [act_simps]:
  "check_range cd addr len s =
     (if addr < 0 then (Inl (memory_error ''negative guest address''), s)
      else if len < 0 then (Inl (memory_error ''negative length''), s)
      else if wt_data_len (ab_wasm (cd_abi cd)) s < addr + len
        then (Inl (memory_error ''range exceeds guest memory size''), s)
      else (Inr (), s))"
  by (simp add: check_range_def memory_len_def act_simps)

lemma check_pointer_run [act_simps]:
  "check_pointer addr s = (if addr \<le> 0
     then (Inl (memory_error ''OPA returned an invalid guest pointer''), s) else (Inr addr, s))"
  by (simp add: check_pointer_def act_simps)

text \<open>The bytes \<open>[addr, addr + n)\<close> of a memory.\<close>

definition region :: "bytes \<Rightarrow> int \<Rightarrow> nat \<Rightarrow> bytes" where
  "region m addr n = take n (drop (nat addr) m)"

lemma write_bytes_spec:
  assumes "memory_ok (ab_wasm (cd_abi cd)) mem" and "write_bytes cd data s = (Inr addr, t)"
  obtains s' where "opa_malloc (cd_abi cd) (int (length data)) s = (Inr addr, s')"
    and "0 < addr" and "addr + int (length data) \<le> int (length (mem s'))"
    and "mem t = take (nat addr) (mem s') @ data @ drop (nat addr + length data) (mem s')"
proof -
  obtain s' where m: "opa_malloc (cd_abi cd) (int (length data)) s = (Inr addr, s')"
    and p: "0 < addr" and r: "\<not> wt_data_len (ab_wasm (cd_abi cd)) s' < addr + int (length data)"
    and w: "memory_write (cd_abi cd) addr data s' = (Inr (), t)"
    using assms(2) unfolding write_bytes_def
    by (auto simp: act_simps split: if_splits prod.splits sum.splits)
  have le: "addr + int (length data) \<le> int (length (mem s'))"
    using r memory_ok_len [OF assms(1)] by (simp add: not_less)
  obtain t' where "wt_memory_write (ab_wasm (cd_abi cd)) data addr s' = (Inr (), t')"
    "mem t' = take (nat addr) (mem s') @ data @ drop (nat addr + length data) (mem s')"
    using memory_ok_write [OF assms(1), of addr data s'] p le by auto
  with w have "mem t = take (nat addr) (mem s') @ data @ drop (nat addr + length data) (mem s')"
    by (simp add: memory_write_def)
  with that m p le show thesis by blast
qed

lemma write_bytes_region:
  assumes "memory_ok (ab_wasm (cd_abi cd)) mem" and "write_bytes cd data s = (Inr addr, t)"
  shows "region (mem t) addr (length data) = data" and "0 < addr"
    and "addr + int (length data) \<le> int (length (mem t))"
proof -
  obtain s' where s': "0 < addr" "addr + int (length data) \<le> int (length (mem s'))"
    "mem t = take (nat addr) (mem s') @ data @ drop (nat addr + length data) (mem s')"
    using write_bytes_spec [OF assms] by blast
  have l: "length (take (nat addr) (mem s')) = nat addr" using s'(1,2) by simp
  show "region (mem t) addr (length data) = data"
    unfolding region_def s'(3) using l by simp
  show "0 < addr" by (rule s'(1))
  show "addr + int (length data) \<le> int (length (mem t))"
    using s'(1,2) l by (simp add: s'(3))
qed

lemma read_bytes_spec:
  assumes "memory_ok (ab_wasm (cd_abi cd)) mem"
  shows "read_bytes cd addr len s =
    (if addr < 0 then (Inl (memory_error ''negative guest address''), s)
     else if len < 0 then (Inl (memory_error ''negative length''), s)
     else if int (length (mem s)) < addr + len
       then (Inl (memory_error ''range exceeds guest memory size''), s)
     else (Inr (region (mem s) addr (nat len)), s))"
  using memory_ok_len [OF assms] memory_ok_read [OF assms, of addr "addr + len"]
  by (simp add: read_bytes_def memory_read_def act_simps region_def)

section \<open>The chunked scan finds what a direct search finds\<close>

text \<open>
  The reference: the text up to the first NUL of the window of at most \<open>n\<close> bytes from \<open>a\<close>.
\<close>

definition cstring_at :: "bytes \<Rightarrow> int \<Rightarrow> int \<Rightarrow> bytes option" where
  "cstring_at m a n = (let window = region m a (nat n) in
     if 0 \<in> set window then Some (takeWhile (\<lambda>b. b \<noteq> 0) window) else None)"

lemma region_split:
  assumes "0 \<le> a" and "0 \<le> k" and "k \<le> n"
  shows "region m a (nat n) = region m a (nat k) @ region m (a + k) (nat (n - k))"
proof -
  have "nat n = nat k + nat (n - k)" "nat (a + k) = nat k + nat a" using assms by simp_all
  then show ?thesis by (simp add: region_def take_add)
qed

lemma cstring_at_step:
  assumes "0 \<le> a" "0 \<le> k" "k \<le> n"
  shows "cstring_at m a n = (case find_index 0 (region m a (nat k)) of
      Some i \<Rightarrow> Some (take i (region m a (nat k)))
    | None \<Rightarrow> map_option ((@) (region m a (nat k))) (cstring_at m (a + k) (n - k)))"
proof (cases "find_index 0 (region m a (nat k))")
  case None
  then have "0 \<notin> set (region m a (nat k))" by (simp add: find_index_None)
  with None show ?thesis
    by (simp add: cstring_at_def Let_def region_split [OF assms] takeWhile_append_absent)
next
  case (Some i)
  from find_index_Some_takeWhile [OF this] show ?thesis
    by (simp add: cstring_at_def Let_def region_split [OF assms] Some takeWhile_append1 [of 0])
qed

lemma scan_loop_spec:
  assumes "memory_ok (ab_wasm (cd_abi cd)) mem" and "0 \<le> pos" and "mem_len = int (length (mem s))"
  shows "scan_loop cd mem_len pos out s =
    (case cstring_at (mem s) pos (cd_max_cstring_scan_bytes cd - int (length out)) of
       Some b \<Rightarrow> (Inr (out @ b), s)
     | None \<Rightarrow> (Inl (memory_error ''no NUL terminator found''), s))"
  using assms(2,3)
proof (induction "nat (mem_len - pos)" arbitrary: pos out rule: less_induct)
  case less
  note 1 = less.hyps assms(1) less.prems
  define n where "n = cd_max_cstring_scan_bytes cd - int (length out)"
  define stop where "stop = min (min (pos + CSTRING_CHUNK) (pos + n)) mem_len"
  show ?case
  proof (cases "n \<le> 0 \<or> stop \<le> pos")
    case True
    then have "region (mem s) pos (nat n) = []"
      using 1(3,4) by (auto simp: region_def stop_def CSTRING_CHUNK_def)
    with True show ?thesis
      by (subst scan_loop.simps) (auto simp: Let_def n_def stop_def cstring_at_def)
  next
    case False
    let ?chunk = "region (mem s) pos (nat (stop - pos))"
    have st: "pos < stop" "stop - pos \<le> n" "stop \<le> mem_len" using False by (auto simp: stop_def)
    have rd: "memory_read (cd_abi cd) pos stop s = (Inr ?chunk, s)"
      using memory_ok_read [OF 1(2), of pos stop s] 1(3) st by (simp add: memory_read_def region_def)
    have len: "int (length ?chunk) = stop - pos"
      using st 1(3,4) by (simp add: region_def)
    have ih: "scan_loop cd mem_len stop (out @ ?chunk) s =
      (case cstring_at (mem s) stop (n - (stop - pos)) of
         Some b \<Rightarrow> (Inr ((out @ ?chunk) @ b), s)
       | None \<Rightarrow> (Inl (memory_error ''no NUL terminator found''), s))"
      using 1(1) [of stop "out @ ?chunk"] st 1(3,4) len by (simp add: n_def diff_diff_eq)
    show ?thesis
      using False rd ih cstring_at_step [of pos "stop - pos" n "mem s"] st 1(3)
      by (subst scan_loop.simps)
        (auto simp: Let_def simp flip: n_def stop_def split: option.splits)
  qed
qed

lemma read_cstring_spec:
  assumes "memory_ok (ab_wasm (cd_abi cd)) mem"
  shows "read_cstring cd addr s =
    (if addr < 0 \<or> int (length (mem s)) \<le> addr
     then (Inl (memory_error ''start address outside guest memory''), s)
     else (case cstring_at (mem s) addr (cd_max_cstring_scan_bytes cd) of
         Some b \<Rightarrow> (Inr b, s)
       | None \<Rightarrow> (Inl (memory_error ''no NUL terminator found''), s)))"
  using memory_ok_len [OF assms, of s] scan_loop_spec [OF assms, of addr _ s "[]"]
  by (auto simp: read_cstring_def memory_len_def act_simps split: option.splits)

section \<open>Serialisation and its limits\<close>

lemma dumps_Inr:
  "float_text_ok ft \<Longrightarrow> dumps ft v = Inr raw \<longleftrightarrow> (\<exists>t. json_dumps ft compact v = Inr t \<and> raw = map of_nat t)"
  using dumps_ascii(1) [of ft compact v, OF _ ascii_opts_simps(1)] ascii_encode(1)
  by (fastforce simp: dumps_def rbind_eq_Inr split: sum.splits if_splits)

lemma dumps_accepts: "float_text_ok ft \<Longrightarrow> (\<exists>raw. dumps ft v = Inr raw) \<longleftrightarrow> dumpable v"
  using dumps_Inr dumps_Inr_iff(1) [OF refl] by metis

lemma utf8_encode_error: "utf8_encode s = Inl e \<Longrightarrow> exc_class_of e = UnicodeEncodeError"
  by (auto simp: utf8_encode_def split: if_splits)

lemma dumps_raises: "dumps ft v = Inl e \<Longrightarrow> exc_class_of e = OpaInvalidInputError"
  by (auto simp: dumps_def rbind_eq_Inl split: sum.splits if_splits
      dest!: dumps_error(1) utf8_encode_error)

lemma dumps_loads:
  assumes "float_text_ok ft" and "json_value v" and "dumps ft v = Inr raw"
  shows "json_loads_bytes ft raw = Inr v"
proof (rule dumps_loads_bytes [OF assms(1,2)])
  show "rbind (json_dumps ft compact v) utf8_encode = Inr raw"
    using assms(3) by (auto simp: dumps_def split: sum.splits if_splits)
qed simp_all

lemma validate_json_Inr: "validate_json ft msg raw = Inr b \<longleftrightarrow> b = raw \<and> (\<exists>v. json_loads_bytes ft raw = Inr v)"
  by (auto simp: validate_json_def split: sum.splits if_splits)

lemma validate_json_raises: "validate_json ft msg raw = Inl e \<Longrightarrow> exc_class_of e = OpaInvalidInputError"
  by (auto simp: validate_json_def split: sum.splits if_splits dest: loads_bytes_error)

lemma check_size_Inr: "check_size raw limit = Inr () \<longleftrightarrow> int (length raw) \<le> limit"
  by (auto simp: check_size_def)

lemma check_size_raises: "check_size raw limit = Inl e \<Longrightarrow> exc_class_of e = OpaMemoryError"
  by (auto simp: check_size_def split: if_splits)

text \<open>A document that is handed over as text or bytes.\<close>

definition raw_document :: "pyval \<Rightarrow> bool" where
  "raw_document v \<longleftrightarrow> (case v of PStr s \<Rightarrow> True | PBytes b \<Rightarrow> True | _ \<Rightarrow> False)"

lemma coerce_object: "\<not> raw_document v \<Longrightarrow> coerce_to_json_bytes ft validate v = dumps ft v"
  by (cases v) (simp_all add: coerce_to_json_bytes_def raw_document_def)

lemma encode_input_Inr:
  "encode_input cd v limit validate = Inr raw \<longleftrightarrow>
     coerce_to_json_bytes (cd_float cd) validate v = Inr raw \<and> int (length raw) \<le> limit"
  by (auto simp: encode_input_def rbind_eq_Inr check_size_Inr)

lemma encode_input_raises:
  assumes "encode_input cd v limit validate = Inl e"
  shows "exc_class_of e \<in> {OpaInvalidInputError, OpaMemoryError, UnicodeEncodeError}"
  using assms
  by (auto simp: encode_input_def rbind_eq_Inl coerce_to_json_bytes_def
      dest!: check_size_raises dumps_raises utf8_encode_error validate_json_raises
      split: pyval.splits if_splits)

lemma str_int_items_Inr:
  "str_int_items kvs = Inr m \<longleftrightarrow> kvs = map (\<lambda>(n, i). (PStr n, PInt i)) m"
  by (induction kvs arbitrary: m rule: str_int_items.induct) (auto simp: rbind_eq_Inr Cons_eq_map_conv)

text \<open>A JSON result that is read is the parse of the text at its address, within the limits.\<close>

lemma read_json_cstring_Inr:
  assumes "memory_ok (ab_wasm (cd_abi cd)) mem" and "read_json_cstring cd addr (Some limit) s = (Inr v, t)"
  obtains raw where "cstring_at (mem s) addr (cd_max_cstring_scan_bytes cd) = Some raw"
    and "int (length raw) \<le> limit" and "json_loads_bytes (cd_float cd) raw = Inr v" and "t = s"
proof -
  obtain raw s1 where r: "read_cstring cd addr s = (Inr raw, s1)" and c: "check_size raw limit = Inr ()"
    "json_loads_bytes (cd_float cd) raw = Inr v" "t = s1"
    using assms(2) unfolding read_json_cstring_def by (auto simp: act_simps split: prod.splits sum.splits if_splits)
  have "cstring_at (mem s) addr (cd_max_cstring_scan_bytes cd) = Some raw" "s1 = s"
    using r read_cstring_spec [OF assms(1), of addr s] by (auto split: if_splits option.splits)
  with that c show thesis by (simp add: check_size_Inr)
qed

section \<open>Documents the guest has parsed\<close>

text \<open>The address \<open>a\<close> is what the guest returned when it was asked to parse the document \<open>b\<close>.\<close>

definition parsed_document :: "'s abi \<Rightarrow> ('s \<Rightarrow> bytes) \<Rightarrow> bytes \<Rightarrow> int \<Rightarrow> bool" where
  "parsed_document ab mem b a \<longleftrightarrow> (\<exists>addr s s'. region (mem s) addr (length b) = b
     \<and> opa_json_parse ab addr (int (length b)) s = (Inr a, s'))"

lemma python_to_opa_value_parsed:
  assumes "memory_ok (ab_wasm (cd_abi cd)) mem" and "python_to_opa_value cd (PBytes b) lim validate s = (Inr a, s')"
  shows "parsed_document (cd_abi cd) mem b a"
proof -
  obtain addr n t where w: "write_json cd (PBytes b) lim validate s = (Inr (addr, n), t)"
    and p: "opa_json_parse (cd_abi cd) addr n t = (Inr a, s')"
    using assms(2) unfolding python_to_opa_value_def
    by (auto simp: check_pointer_run elim!: bnd_InrE split: if_splits)
  have "write_bytes cd b s = (Inr addr, t)" "n = int (length b)"
    using w unfolding write_json_def
    by (auto simp: coerce_to_json_bytes_def validate_json_Inr act_simps split: if_splits sum.splits prod.splits)
  with write_bytes_region(1) [OF assms(1)] p show ?thesis unfolding parsed_document_def by blast
qed

text \<open>Whatever the memory holds, a result that is read is a JSON value.\<close>

lemma read_json_cstring_loaded: "read_json_cstring cd a limit s = (Inr v, t) \<Longrightarrow> loaded v"
  unfolding read_json_cstring_def
  by (auto simp: of_result_run elim!: bnd_InrE split: sum.splits if_splits dest: loads_bytes_loaded)

text \<open>A document that holds not-a-number is accepted as text and refused as a value.\<close>

lemma nan_accepted: "validate_json ft m (map of_nat (ustr ''NaN'')) = Inr (map of_nat (ustr ''NaN''))"
  by code_simp

lemma nan_refused: "\<exists>e. dumps ft (PFloat float_nan) = Inl e"
  by (simp add: dumps_def float_str_def float_nan_def float_finite_def compact_def)

end
