(* ===== verification/Data.thy ===== *)
theory Data
  imports Codec
begin

text \<open>
  \<^verbatim>\<open>opapywasm/data.py\<close>: the data document of one instance and its heap checkpoints. The
  record is extended by the instance that owns the manager (theory \<open>Instance\<close>), so the
  operations are stated for every extension of it.
\<close>

section \<open>State and operations\<close>

record 's dm =
  dm_store :: 's
  initial_heap_ptr :: int
  data_addr :: int
  data_heap_ptr :: int

definition NO_DATA_ADDR :: int where "NO_DATA_ADDR = 0"

text \<open>An operation of the guest, run on the store of the manager's instance.\<close>

definition on_store :: "('s, exc, 'a) act \<Rightarrow> (('s, 'z) dm_scheme, exc, 'a) act" where
  "on_store m = zoom dm_store (\<lambda>s d. d\<lparr>dm_store := s\<rparr>) m"

definition dm_init :: "'s abi \<Rightarrow> 's \<Rightarrow> (exc + 's dm) \<times> 's" where
  "dm_init ab s = (case opa_heap_ptr_get ab s of
       (Inl e, s') \<Rightarrow> (Inl e, s')
     | (Inr p, s') \<Rightarrow> (Inr \<lparr>dm_store = s', initial_heap_ptr = p, data_addr = NO_DATA_ADDR, data_heap_ptr = p\<rparr>, s'))"

definition reset_heap_to_checkpoint :: "'s abi \<Rightarrow> (('s, 'z) dm_scheme, exc, unit) act" where
  "reset_heap_to_checkpoint ab = bnd (reading data_heap_ptr) (\<lambda>p. on_store (opa_heap_ptr_set ab p))"

text \<open>\<open>load_data\<close>; the data is \<open>PNone\<close> when the document is cleared.\<close>

definition clear_data :: "(('s, 'z) dm_scheme, exc, unit) act" where
  "clear_data = updating (\<lambda>d. d\<lparr>data_addr := NO_DATA_ADDR, data_heap_ptr := initial_heap_ptr d\<rparr>)"

definition load_failed :: "'s abi \<Rightarrow> exc \<Rightarrow> (('s, 'z) dm_scheme, exc, unit) act" where
  "load_failed ab e =
     (if is_exception (exc_class_of e)
      then bnd (reading initial_heap_ptr) (\<lambda>p.
           bnd (on_store (opa_heap_ptr_set ab p)) (\<lambda>_.
           bnd clear_data (\<lambda>_.
           raise (if exc_class_of e = OpaDataError then e
                  else raise_from OpaDataError ''failed to load data'' e))))
      else raise e)"

definition load_data :: "'s codec \<Rightarrow> int \<Rightarrow> pyval \<Rightarrow> (('s, 'z) dm_scheme, exc, unit) act" where
  "load_data cd max_data_bytes' data =
     bnd (reading initial_heap_ptr) (\<lambda>p.
     bnd (on_store (opa_heap_ptr_set (cd_abi cd) p)) (\<lambda>_.
     if data = PNone then clear_data
     else
       bnd (try_except
              (bnd (on_store (python_to_opa_value cd data max_data_bytes' True)) (\<lambda>a.
                 updating (\<lambda>d. d\<lparr>data_addr := a\<rparr>)))
              (load_failed (cd_abi cd))) (\<lambda>_.
       bnd (on_store (opa_heap_ptr_get (cd_abi cd))) (\<lambda>hp.
       updating (\<lambda>d. d\<lparr>data_heap_ptr := hp\<rparr>)))))"

section \<open>Frame\<close>

lemma on_store_run [act_simps]: "on_store m d = (fst (m (dm_store d)), d\<lparr>dm_store := snd (m (dm_store d))\<rparr>)"
  by (simp add: on_store_def act_simps split: prod.splits)

text \<open>A guest call changes nothing of the manager but the store.\<close>

lemma keeps_on_store: "(\<And>d s. I d \<Longrightarrow> I (d\<lparr>dm_store := s\<rparr>)) \<Longrightarrow> keeps I (on_store m)"
  by (simp add: keeps_def act_simps)

text \<open>
  The fields an operation may change: \<open>same_rest\<close> compares everything of an extended
  manager but the store, the data address and the checkpoint.
\<close>

definition same_rest :: "('s, 'z) dm_scheme \<Rightarrow> ('s, 'z) dm_scheme \<Rightarrow> bool" where
  "same_rest d d' \<longleftrightarrow> initial_heap_ptr d' = initial_heap_ptr d \<and> dm.more d' = dm.more d"

lemma same_rest_simps [simp]:
  "same_rest d (d'\<lparr>dm_store := s\<rparr>) = same_rest d d'"
  "same_rest d (d'\<lparr>data_addr := a\<rparr>) = same_rest d d'"
  "same_rest d (d'\<lparr>data_heap_ptr := p\<rparr>) = same_rest d d'"
  "same_rest d d"
  by (simp_all add: same_rest_def)

lemma reset_keeps_manager:
  "reset_heap_to_checkpoint ab d = (r, d') \<Longrightarrow> \<exists>s. d' = d\<lparr>dm_store := s\<rparr>"
  by (auto simp: reset_heap_to_checkpoint_def act_simps)

lemma load_keeps_rest: "keeps (same_rest d) (load_data cd lim data)"
  unfolding load_data_def load_failed_def clear_data_def
  by (auto intro!: keeps_bnd keeps_reading keeps_on_store keeps_updating keeps_try_except keeps_raise)

section \<open>Loading data\<close>

text \<open>The runs of the two operations in terms of the guest calls they make.\<close>

lemma load_failed_run:
  "load_failed ab e d =
     (if \<not> is_exception (exc_class_of e) then (Inl e, d)
      else (case opa_heap_ptr_set ab (initial_heap_ptr d) (dm_store d) of
          (Inl e', s) \<Rightarrow> (Inl e', d\<lparr>dm_store := s\<rparr>)
        | (Inr _, s) \<Rightarrow>
            (Inl (if exc_class_of e = OpaDataError then e
                  else raise_from OpaDataError ''failed to load data'' e),
             d\<lparr>dm_store := s, data_addr := 0, data_heap_ptr := initial_heap_ptr d\<rparr>)))"
  by (simp add: load_failed_def clear_data_def act_simps NO_DATA_ADDR_def split: prod.splits sum.splits)

lemma load_data_run:
  "load_data cd lim data d =
     (case opa_heap_ptr_set (cd_abi cd) (initial_heap_ptr d) (dm_store d) of
        (Inl e, s) \<Rightarrow> (Inl e, d\<lparr>dm_store := s\<rparr>)
      | (Inr _, s) \<Rightarrow>
          if data = PNone
          then (Inr (), d\<lparr>dm_store := s, data_addr := 0, data_heap_ptr := initial_heap_ptr d\<rparr>)
          else (case python_to_opa_value cd data lim True s of
              (Inl e, s') \<Rightarrow> load_failed (cd_abi cd) e (d\<lparr>dm_store := s'\<rparr>)
            | (Inr a, s') \<Rightarrow>
                (case opa_heap_ptr_get (cd_abi cd) s' of
                   (Inl e, s'') \<Rightarrow> (Inl e, d\<lparr>dm_store := s'', data_addr := a\<rparr>)
                 | (Inr hp, s'') \<Rightarrow>
                     (Inr (), d\<lparr>dm_store := s'', data_addr := a, data_heap_ptr := hp\<rparr>))))"
  by (auto simp: load_data_def clear_data_def act_simps NO_DATA_ADDR_def load_failed_run
      split: prod.splits sum.splits)

lemma python_to_opa_value_pos: "python_to_opa_value cd v lim b s = (Inr a, s') \<Longrightarrow> 0 < a"
  by (auto simp: python_to_opa_value_def act_simps split: prod.splits sum.splits if_splits)

text \<open>
  A load that returns has either cleared the document or has a live address and the
  checkpoint the guest reported after it.
\<close>

lemma load_data_Inr:
  assumes "load_data cd lim data d = (Inr (), d')"
  shows "if data = PNone then data_addr d' = 0 \<and> data_heap_ptr d' = initial_heap_ptr d'
    else 0 < data_addr d' \<and> (\<exists>s. opa_heap_ptr_get (cd_abi cd) s = (Inr (data_heap_ptr d'), dm_store d'))"
  using assms
  by (auto simp: load_data_run load_failed_run dest: python_to_opa_value_pos
      split: prod.splits sum.splits if_splits)

section \<open>The guest's heap pointer\<close>

text \<open>
  What the two heap exports of a working guest do, through a view \<open>hp\<close> of its heap pointer:
  the getter reports it and changes nothing, the setter sets it to any address.
\<close>

definition heap_ok :: "'s abi \<Rightarrow> ('s \<Rightarrow> int) \<Rightarrow> bool" where
  "heap_ok ab hp \<longleftrightarrow> (\<forall>s. opa_heap_ptr_get ab s = (Inr (hp s), s) \<and> 0 \<le> hp s \<and> hp s < 2 ^ 31)
     \<and> (\<forall>s p. 0 \<le> p \<longrightarrow> p < 2 ^ 31 \<longrightarrow> (\<exists>s'. opa_heap_ptr_set ab p s = (Inr (), s') \<and> hp s' = p))"

text \<open>The two pointers the manager keeps are addresses.\<close>

definition dm_inv :: "('s, 'z) dm_scheme \<Rightarrow> bool" where
  "dm_inv d \<longleftrightarrow> 0 \<le> initial_heap_ptr d \<and> initial_heap_ptr d < 2 ^ 31
     \<and> 0 \<le> data_heap_ptr d \<and> data_heap_ptr d < 2 ^ 31
     \<and> 0 \<le> data_addr d"

lemma heap_set:
  assumes "heap_ok ab hp" and "0 \<le> p" and "p < 2 ^ 31"
  obtains s' where "opa_heap_ptr_set ab p s = (Inr (), s')" and "hp s' = p"
  using assms unfolding heap_ok_def by blast

lemma dm_inv_init: "heap_ok ab hp \<Longrightarrow> dm_init ab s = (Inr d, s') \<Longrightarrow> dm_inv d"
  by (auto simp: dm_init_def dm_inv_def heap_ok_def NO_DATA_ADDR_def)

lemma reset_heap:
  assumes "heap_ok ab hp" and "dm_inv d"
  obtains s where "reset_heap_to_checkpoint ab d = (Inr (), d\<lparr>dm_store := s\<rparr>)" and "hp s = data_heap_ptr d"
proof -
  obtain s where "opa_heap_ptr_set ab (data_heap_ptr d) (dm_store d) = (Inr (), s)" "hp s = data_heap_ptr d"
    using heap_set [OF assms(1)] assms(2) unfolding dm_inv_def by blast
  then show thesis using that by (simp add: reset_heap_to_checkpoint_def act_simps)
qed

text \<open>
  On a working guest a load either succeeds and leaves the heap pointer at the new
  checkpoint, or fails with \<open>OpaDataError\<close> (only an exception outside \<open>Exception\<close> passes
  through) with no data and the heap pointer back where it was before any data.
\<close>

lemma load_data_heap:
  assumes "heap_ok (cd_abi cd) hp" and "dm_inv d" and "load_data cd lim data d = (r, d')"
  shows "case r of
      Inr _ \<Rightarrow> hp (dm_store d') = data_heap_ptr d' \<and> dm_inv d'
    | Inl e \<Rightarrow> is_exception (exc_class_of e) \<longrightarrow>
        exc_class_of e = OpaDataError \<and> data_addr d' = 0
        \<and> data_heap_ptr d' = initial_heap_ptr d' \<and> hp (dm_store d') = initial_heap_ptr d' \<and> dm_inv d'"
proof -
  have i: "0 \<le> initial_heap_ptr d" "initial_heap_ptr d < 2 ^ 31" using assms(2) by (auto simp: dm_inv_def)
  obtain s1 where s1: "opa_heap_ptr_set (cd_abi cd) (initial_heap_ptr d) (dm_store d) = (Inr (), s1)"
    "hp s1 = initial_heap_ptr d" using heap_set [OF assms(1) i] .
  obtain v s2 where v: "python_to_opa_value cd data lim True s1 = (v, s2)" by fastforce
  obtain s3 where s3: "opa_heap_ptr_set (cd_abi cd) (initial_heap_ptr d) s2 = (Inr (), s3)"
    "hp s3 = initial_heap_ptr d" using heap_set [OF assms(1) i] .
  have g: "opa_heap_ptr_get (cd_abi cd) s2 = (Inr (hp s2), s2)" "0 \<le> hp s2" "hp s2 < 2 ^ 31"
    using assms(1) by (auto simp: heap_ok_def)
  have pos: "v = Inr a \<Longrightarrow> 0 < a" for a using python_to_opa_value_pos [of cd data lim True s1 a s2] v by simp
  show ?thesis using assms(2,3) s1 v s3 g pos i
    by (auto simp: load_data_run load_failed_run dm_inv_def less_imp_le split: sum.splits if_splits)
qed

lemma load_data_document:
  assumes "memory_ok (ab_wasm (cd_abi cd)) mem" and "load_data cd lim data d = (Inr (), d')"
  shows "case data of PNone \<Rightarrow> data_addr d' = 0
    | PBytes b \<Rightarrow> parsed_document (cd_abi cd) mem b (data_addr d')
    | _ \<Rightarrow> True"
proof (cases data)
  case (PBytes b)
  then obtain s s' where "python_to_opa_value cd (PBytes b) lim True s = (Inr (data_addr d'), s')"
    using assms(2) by (auto simp: load_data_run load_failed_run split: prod.splits sum.splits if_splits)
  from python_to_opa_value_parsed [OF assms(1) this] PBytes show ?thesis by simp
qed (use load_data_Inr [OF assms(2)] in simp_all)

text \<open>The first call of \<open>load_data\<close> is outside its \<open>try\<close>: a trap there reaches the caller as it is.\<close>

lemma load_data_raw:
  assumes "opa_heap_ptr_set (cd_abi cd) (initial_heap_ptr d) (dm_store d) = (Inl e, s)"
  shows "fst (load_data cd limit data d) = Inl e"
  using assms by (simp add: load_data_run)

end
