(* ===== verification/Evaluator.thy ===== *)
theory Evaluator
  imports Data
begin

text \<open>
  \<^verbatim>\<open>opapywasm/evaluator.py\<close>: one evaluation on an exclusively held instance, and the two
  walks along the cause and context links of an exception.
\<close>

section \<open>Exception chains\<close>

text \<open>\<open>cur.__cause__ or cur.__context__\<close>\<close>

definition chain_next :: "exc_obj list \<Rightarrow> nat \<Rightarrow> nat option" where
  "chain_next h i = (case eo_cause (h ! i) of Some j \<Rightarrow> Some j | None \<Rightarrow> eo_context (h ! i))"

lemma unseen_shrinks:
  fixes n :: nat
  assumes "\<not> (i \<in> set seen \<or> n \<le> i)"
  shows "card ({..<n} - set (i # seen)) < card ({..<n} - set seen)"
proof -
  have "i < n" "i \<notin> set seen" using assms by auto
  then have "{..<n} - set (i # seen) \<subset> {..<n} - set seen" unfolding psubset_eq set_simps by blast
  then show ?thesis by (rule psubset_card_mono [rotated]) simp
qed

text \<open>
  The loop both functions run: the first object of the chain that satisfies \<open>P\<close>, stopping at
  an object that was seen before (chains may be cyclic).
\<close>

function chain_find :: "(exc_obj \<Rightarrow> bool) \<Rightarrow> exc_obj list \<Rightarrow> nat list \<Rightarrow> nat option \<Rightarrow> nat option" where
  "chain_find P h seen None = None"
| "chain_find P h seen (Some i) =
     (if i \<in> set seen \<or> length h \<le> i then None
      else if P (h ! i) then Some i
      else chain_find P h (i # seen) (chain_next h i))"
  by pat_completeness auto
termination
  by (relation "measure (\<lambda>(P, h, seen, cur). card ({..<length h} - set seen))")
    (rule wf_measure, unfold in_measure case_prod_conv, erule unseen_shrinks)

definition find_typed_in_chain :: "exc \<Rightarrow> nat option" where
  "find_typed_in_chain e = chain_find (\<lambda>ob. is_opa_error (eo_class ob)) (exc_objs e) [] (Some (exc_root e))"

text \<open>
  \<open>str(cur).lower()\<close>: only the ASCII letters matter to a search for \<^verbatim>\<open>interrupt\<close> or
  \<^verbatim>\<open>epoch\<close>. Of the other letters just U+0130 has a lower case with a letter of these
  words (an \<open>i\<close>), and a combining dot follows that \<open>i\<close>.
\<close>

definition lower :: "pystr \<Rightarrow> pystr" where
  "lower s = map (\<lambda>c. if 65 \<le> c \<and> c \<le> 90 then c + 32 else c) s"

fun has_infix :: "pystr \<Rightarrow> pystr \<Rightarrow> bool" where
  "has_infix p [] = (p = [])"
| "has_infix p (c # s) = (take (length p) (c # s) = p \<or> has_infix p s)"

definition mentions_interrupt :: "exc_obj \<Rightarrow> bool" where
  "mentions_interrupt ob \<longleftrightarrow> has_infix (ustr ''interrupt'') (lower (eo_text ob))
     \<or> has_infix (ustr ''epoch'') (lower (eo_text ob))"

definition is_epoch_interrupt :: "exc \<Rightarrow> bool" where
  "is_epoch_interrupt e \<longleftrightarrow> chain_find mentions_interrupt (exc_objs e) [] (Some (exc_root e)) \<noteq> None"

section \<open>The evaluator\<close>

record 's evaluator =
  ev_codec :: "'s codec"
  ev_max_input_bytes :: int
  ev_max_result_bytes :: int
  ev_validate_input :: bool
  ev_deadline_ticks :: "int option"

abbreviation ev_abi :: "'s evaluator \<Rightarrow> 's abi" where
  "ev_abi ev \<equiv> cd_abi (ev_codec ev)"

definition PASSTHROUGH_ERRORS :: "exc_class list" where
  "PASSTHROUGH_ERRORS = [OpaEvaluationError, OpaInvalidInputError, OpaMemoryError]"

definition arm_deadline :: "'s evaluator \<Rightarrow> (('s, 'z) dm_scheme, exc, unit) act" where
  "arm_deadline ev = (case ev_deadline_ticks ev of
       None \<Rightarrow> ret () | Some n \<Rightarrow> on_store (set_epoch_deadline (ev_abi ev) n))"

definition disarm_deadline :: "'s evaluator \<Rightarrow> (('s, 'z) dm_scheme, exc, unit) act" where
  "disarm_deadline ev = (case ev_deadline_ticks ev of
       None \<Rightarrow> ret () | Some n \<Rightarrow> on_store (clear_epoch_deadline (ev_abi ev)))"

definition reset_heap_if_safe :: "'s evaluator \<Rightarrow> bool \<Rightarrow> (('s, 'z) dm_scheme, exc, unit) act" where
  "reset_heap_if_safe ev entered_wasm =
     (if entered_wasm then ret () else reset_heap_to_checkpoint (ev_abi ev))"

text \<open>Steps 2 to 6 of the body, from the moment \<open>entered_wasm\<close> is set.\<close>

definition run_guest ::
  "'s evaluator \<Rightarrow> (('s, 'z) dm_scheme, exc, unit) act option \<Rightarrow> bytes \<Rightarrow> int
     \<Rightarrow> (('s, 'z) dm_scheme, exc, pyval) act"
where
  "run_guest ev on_enter_wasm input_bytes entrypoint_id =
     bnd (case on_enter_wasm of None \<Rightarrow> ret () | Some cb \<Rightarrow> cb) (\<lambda>_.
     bnd (arm_deadline ev) (\<lambda>_.
     bnd (reset_heap_to_checkpoint (ev_abi ev)) (\<lambda>_.
     bnd (on_store (write_bytes (ev_codec ev) input_bytes)) (\<lambda>input_addr.
     bnd (on_store (opa_heap_ptr_get (ev_abi ev))) (\<lambda>heap_ptr.
     bnd (reading data_addr) (\<lambda>da.
     bnd (on_store (opa_eval (ev_abi ev) entrypoint_id da input_addr (int (length input_bytes)) heap_ptr))
       (\<lambda>result_addr.
     bnd (on_store (read_json_cstring (ev_codec ev) result_addr (Some (ev_max_result_bytes ev))))
       (\<lambda>result.
     bnd (reset_heap_to_checkpoint (ev_abi ev)) (\<lambda>_.
     bnd (disarm_deadline ev) (\<lambda>_. ret result))))))))))"

text \<open>The two \<open>except\<close> clauses.\<close>

definition eval_failed :: "'s evaluator \<Rightarrow> bool \<Rightarrow> exc \<Rightarrow> (('s, 'z) dm_scheme, exc, pyval) act" where
  "eval_failed ev entered_wasm e =
     (if exc_class_of e \<in> set PASSTHROUGH_ERRORS
      then bnd (reset_heap_if_safe ev entered_wasm) (\<lambda>_. raise e)
      else if is_exception (exc_class_of e)
      then bnd (reset_heap_if_safe ev entered_wasm) (\<lambda>_.
        case find_typed_in_chain e of
          Some j \<Rightarrow> raise (reraise_from j e)
        | None \<Rightarrow>
            if entered_wasm \<and> is_epoch_interrupt e
            then raise (raise_from OpaEvaluationError
                   ''evaluation exceeded its time limit (eval_timeout_seconds) and was interrupted'' e)
            else raise (raise_from OpaEvaluationError ''evaluation failed'' e))
      else raise e)"

text \<open>
  \<open>evaluate\<close>: the input is serialised before \<open>entered_wasm\<close> is set, everything after it runs
  with the flag set.
\<close>

definition evaluate ::
  "'s evaluator \<Rightarrow> (('s, 'z) dm_scheme, exc, unit) act option \<Rightarrow> pyval \<Rightarrow> int
     \<Rightarrow> (('s, 'z) dm_scheme, exc, pyval) act"
where
  "evaluate ev on_enter_wasm input_value entrypoint_id =
     (case encode_input (ev_codec ev) input_value (ev_max_input_bytes ev) (ev_validate_input ev) of
        Inl e \<Rightarrow> eval_failed ev False e
      | Inr input_bytes \<Rightarrow>
          try_except (run_guest ev on_enter_wasm input_bytes entrypoint_id) (eval_failed ev True))"

section \<open>Lemmas on chains\<close>

text \<open>The objects reachable along the links, in order; the walk looks at these and no others.\<close>

inductive chain_reach :: "exc_obj list \<Rightarrow> nat \<Rightarrow> nat \<Rightarrow> bool" for h i where
  here: "chain_reach h i i"
| link: "chain_reach h i j \<Longrightarrow> j < length h \<Longrightarrow> chain_next h j = Some k \<Longrightarrow> chain_reach h i k"

lemma chain_reach_front:
  "chain_reach h k j \<Longrightarrow> i < length h \<Longrightarrow> chain_next h i = Some k \<Longrightarrow> chain_reach h i j"
  by (induction rule: chain_reach.induct) (auto intro: chain_reach.intros)

lemma chain_find_Some:
  "chain_find P h seen cur = Some j \<Longrightarrow> j < length h \<and> P (h ! j) \<and> (\<exists>i. cur = Some i \<and> chain_reach h i j)"
proof (induction P h seen cur rule: chain_find.induct)
  case (2 P h seen i)
  show ?case
  proof (cases "P (h ! i)")
    case True
    then show ?thesis using 2(2) by (auto split: if_splits intro: chain_reach.here)
  next
    case False
    then have g: "\<not> (i \<in> set seen \<or> length h \<le> i)" "chain_find P h (i # seen) (chain_next h i) = Some j"
      using 2(2) by (auto split: if_splits)
    from 2(1) [OF g(1) False g(2)] obtain k where k: "j < length h" "P (h ! j)"
      "chain_next h i = Some k" "chain_reach h k j" by blast
    have "chain_reach h i j" using chain_reach_front [OF k(4) _ k(3)] g(1) by simp
    then show ?thesis using k by blast
  qed
qed simp

text \<open>
  A walk that finds nothing has seen a set of objects that is closed under the links and holds
  no match: so nothing on the chain matches, however the links loop.
\<close>

lemma chain_find_None:
  assumes "chain_find P h seen cur = None"
    and "\<forall>x \<in> set seen. \<not> P (h ! x) \<and> (\<forall>y. chain_next h x = Some y \<longrightarrow> y \<in> set seen \<or> cur = Some y)"
  shows "\<exists>S. set seen \<union> set_option cur \<subseteq> S
    \<and> (\<forall>x \<in> S. x < length h \<longrightarrow> \<not> P (h ! x) \<and> set_option (chain_next h x) \<subseteq> S)"
  using assms
proof (induction P h seen cur rule: chain_find.induct)
  case (1 P h seen)
  then show ?case by (intro exI [of _ "set seen"]) auto
next
  case (2 P h seen i)
  show ?case
  proof (cases "i \<in> set seen \<or> length h \<le> i")
    case True
    then show ?thesis using 2(3) by (intro exI [of _ "insert i (set seen)"]) auto
  next
    case False
    then have g: "\<not> P (h ! i)" "chain_find P h (i # seen) (chain_next h i) = None"
      using 2(2) by (auto split: if_splits)
    have "\<exists>S. set (i # seen) \<union> set_option (chain_next h i) \<subseteq> S
      \<and> (\<forall>x \<in> S. x < length h \<longrightarrow> \<not> P (h ! x) \<and> set_option (chain_next h x) \<subseteq> S)"
      using 2(3) g by (intro 2(1) [OF False]) auto
    then show ?thesis by (elim exE) (rule exI, auto)
  qed
qed

lemma chain_find_None_reach:
  assumes "chain_find P h [] (Some i) = None" and "chain_reach h i j" and "j < length h"
  shows "\<not> P (h ! j)"
proof -
  obtain S where S: "i \<in> S"
    "\<forall>x \<in> S. x < length h \<longrightarrow> \<not> P (h ! x) \<and> set_option (chain_next h x) \<subseteq> S"
    using chain_find_None [OF assms(1)] by auto
  from assms(2) have "j \<in> S" by (induction rule: chain_reach.induct) (use S in auto)
  then show ?thesis using S assms(3) by blast
qed

lemma find_typed_Some:
  "find_typed_in_chain e = Some j \<Longrightarrow> j < length (exc_objs e) \<and> is_opa_error (eo_class (exc_objs e ! j))
     \<and> chain_reach (exc_objs e) (exc_root e) j"
  unfolding find_typed_in_chain_def using chain_find_Some by fastforce

section \<open>Lemmas on evaluations\<close>

subsection \<open>Frame\<close>

text \<open>The document of a manager: everything but the store and the extension.\<close>

definition same_doc :: "('s, 'z) dm_scheme \<Rightarrow> ('s, 'z) dm_scheme \<Rightarrow> bool" where
  "same_doc d d' \<longleftrightarrow> initial_heap_ptr d' = initial_heap_ptr d \<and> data_addr d' = data_addr d
     \<and> data_heap_ptr d' = data_heap_ptr d"

text \<open>Invariants that do not look at the store are kept by every step but the callback.\<close>

definition store_free :: "(('s, 'z) dm_scheme \<Rightarrow> bool) \<Rightarrow> bool" where
  "store_free I \<longleftrightarrow> (\<forall>d s. I d \<longrightarrow> I (d\<lparr>dm_store := s\<rparr>))"

lemma store_free_same_doc: "store_free (same_doc d)"
  by (simp add: store_free_def same_doc_def)

lemma keeps_store_free [keeps_intros]: "store_free I \<Longrightarrow> keeps I (on_store m)"
  by (intro keeps_on_store) (simp add: store_free_def)

lemma keeps_reset: "store_free I \<Longrightarrow> keeps I (reset_heap_to_checkpoint ab)"
  unfolding reset_heap_to_checkpoint_def by (intro keeps_bnd keeps_reading keeps_store_free)

lemma keeps_deadline:
  "store_free I \<Longrightarrow> keeps I (arm_deadline ev)" "store_free I \<Longrightarrow> keeps I (disarm_deadline ev)"
  unfolding arm_deadline_def disarm_deadline_def
  by (auto intro!: keeps_ret keeps_store_free split: option.splits)

lemma keeps_eval_failed: "store_free I \<Longrightarrow> keeps I (eval_failed ev b e)"
  unfolding eval_failed_def reset_heap_if_safe_def
  by (auto intro!: keeps_bnd keeps_raise keeps_ret keeps_reset split: option.splits)

lemma keeps_after_entry:
  "store_free I \<Longrightarrow> (\<And>cb. on_enter = Some cb \<Longrightarrow> keeps I cb) \<Longrightarrow> keeps I (run_guest ev on_enter raw ep)"
  unfolding run_guest_def
  by (intro keeps_bnd keeps_reset keeps_deadline keeps_store_free keeps_reading keeps_ret)
    (auto intro: keeps_ret split: option.splits)

lemma keeps_evaluate:
  assumes "store_free I" and "\<And>cb. on_enter = Some cb \<Longrightarrow> keeps I cb"
  shows "keeps I (evaluate ev on_enter v ep)"
  unfolding evaluate_def
  by (auto split: sum.split intro!: keeps_try_except keeps_after_entry keeps_eval_failed assms)

subsection \<open>Errors\<close>

text \<open>Whatever is raised after the guest was entered leaves as a typed error.\<close>

lemma eval_failed_entered_typed:
  "raises_in (\<lambda>x. is_exception (exc_class_of x) \<longrightarrow> is_opa_error (exc_class_of x)) (eval_failed ev True e)"
proof -
  have "is_opa_error (exc_class_of (reraise_from j e))" if "find_typed_in_chain e = Some j" for j
    using find_typed_Some [OF that] by simp
  then show ?thesis
    unfolding eval_failed_def reset_heap_if_safe_def
    by (auto intro!: raises_bnd raises_ret raises_raise simp: PASSTHROUGH_ERRORS_def split: option.splits)
qed

lemma evaluate_entered_typed:
  "encode_input (ev_codec ev) v (ev_max_input_bytes ev) (ev_validate_input ev) = Inr raw \<Longrightarrow>
   raises_in (\<lambda>x. is_exception (exc_class_of x) \<longrightarrow> is_opa_error (exc_class_of x)) (evaluate ev on_enter v ep)"
  unfolding evaluate_def by (auto intro!: raises_try_except eval_failed_entered_typed)

text \<open>
  Before the guest is entered nothing but the heap reset runs in it; on a working guest the
  error of the serialisation comes out as a typed error with the heap at the checkpoint.
\<close>

lemma eval_failed_before_entry:
  assumes "heap_ok (ev_abi ev) hp" and "dm_inv d" and "is_exception (exc_class_of e)"
  obtains s e' where "eval_failed ev False e d = (Inl e', d\<lparr>dm_store := s\<rparr>)" "hp s = data_heap_ptr d"
    "is_opa_error (exc_class_of e')" "is_opa_error (exc_class_of e) \<Longrightarrow> exc_class_of e' = exc_class_of e"
proof -
  obtain s where s: "reset_heap_to_checkpoint (ev_abi ev) d = (Inr (), d\<lparr>dm_store := s\<rparr>)" "hp s = data_heap_ptr d"
    using reset_heap [OF assms(1,2)] .
  have root: "find_typed_in_chain e = Some (exc_root e)" if "is_opa_error (exc_class_of e)"
    using that by (auto simp: find_typed_in_chain_def exc_class_of_def split: if_splits)
  let ?e' = "if exc_class_of e \<in> set PASSTHROUGH_ERRORS then e
    else case find_typed_in_chain e of Some j \<Rightarrow> reraise_from j e
      | None \<Rightarrow> raise_from OpaEvaluationError ''evaluation failed'' e"
  have "eval_failed ev False e d = (Inl ?e', d\<lparr>dm_store := s\<rparr>)"
    using assms(3) s(1) by (auto simp: eval_failed_def reset_heap_if_safe_def act_simps split: option.splits)
  moreover have "is_opa_error (exc_class_of ?e')"
    using find_typed_Some [of e] by (auto simp: PASSTHROUGH_ERRORS_def split: option.splits)
  moreover have "exc_class_of ?e' = exc_class_of e" if "is_opa_error (exc_class_of e)"
    using find_typed_Some [OF root [OF that]] root [OF that] by (simp add: exc_class_of_def [of e])
  ultimately show thesis using s(2) that by blast
qed

subsection \<open>Successful evaluations\<close>

lemma on_store_iff:
  "on_store m d = (r, d') \<longleftrightarrow> (\<exists>s. m (dm_store d) = (r, s) \<and> d' = d\<lparr>dm_store := s\<rparr>)"
  by (cases "m (dm_store d)") (auto simp: on_store_run)

text \<open>
  Each call of a successful evaluation, in order; the states are those of the store, the
  callback runs on the whole instance first.
\<close>

lemma run_guest_trace:
  assumes "run_guest ev None raw ep d = (Inr result, d')"
  obtains s0 s1 addr s2 hp s3 raddr s4 s5 s6 where
    "s0 = (case ev_deadline_ticks ev of None \<Rightarrow> dm_store d
       | Some n \<Rightarrow> wt_set_epoch_deadline (ab_wasm (ev_abi ev)) n (dm_store d))"
    "opa_heap_ptr_set (ev_abi ev) (data_heap_ptr d) s0 = (Inr (), s1)"
    "write_bytes (ev_codec ev) raw s1 = (Inr addr, s2)"
    "opa_heap_ptr_get (ev_abi ev) s2 = (Inr hp, s3)"
    "opa_eval (ev_abi ev) ep (data_addr d) addr (int (length raw)) hp s3 = (Inr raddr, s4)"
    "read_json_cstring (ev_codec ev) raddr (Some (ev_max_result_bytes ev)) s4 = (Inr result, s5)"
    "opa_heap_ptr_set (ev_abi ev) (data_heap_ptr d) s5 = (Inr (), s6)"
    "d' = d\<lparr>dm_store := (case ev_deadline_ticks ev of None \<Rightarrow> s6
       | Some n \<Rightarrow> wt_set_epoch_deadline (ab_wasm (ev_abi ev)) NO_DEADLINE_TICKS s6)\<rparr>"
proof -
  have "\<exists>s1 addr s2 hp s3 raddr s4 s5 s6.
    opa_heap_ptr_set (ev_abi ev) (data_heap_ptr d) (case ev_deadline_ticks ev of None \<Rightarrow> dm_store d
       | Some n \<Rightarrow> wt_set_epoch_deadline (ab_wasm (ev_abi ev)) n (dm_store d)) = (Inr (), s1)
    \<and> write_bytes (ev_codec ev) raw s1 = (Inr addr, s2)
    \<and> opa_heap_ptr_get (ev_abi ev) s2 = (Inr hp, s3)
    \<and> opa_eval (ev_abi ev) ep (data_addr d) addr (int (length raw)) hp s3 = (Inr raddr, s4)
    \<and> read_json_cstring (ev_codec ev) raddr (Some (ev_max_result_bytes ev)) s4 = (Inr result, s5)
    \<and> opa_heap_ptr_set (ev_abi ev) (data_heap_ptr d) s5 = (Inr (), s6)
    \<and> d' = d\<lparr>dm_store := (case ev_deadline_ticks ev of None \<Rightarrow> s6
       | Some n \<Rightarrow> wt_set_epoch_deadline (ab_wasm (ev_abi ev)) NO_DEADLINE_TICKS s6)\<rparr>"
    using assms
    unfolding run_guest_def arm_deadline_def disarm_deadline_def reset_heap_to_checkpoint_def
      set_epoch_deadline_def clear_epoch_deadline_def rt_set_epoch_deadline_def rt_clear_epoch_deadline_def
    by (cases "ev_deadline_ticks ev")
      (auto elim!: bnd_InrE simp: ret_run reading_run on_store_iff updating_run)
  then show thesis using that by blast
qed

lemma run_guest_Some: "run_guest ev (Some cb) raw ep = bnd cb (\<lambda>_. run_guest ev None raw ep)"
  by (simp add: run_guest_def bnd_def ret_def fun_eq_iff split: prod.splits sum.splits)

text \<open>
  What else a working guest and its store keep, through the views \<open>hp\<close> of the heap pointer,
  \<open>dl\<close> of the epoch deadline and \<open>mem\<close> of the memory: deadlines and host writes do not move
  the heap pointer, and an allocated block lies below the heap pointer afterwards.
\<close>

definition deadline_ok :: "'s wasm \<Rightarrow> ('s \<Rightarrow> int) \<Rightarrow> ('s \<Rightarrow> int) \<Rightarrow> bool" where
  "deadline_ok w hp dl \<longleftrightarrow> (\<forall>n s. hp (wt_set_epoch_deadline w n s) = hp s \<and> dl (wt_set_epoch_deadline w n s) = n)"

definition malloc_ok :: "'s abi \<Rightarrow> ('s \<Rightarrow> int) \<Rightarrow> bool" where
  "malloc_ok ab hp \<longleftrightarrow> (\<forall>n a s s'. opa_malloc ab n s = (Inr a, s') \<longrightarrow> a + n \<le> hp s')
     \<and> (\<forall>b i s r s'. wt_memory_write (ab_wasm ab) b i s = (r, s') \<longrightarrow> hp s' = hp s)"

text \<open>The state a successful run leaves: the document as it was, the heap at the checkpoint.\<close>

lemma run_guest_success:
  assumes "heap_ok (ev_abi ev) hp" and "deadline_ok (ab_wasm (ev_abi ev)) hp dl" and "dm_inv d"
    and "run_guest ev None raw ep d = (Inr result, d')"
  shows "hp (dm_store d') = data_heap_ptr d"
    and "ev_deadline_ticks ev \<noteq> None \<Longrightarrow> dl (dm_store d') = NO_DEADLINE_TICKS"
proof -
  obtain s5 s6 where s: "opa_heap_ptr_set (ev_abi ev) (data_heap_ptr d) s5 = (Inr (), s6)"
    "d' = d\<lparr>dm_store := (case ev_deadline_ticks ev of None \<Rightarrow> s6
       | Some n \<Rightarrow> wt_set_epoch_deadline (ab_wasm (ev_abi ev)) NO_DEADLINE_TICKS s6)\<rparr>"
    using run_guest_trace [OF assms(4)] by blast
  obtain s' where "opa_heap_ptr_set (ev_abi ev) (data_heap_ptr d) s5 = (Inr (), s')" "hp s' = data_heap_ptr d"
    using heap_set [OF assms(1)] assms(3) unfolding dm_inv_def by blast
  then have "hp s6 = data_heap_ptr d" using s(1) by simp
  then show "hp (dm_store d') = data_heap_ptr d"
    using s(2) assms(2) by (auto simp: deadline_ok_def split: option.splits)
  show "ev_deadline_ticks ev \<noteq> None \<Longrightarrow> dl (dm_store d') = NO_DEADLINE_TICKS"
    using s(2) assms(2) by (auto simp: deadline_ok_def)
qed

lemma write_bytes_calls:
  assumes "write_bytes cd data s = (Inr addr, t)"
  obtains s' where "opa_malloc (cd_abi cd) (int (length data)) s = (Inr addr, s')"
    and "memory_write (cd_abi cd) addr data s' = (Inr (), t)"
  using assms unfolding write_bytes_def by (auto simp: act_simps split: if_splits prod.splits sum.splits)

text \<open>
  The guest evaluates on the input as it was serialised, its scratch base lies past it, and the
  result is the parse of what it answered.
\<close>

definition faithful_eval ::
  "'s evaluator \<Rightarrow> ('s \<Rightarrow> bytes) \<Rightarrow> bytes \<Rightarrow> int \<Rightarrow> int \<Rightarrow> pyval \<Rightarrow> bool" where
  "faithful_eval ev mem raw ep da result \<longleftrightarrow> (\<exists>addr base s raddr s' answer.
     opa_eval (ev_abi ev) ep da addr (int (length raw)) base s = (Inr raddr, s')
     \<and> region (mem s) addr (length raw) = raw \<and> 0 < addr \<and> addr + int (length raw) \<le> base
     \<and> cstring_at (mem s') raddr (cd_max_cstring_scan_bytes (ev_codec ev)) = Some answer
     \<and> int (length answer) \<le> ev_max_result_bytes ev
     \<and> json_loads_bytes (cd_float (ev_codec ev)) answer = Inr result)"

lemma run_guest_faithful:
  assumes "memory_ok (ab_wasm (ev_abi ev)) mem" and "heap_ok (ev_abi ev) hp" and "malloc_ok (ev_abi ev) hp"
    and "run_guest ev None raw ep d = (Inr result, d')"
  shows "faithful_eval ev mem raw ep (data_addr d) result"
proof -
  obtain s1 addr s2 base s3 raddr s4 s5 where s:
    "write_bytes (ev_codec ev) raw s1 = (Inr addr, s2)"
    "opa_heap_ptr_get (ev_abi ev) s2 = (Inr base, s3)"
    "opa_eval (ev_abi ev) ep (data_addr d) addr (int (length raw)) base s3 = (Inr raddr, s4)"
    "read_json_cstring (ev_codec ev) raddr (Some (ev_max_result_bytes ev)) s4 = (Inr result, s5)"
    by (rule run_guest_trace [OF assms(4)])
  have g: "s3 = s2" "base = hp s2" using s(2) assms(2) by (auto simp: heap_ok_def)
  obtain sm where sm: "opa_malloc (ev_abi ev) (int (length raw)) s1 = (Inr addr, sm)"
    "memory_write (ev_abi ev) addr raw sm = (Inr (), s2)"
    using s(1) by (rule write_bytes_calls)
  have "addr + int (length raw) \<le> base"
    using assms(3) sm g(2) unfolding malloc_ok_def memory_write_def by metis
  moreover obtain answer where
    "cstring_at (mem s4) raddr (cd_max_cstring_scan_bytes (ev_codec ev)) = Some answer"
    "int (length answer) \<le> ev_max_result_bytes ev" "json_loads_bytes (cd_float (ev_codec ev)) answer = Inr result"
    by (rule read_json_cstring_Inr [OF assms(1) s(4)])
  ultimately show ?thesis unfolding faithful_eval_def
    using write_bytes_region [OF assms(1) s(1)] s(3) g(1)
    by (intro exI [of _ addr] exI [of _ base] exI [of _ s2] exI [of _ raddr] exI [of _ s4] exI [of _ answer]) simp
qed

section \<open>The owner's callback\<close>

text \<open>
  The evaluator calls its owner back once, when it enters the guest. What it relies on: the
  callback returns, touches only the owner's own fields, and the owner's flag is set by it
  and depends on nothing else.
\<close>

locale wasm_entry =
  fixes cb :: "(('s, 'z) dm_scheme, exc, unit) act"
    and entered :: "('s, 'z) dm_scheme \<Rightarrow> bool"
  assumes cb_run: "\<exists>m. cb d = (Inr (), dm.more_update (\<lambda>_. m) d)"
    and cb_enters: "entered (snd (cb d))"
    and entered_more: "dm.more d = dm.more d' \<Longrightarrow> entered d = entered d'"
begin

lemma keeps_entered: "store_free entered"
  unfolding store_free_def using entered_more [of "d\<lparr>dm_store := s\<rparr>" d for d s] by simp

lemma cb_keeps_doc: "keeps (same_doc d) cb"
proof -
  have "same_doc d (snd (cb d'))" if "same_doc d d'" for d'
    using cb_run [of d'] that by (auto simp: same_doc_def)
  then show ?thesis by (simp add: keeps_def)
qed

lemma cb_keeps_entered: "keeps entered cb"
  using cb_enters by (simp add: keeps_def)

text \<open>The flag records exactly whether the guest was entered.\<close>

lemma evaluate_entered:
  assumes "\<not> entered d" and "evaluate ev (Some cb) v ep d = (r, d')"
  shows "entered d' \<longleftrightarrow>
    (\<exists>raw. encode_input (ev_codec ev) v (ev_max_input_bytes ev) (ev_validate_input ev) = Inr raw)"
proof (cases "encode_input (ev_codec ev) v (ev_max_input_bytes ev) (ev_validate_input ev)")
  case (Inl e)
  have "store_free (\<lambda>x. \<not> entered x)"
    unfolding store_free_def using entered_more [of "d\<lparr>dm_store := s\<rparr>" d for d s] by simp
  then have "\<not> entered d'"
    using keepsD [OF keeps_eval_failed, of "\<lambda>x. \<not> entered x" d ev False e r d'] Inl assms
    by (simp add: evaluate_def)
  with Inl show ?thesis by simp
next
  case (Inr raw)
  let ?m = "try_except (\<lambda>d. run_guest ev None raw ep d) (eval_failed ev True)"
  obtain d1 where d1: "cb d = (Inr (), d1)" "entered d1"
    using cb_run [of d] cb_enters [of d] by auto
  have "keeps entered ?m"
    using keeps_entered by (auto intro!: keeps_try_except keeps_after_entry keeps_eval_failed)
  moreover have "?m d1 = (r, d')"
    using assms(2) Inr d1(1) by (simp add: evaluate_def run_guest_Some act_simps)
  ultimately have "entered d'" using keepsD [of entered ?m d1 r d'] d1(2) by blast
  with Inr show ?thesis by simp
qed

lemma evaluate_same_doc:
  assumes "evaluate ev (Some cb) v ep d = (r, d')"
  shows "same_doc d d'"
proof -
  have "keeps (same_doc d) (evaluate ev (Some cb) v ep)"
    by (rule keeps_evaluate) (auto intro: store_free_same_doc cb_keeps_doc)
  from keepsD [OF this _ assms] show ?thesis by (simp add: same_doc_def)
qed

text \<open>A successful evaluation is a successful run after the callback.\<close>

lemma evaluate_success:
  assumes "evaluate ev (Some cb) v ep d = (Inr result, d')"
  obtains raw d1 where "encode_input (ev_codec ev) v (ev_max_input_bytes ev) (ev_validate_input ev) = Inr raw"
    and "run_guest ev None raw ep d1 = (Inr result, d')" and "same_doc d d1" and "dm_store d1 = dm_store d"
proof -
  have nf: "eval_failed ev b e x \<noteq> (Inr result, y)" for b e x y
    by (auto simp: eval_failed_def act_simps reset_heap_if_safe_def split: prod.splits sum.splits option.splits)
  obtain raw where raw: "encode_input (ev_codec ev) v (ev_max_input_bytes ev) (ev_validate_input ev) = Inr raw"
    using assms nf by (auto simp: evaluate_def split: sum.splits)
  obtain m where m: "cb d = (Inr (), dm.more_update (\<lambda>_. m) d)" using cb_run by blast
  have "run_guest ev None raw ep (dm.more_update (\<lambda>_. m) d) = (Inr result, d')"
    using assms raw m nf by (auto simp: evaluate_def run_guest_Some act_simps split: prod.splits sum.splits)
  from that [OF raw this] show thesis by (simp add: same_doc_def)
qed

end

end
