(* ===== verification/Simulation.thy ===== *)
theory Simulation
  imports Prelude
begin

text \<open>
  Functional refinement, stated once: a component whose operations keep an invariant and
  agree, through an abstraction function, with those of an abstract one gives the same results
  on every sequence of operations. Components interpret the locale on their own operations.
\<close>

section \<open>Sequences of operations\<close>

fun run_ops :: "('op \<Rightarrow> 'c \<Rightarrow> 'r \<times> 'c) \<Rightarrow> 'op list \<Rightarrow> 'c \<Rightarrow> 'r list \<times> 'c" where
  "run_ops step [] c = ([], c)"
| "run_ops step (x # xs) c = (case step x c of (r, c') \<Rightarrow>
     (case run_ops step xs c' of (rs, c'') \<Rightarrow> (r # rs, c'')))"

locale simulation =
  fixes step :: "'op \<Rightarrow> 'c \<Rightarrow> 'r \<times> 'c"
    and spec :: "'op \<Rightarrow> 'a \<Rightarrow> 'r \<times> 'a"
    and abs :: "'c \<Rightarrow> 'a"
    and inv :: "'c \<Rightarrow> bool"
  assumes step_inv: "inv c \<Longrightarrow> step x c = (r, c') \<Longrightarrow> inv c'"
    and step_abs: "inv c \<Longrightarrow> step x c = (r, c') \<Longrightarrow> spec x (abs c) = (r, abs c')"
begin

lemma run_inv: "inv c \<Longrightarrow> run_ops step xs c = (rs, c') \<Longrightarrow> inv c'"
  by (induction xs arbitrary: c rs) (auto split: prod.splits dest: step_inv)

lemma run_abs: "inv c \<Longrightarrow> run_ops step xs c = (rs, c') \<Longrightarrow> run_ops spec xs (abs c) = (rs, abs c')"
proof (induction xs arbitrary: c rs c')
  case (Cons x xs)
  obtain r c1 where s: "step x c = (r, c1)" by fastforce
  obtain rs1 c2 where t: "run_ops step xs c1 = (rs1, c2)" by fastforce
  from Cons.IH [OF step_inv [OF Cons.prems(1) s] t] Cons.prems(2) s t step_abs [OF Cons.prems(1) s]
  show ?case by auto
qed simp

end

end
