(* ===== verification/Builtins.thy ===== *)
theory Builtins
  imports Json_Accept Simulation "HOL-Library.AList" "HOL-Library.List_Lexorder"
begin

text \<open>
  \<^verbatim>\<open>opapywasm/builtins.py\<close>: the default builtins and the registry. A builtin is a
  function of its decoded arguments that returns a value or raises. What is not under
  \<^verbatim>\<open>src/\<close> is a parameter: PyYAML (absent, or its two functions), the interpreter's
  \<open>%\<close> operator on strings, and its \<open>repr\<close> of floats and containers.
\<close>

section \<open>Parameters\<close>

type_synonym builtin = "pyval list \<Rightarrow> exc + pyval"

record py_text =
  pt_float :: float_text
  pt_repr :: "pyval \<Rightarrow> pystr"
  pt_percent :: "pystr \<Rightarrow> pyval \<Rightarrow> exc + pystr"

record yaml_lib =
  safe_load :: "pystr \<Rightarrow> exc + pyval"
  safe_dump :: "pyval \<Rightarrow> exc + pystr"

section \<open>Python values\<close>

definition py_str :: "py_text \<Rightarrow> pyval \<Rightarrow> pystr" where
  "py_str pt v = (case v of
       PStr s \<Rightarrow> s
     | PInt i \<Rightarrow> int_repr i
     | PBool b \<Rightarrow> (if b then ustr ''True'' else ustr ''False'')
     | PNone \<Rightarrow> ustr ''None''
     | _ \<Rightarrow> pt_repr pt v)"

definition py_truthy :: "pyval \<Rightarrow> bool" where
  "py_truthy v = (case v of
       PNone \<Rightarrow> False | PBool b \<Rightarrow> b | PInt i \<Rightarrow> i \<noteq> 0
     | PFloat f \<Rightarrow> f \<noteq> 0 \<and> f \<noteq> 0x8000000000000000
     | PStr s \<Rightarrow> s \<noteq> [] | PBytes b \<Rightarrow> b \<noteq> [] | PList xs \<Rightarrow> xs \<noteq> [] | PDict kvs \<Rightarrow> kvs \<noteq> []
     | PObj n \<Rightarrow> True)"

definition type_name :: "pyval \<Rightarrow> string" where
  "type_name v = (case v of
       PNone \<Rightarrow> ''NoneType'' | PBool b \<Rightarrow> ''bool'' | PInt i \<Rightarrow> ''int'' | PFloat f \<Rightarrow> ''float''
     | PStr s \<Rightarrow> ''str'' | PBytes b \<Rightarrow> ''bytes'' | PList xs \<Rightarrow> ''list'' | PDict kvs \<Rightarrow> ''dict''
     | PObj n \<Rightarrow> ''object'')"

section \<open>sprintf\<close>

text \<open>\<open>%[#+ 0-9.\-]*[vTtbcdoqxXUeEfFgGsp%]\<close>: flags and verbs share no character.\<close>

definition is_flag :: "nat \<Rightarrow> bool" where
  "is_flag c \<longleftrightarrow> c \<in> set (ustr ''#+ 0123456789.-'')"

definition is_verb :: "nat \<Rightarrow> bool" where
  "is_verb c \<longleftrightarrow> c \<in> set (ustr ''vTtbcdoqxXUeEfFgGsp%'')"

text \<open>A match behind a percent sign: the matched text and the rest.\<close>

definition match_verb :: "pystr \<Rightarrow> (pystr \<times> pystr) option" where
  "match_verb r = (case dropWhile is_flag r of
       [] \<Rightarrow> None
     | c # r' \<Rightarrow> if is_verb c then Some (37 # takeWhile is_flag r @ [c], r') else None)"

definition go_dumps :: dumps_opts where
  "go_dumps = spaced"

definition format_verb :: "py_text \<Rightarrow> pystr \<Rightarrow> pyval \<Rightarrow> exc + pystr" where
  "format_verb pt verb operand =
     (let conv = last verb in
      if conv = of_char CHR ''T'' then Inr (ustr (type_name operand))
      else if conv = of_char CHR ''v'' then
        (case operand of
           PDict kvs \<Rightarrow> json_dumps (pt_float pt) go_dumps operand
         | PList xs \<Rightarrow> json_dumps (pt_float pt) go_dumps operand
         | PBool b \<Rightarrow> Inr (if b then ustr ''true'' else ustr ''false'')
         | _ \<Rightarrow> Inr (py_str pt operand))
      else if conv = of_char CHR ''t'' then Inr (if py_truthy operand then ustr ''true'' else ustr ''false'')
      else if conv = of_char CHR ''q'' then Inr (quote_str (py_str pt operand))
      else (case pt_percent pt verb operand of
          Inr s \<Rightarrow> Inr s
        | Inl e \<Rightarrow> if exc_class_of e = TypeError \<or> is_value_error (exc_class_of e)
            then Inr (py_str pt operand) else Inl e))"

lemma match_verb_length: "match_verb r = Some (v, r') \<Longrightarrow> length r' < length r"
proof -
  assume "match_verb r = Some (v, r')"
  then have "\<exists>c. dropWhile is_flag r = c # r'" by (auto simp: match_verb_def split: list.splits if_splits)
  then show ?thesis by (metis Suc_le_lessD length_Cons length_dropWhile_le)
qed

text \<open>The loop over \<open>finditer\<close>: literal text is copied, a verb other than \<open>%%\<close> takes an operand.\<close>

function sprintf_loop :: "py_text \<Rightarrow> pystr \<Rightarrow> pyval list \<Rightarrow> exc + pystr" where
  "sprintf_loop pt [] operands = Inr []"
| "sprintf_loop pt (c # r) operands =
     (if c = 37 then
        (case match_verb r of
           None \<Rightarrow> rbind (sprintf_loop pt r operands) (\<lambda>s. Inr (c # s))
         | Some (verb, r') \<Rightarrow>
             if verb = [37, 37] then rbind (sprintf_loop pt r' operands) (\<lambda>s. Inr (37 # s))
             else (case operands of
                 [] \<Rightarrow> Inl (raise_from OpaBuiltinError ''sprintf: not enough arguments for format''
                   (new_exc (OtherException ''StopIteration'') []))
               | x # xs \<Rightarrow> rbind (format_verb pt verb x) (\<lambda>a.
                   rbind (sprintf_loop pt r' xs) (\<lambda>s. Inr (a @ s)))))
      else rbind (sprintf_loop pt r operands) (\<lambda>s. Inr (c # s)))"
  by pat_completeness auto
termination
  by (relation "measure (\<lambda>(pt, fmt, operands). length fmt)") (auto dest: match_verb_length)

definition sprintf :: "py_text \<Rightarrow> pyval \<Rightarrow> pyval \<Rightarrow> exc + pyval" where
  "sprintf pt fmt operands = (case fmt of
       PStr f \<Rightarrow> (case operands of
           PList xs \<Rightarrow> rbind (sprintf_loop pt f xs) (\<lambda>s. Inr (PStr s))
         | _ \<Rightarrow> Inl (new_exc OpaBuiltinError ''sprintf: second argument must be an array''))
     | _ \<Rightarrow> Inl (new_exc OpaBuiltinError ''sprintf: format must be a string''))"

section \<open>JSON and YAML builtins\<close>

definition json_is_valid :: "float_text \<Rightarrow> pyval \<Rightarrow> exc + pyval" where
  "json_is_valid ft v = (case v of
       PStr s \<Rightarrow> (case json_loads_str ft s of
           Inr _ \<Rightarrow> Inr (PBool True)
         | Inl e \<Rightarrow> if is_value_error (exc_class_of e) then Inr (PBool False) else Inl e)
     | _ \<Rightarrow> Inr (PBool False))"

definition require_yaml :: "yaml_lib option \<Rightarrow> exc + yaml_lib" where
  "require_yaml y = (case y of
       Some lib \<Rightarrow> Inr lib
     | None \<Rightarrow> Inl (raise_from OpaBuiltinError ''YAML builtins require the optional dependency''
         (new_exc ImportError ''No module named yaml'')))"

definition yaml_is_valid :: "yaml_lib option \<Rightarrow> pyval \<Rightarrow> exc + pyval" where
  "yaml_is_valid y v = rbind (require_yaml y) (\<lambda>yaml. case v of
       PStr s \<Rightarrow> (case safe_load yaml s of
           Inr _ \<Rightarrow> Inr (PBool True)
         | Inl e \<Rightarrow> if is_exception (exc_class_of e) then Inr (PBool False) else Inl e)
     | _ \<Rightarrow> Inr (PBool False))"

definition yaml_marshal :: "yaml_lib option \<Rightarrow> pyval \<Rightarrow> exc + pyval" where
  "yaml_marshal y v = rbind (require_yaml y) (\<lambda>yaml. rbind (safe_dump yaml v) (\<lambda>s. Inr (PStr s)))"

definition yaml_unmarshal :: "yaml_lib option \<Rightarrow> pyval \<Rightarrow> exc + pyval" where
  "yaml_unmarshal y v = rbind (require_yaml y) (\<lambda>yaml. case v of
       PStr s \<Rightarrow> (case safe_load yaml s of
           Inr r \<Rightarrow> Inr r
         | Inl e \<Rightarrow> if is_exception (exc_class_of e)
             then Inl (raise_from OpaBuiltinError ''yaml.unmarshal: invalid YAML'' e) else Inl e)
     | _ \<Rightarrow> Inl (new_exc OpaBuiltinError ''yaml.unmarshal: argument must be a string''))"

text \<open>Calling a Python function with a wrong number of arguments raises \<open>TypeError\<close>.\<close>

definition arity1 :: "(pyval \<Rightarrow> exc + pyval) \<Rightarrow> builtin" where
  "arity1 f args = (case args of [a] \<Rightarrow> f a | _ \<Rightarrow> Inl (new_exc TypeError ''wrong number of arguments''))"

definition arity2 :: "(pyval \<Rightarrow> pyval \<Rightarrow> exc + pyval) \<Rightarrow> builtin" where
  "arity2 f args = (case args of [a, b] \<Rightarrow> f a b | _ \<Rightarrow> Inl (new_exc TypeError ''wrong number of arguments''))"

definition default_builtins :: "py_text \<Rightarrow> yaml_lib option \<Rightarrow> (pystr \<times> builtin) list" where
  "default_builtins pt y = [
     (ustr ''sprintf'', arity2 (sprintf pt)),
     (ustr ''json.is_valid'', arity1 (json_is_valid (pt_float pt))),
     (ustr ''yaml.is_valid'', arity1 (yaml_is_valid y)),
     (ustr ''yaml.marshal'', arity1 (yaml_marshal y)),
     (ustr ''yaml.unmarshal'', arity1 (yaml_unmarshal y))]"

section \<open>The registry\<close>

text \<open>
  The registry holds a reference to the dictionary it has published; a snapshot is a read-only
  view of that dictionary object. So the dictionaries that were ever published are kept, a
  reference is an index, and \<open>register\<close> publishes a new dictionary (copy on write). \<open>None\<close> in
  place of a function is an object that is not callable.
\<close>

record 'f registry =
  rg_dicts :: "(pystr \<times> 'f) list list"
  rg_current :: nat

definition registry_init :: "(pystr \<times> 'f) list \<Rightarrow> 'f registry" where
  "registry_init initial = \<lparr>rg_dicts = [initial], rg_current = 0\<rparr>"

definition published :: "'f registry \<Rightarrow> (pystr \<times> 'f) list" where
  "published r = rg_dicts r ! rg_current r"

definition publish :: "(pystr \<times> 'f) list \<Rightarrow> 'f registry \<Rightarrow> 'f registry" where
  "publish updated r = \<lparr>rg_dicts = rg_dicts r @ [updated], rg_current = length (rg_dicts r)\<rparr>"

definition register :: "pystr \<Rightarrow> 'f option \<Rightarrow> bool \<Rightarrow> ('f registry, exc, unit) act" where
  "register name fn replace r =
     (case fn of
        None \<Rightarrow> (Inl (new_exc OpaBuiltinError ''builtin is not callable''), r)
      | Some f \<Rightarrow>
          if \<not> replace \<and> name \<in> set (map fst (published r))
          then (Inl (new_exc OpaBuiltinError ''builtin is already registered''), r)
          else (Inr (), publish (AList.update name f (published r)) r))"

definition unregister :: "pystr \<Rightarrow> ('f registry, exc, unit) act" where
  "unregister name r =
     (if name \<notin> set (map fst (published r))
      then (Inl (new_exc OpaBuiltinError ''builtin is not registered''), r)
      else (Inr (), publish (AList.delete name (published r)) r))"

text \<open>A snapshot is a reference; \<open>view\<close> is what reading it at a later time shows.\<close>

definition snapshot :: "'f registry \<Rightarrow> nat" where
  "snapshot r = rg_current r"

definition view :: "nat \<Rightarrow> 'f registry \<Rightarrow> pystr \<Rightarrow> 'f option" where
  "view ref r = map_of (rg_dicts r ! ref)"

definition names :: "'f registry \<Rightarrow> pystr list" where
  "names r = sort (map fst (published r))"

section \<open>The registry as a map\<close>

datatype 'f reg_op = Register pystr "'f option" bool | Unregister pystr

fun reg_step :: "'f reg_op \<Rightarrow> 'f registry \<Rightarrow> (exc + unit) \<times> 'f registry" where
  "reg_step (Register name fn replace) = register name fn replace"
| "reg_step (Unregister name) = unregister name"

text \<open>The specification: a finite map, and the three ways an operation can be refused.\<close>

fun reg_spec :: "'f reg_op \<Rightarrow> (pystr \<Rightarrow> 'f option) \<Rightarrow> (exc + unit) \<times> (pystr \<Rightarrow> 'f option)" where
  "reg_spec (Register name fn replace) m =
     (case fn of
        None \<Rightarrow> (Inl (new_exc OpaBuiltinError ''builtin is not callable''), m)
      | Some f \<Rightarrow>
          if \<not> replace \<and> m name \<noteq> None
          then (Inl (new_exc OpaBuiltinError ''builtin is already registered''), m)
          else (Inr (), m(name \<mapsto> f)))"
| "reg_spec (Unregister name) m =
     (if m name = None then (Inl (new_exc OpaBuiltinError ''builtin is not registered''), m)
      else (Inr (), m(name := None)))"

definition registry_inv :: "'f registry \<Rightarrow> bool" where
  "registry_inv r \<longleftrightarrow> rg_current r < length (rg_dicts r) \<and> distinct (map fst (published r))"

lemma registry_inv_init: "distinct (map fst initial) \<Longrightarrow> registry_inv (registry_init initial)"
  by (simp add: registry_inv_def registry_init_def published_def)

lemma published_publish [simp]: "published (publish d r) = d"
  by (simp add: published_def publish_def)

lemma current_publish [simp]: "rg_current (publish d r) < length (rg_dicts (publish d r))"
  by (simp add: publish_def)

lemma view_snapshot: "view (snapshot r) r = map_of (published r)"
  by (simp add: view_def snapshot_def published_def)

lemma registry_inv_publish: "registry_inv (publish d r) \<longleftrightarrow> distinct (map fst d)"
  by (simp add: registry_inv_def)

interpretation reg: simulation reg_step reg_spec "\<lambda>r. view (snapshot r) r" registry_inv
proof
  fix r r' :: "'f registry" and x :: "'f reg_op" and res
  assume "registry_inv r" and "reg_step x r = (res, r')"
  then show "registry_inv r'"
    by (cases x) (auto simp: register_def unregister_def registry_inv_publish distinct_update
        AList.distinct_delete registry_inv_def split: option.splits if_splits)
next
  fix r r' :: "'f registry" and x :: "'f reg_op" and res
  assume "registry_inv r" and "reg_step x r = (res, r')"
  then show "reg_spec x (view (snapshot r) r) = (res, view (snapshot r') r')"
    unfolding view_snapshot
    by (cases x) (auto simp: register_def unregister_def AList.update_conv' AList.delete_conv'
        map_of_eq_None_iff split: option.splits if_splits)
qed

text \<open>A snapshot shows the same functions however the registry changes afterwards.\<close>

lemma reg_step_dicts: "reg_step x r = (res, r') \<Longrightarrow> \<exists>ds. rg_dicts r' = rg_dicts r @ ds"
  by (cases x) (auto simp: register_def unregister_def publish_def split: option.splits if_splits)

lemma run_ops_dicts: "run_ops reg_step xs r = (rs, r') \<Longrightarrow> \<exists>ds. rg_dicts r' = rg_dicts r @ ds"
proof (induction xs arbitrary: r rs)
  case (Cons x xs)
  obtain res r1 where s: "reg_step x r = (res, r1)" by fastforce
  then show ?case using Cons reg_step_dicts [OF s] by (fastforce split: prod.splits)
qed simp

lemma snapshot_stable:
  assumes "registry_inv r" and "run_ops reg_step xs r = (rs, r')"
  shows "view (snapshot r) r' = view (snapshot r) r"
  using run_ops_dicts [OF assms(2)] assms(1)
  by (auto simp: view_def snapshot_def registry_inv_def nth_append)

section \<open>Lemmas on sprintf\<close>

text \<open>How many operands a format consumes.\<close>

function operands_needed :: "pystr \<Rightarrow> nat" where
  "operands_needed [] = 0"
| "operands_needed (c # r) =
     (if c = 37 then
        (case match_verb r of
           None \<Rightarrow> operands_needed r
         | Some (verb, r') \<Rightarrow> (if verb = [37, 37] then 0 else 1) + operands_needed r')
      else operands_needed r)"
  by pat_completeness auto
termination
  by (relation "measure length") (auto dest: match_verb_length)

lemma sprintf_loop_needs: "sprintf_loop pt fmt xs = Inr s \<Longrightarrow> operands_needed fmt \<le> length xs"
  by (induction pt fmt xs arbitrary: s rule: sprintf_loop.induct)
    (fastforce simp: rbind_eq_Inr split: if_splits option.splits list.splits)+

lemma sprintf_loop_extra:
  "operands_needed fmt \<le> length xs \<Longrightarrow> sprintf_loop pt fmt (xs @ ys) = sprintf_loop pt fmt xs"
  by (induction pt fmt xs rule: sprintf_loop.induct) (auto split: if_splits option.splits list.splits)

lemma sprintf_loop_short:
  assumes "length xs < operands_needed fmt" and "\<And>v x. x \<in> set xs \<Longrightarrow> \<exists>s. format_verb pt v x = Inr s"
  shows "\<exists>e. sprintf_loop pt fmt xs = Inl e \<and> exc_class_of e = OpaBuiltinError"
  using assms
proof (induction pt fmt xs rule: sprintf_loop.induct)
  case (2 pt c r xs)
  then show ?case
    by (fastforce simp: rbind_eq_Inl split: if_splits option.splits list.splits)
qed simp

lemma sprintf_loop_literal: "37 \<notin> set fmt \<Longrightarrow> sprintf_loop pt fmt xs = Inr fmt"
  by (induction fmt) auto

end
