(* ===== verification/Config.thy ===== *)
theory Config
  imports Complex_Main Errors
begin

text \<open>
  \<^verbatim>\<open>opapywasm/types.py\<close>: the configuration record, its validation, and the sentinel of
  an undefined decision. A timeout is a Python number: a finite one (its exact value), an
  infinity or not-a-number, since the comparisons of the validation treat these differently.
\<close>

section \<open>Numbers\<close>

datatype pynum = Fin rat | PosInf | NegInf | NotANum

text \<open>Python's \<open>x < y\<close> and \<open>x <= y\<close>: every comparison with not-a-number is false.\<close>

instantiation pynum :: ord
begin

fun less_pynum :: "pynum \<Rightarrow> pynum \<Rightarrow> bool" where
  "less_pynum (Fin x) (Fin y) = (x < y)"
| "less_pynum (Fin x) PosInf = True"
| "less_pynum NegInf (Fin y) = True"
| "less_pynum NegInf PosInf = True"
| "less_pynum _ _ = False"

definition less_eq_pynum :: "pynum \<Rightarrow> pynum \<Rightarrow> bool" where
  "less_eq_pynum x y = (x < y \<or> x = y \<and> x \<noteq> NotANum)"

instance ..

end

section \<open>PolicyConfig\<close>

text \<open>What a caller may pass as an entrypoint: a name or an id; \<open>bool\<close> is an \<open>int\<close> subclass.\<close>

datatype entrypoint = EpStr pystr | EpInt int | EpBool bool

record policy_config =
  pool_size :: int
  default_entrypoint :: "entrypoint option"
  borrow_timeout_seconds :: "pynum option"
  strict_result :: bool
  max_input_bytes :: int
  max_data_bytes :: int
  max_result_bytes :: int
  max_cstring_scan_bytes :: int
  parse_raw_json_input :: bool
  max_memory_pages :: "int option"
  eval_timeout_seconds :: "pynum option"
  strict_result_shape :: bool

definition default_config :: policy_config where
  "default_config = \<lparr>
     pool_size = 4,
     default_entrypoint = None,
     borrow_timeout_seconds = Some (Fin 5),
     strict_result = False,
     max_input_bytes = 1000000,
     max_data_bytes = 10000000,
     max_result_bytes = 10000000,
     max_cstring_scan_bytes = 10000000,
     parse_raw_json_input = True,
     max_memory_pages = Some 4096,
     eval_timeout_seconds = Some (Fin 30),
     strict_result_shape = True\<rparr>"

text \<open>\<open>__post_init__\<close>: the checks in their order; the first that fails raises.\<close>

fun check_limits :: "(string \<times> int) list \<Rightarrow> exc + unit" where
  "check_limits [] = Inr ()"
| "check_limits ((name, v) # r) =
     (if v < 1 then Inl (new_exc ValueError (name @ '' must be >= 1'')) else check_limits r)"

definition post_init :: "policy_config \<Rightarrow> exc + unit" where
  "post_init c =
     (if pool_size c < 1 then Inl (new_exc ValueError ''pool_size must be >= 1'')
      else if (case borrow_timeout_seconds c of None \<Rightarrow> False | Some t \<Rightarrow> t < Fin 0)
        then Inl (new_exc ValueError ''borrow_timeout_seconds must be >= 0 or None'')
      else if (case eval_timeout_seconds c of None \<Rightarrow> False | Some t \<Rightarrow> t \<le> Fin 0)
        then Inl (new_exc ValueError ''eval_timeout_seconds must be > 0 or None'')
      else if (case max_memory_pages c of None \<Rightarrow> False | Some p \<Rightarrow> p < 1)
        then Inl (new_exc ValueError ''max_memory_pages must be >= 1 or None'')
      else check_limits [(''max_input_bytes'', max_input_bytes c),
                         (''max_data_bytes'', max_data_bytes c),
                         (''max_result_bytes'', max_result_bytes c),
                         (''max_cstring_scan_bytes'', max_cstring_scan_bytes c)])"

text \<open>\<open>PolicyConfig(...)\<close>: a configuration object exists only once it is validated.\<close>

definition make_config :: "policy_config \<Rightarrow> exc + policy_config" where
  "make_config c = rbind (post_init c) (\<lambda>_. Inr c)"

section \<open>Undefined decisions\<close>

text \<open>
  What \<open>evaluate\<close> returns: a JSON value, or the sentinel \<open>UNDEFINED\<close>, which is falsy and
  different from a defined \<open>null\<close>.
\<close>

datatype 'a decision = UNDEFINED | Defined 'a

section \<open>Lemmas\<close>

text \<open>The configurations that pass.\<close>

definition valid_config :: "policy_config \<Rightarrow> bool" where
  "valid_config c \<longleftrightarrow> 1 \<le> pool_size c
     \<and> (\<forall>t. borrow_timeout_seconds c = Some t \<longrightarrow> \<not> t < Fin 0)
     \<and> (\<forall>t. eval_timeout_seconds c = Some t \<longrightarrow> \<not> t \<le> Fin 0)
     \<and> (\<forall>p. max_memory_pages c = Some p \<longrightarrow> 1 \<le> p)
     \<and> 1 \<le> max_input_bytes c \<and> 1 \<le> max_data_bytes c \<and> 1 \<le> max_result_bytes c
     \<and> 1 \<le> max_cstring_scan_bytes c"

lemma check_limits_Inr: "check_limits nvs = Inr () \<longleftrightarrow> (\<forall>nv \<in> set nvs. 1 \<le> snd nv)"
  by (induction nvs rule: check_limits.induct) auto

lemma check_limits_error: "check_limits nvs = Inl e \<Longrightarrow> exc_class_of e = ValueError"
  by (induction nvs rule: check_limits.induct) (auto split: if_splits)

lemma post_init_Inr: "post_init c = Inr () \<longleftrightarrow> valid_config c"
  unfolding post_init_def valid_config_def check_limits_Inr
  by (auto split: option.splits simp: not_less check_limits_Inr)

lemma post_init_error: "post_init c = Inl e \<Longrightarrow> exc_class_of e = ValueError"
  unfolding post_init_def by (auto split: if_splits dest: check_limits_error)

lemma valid_default_config: "valid_config default_config"
  by (simp add: valid_config_def default_config_def less_eq_pynum_def)

text \<open>Every refusal is a \<open>ValueError\<close>, and the default configuration is accepted.\<close>

lemma config_checked:
  "(post_init c = Inr () \<longleftrightarrow> valid_config c)
   \<and> (case post_init c of Inl e \<Rightarrow> exc_class_of e = ValueError | Inr _ \<Rightarrow> True)
   \<and> make_config default_config = Inr default_config"
  using post_init_Inr [of c] post_init_error [of c] post_init_Inr [of default_config] valid_default_config
  by (auto simp: make_config_def split: sum.splits)

end
