(* ===== verification/Py_Float.thy ===== *)
theory Py_Float
  imports Config "HOL-Library.Log_Nat"
begin

text \<open>
  The float arithmetic of the deadline computation: a finite Python float is its exact
  rational value, an operation is the exact result rounded to the nearest double, ties to
  even (53 bits of significand, least exponent \<open>-1074\<close>, overflow to infinity).
\<close>

section \<open>Rounding\<close>

definition round_half_even :: "rat \<Rightarrow> int" where
  "round_half_even x = (let f = \<lfloor>x\<rfloor>; d = x - of_int f in
     if d < 1 / 2 then f else if 1 / 2 < d then f + 1 else if even f then f else f + 1)"

text \<open>The binary exponent of a positive number, from the bit lengths of the fraction.\<close>

definition expo :: "rat \<Rightarrow> int" where
  "expo x = (let (a, b) = quotient_of x; k = bitlen a - bitlen b in
     if 2 powi k \<le> x then k else k - 1)"

definition fl_pos :: "rat \<Rightarrow> pynum" where
  "fl_pos x = (let e = max (expo x - 52) (- 1074);
                   r = of_int (round_half_even (x / 2 powi e)) * 2 powi e
               in if r < 2 ^ 1024 then Fin r else PosInf)"

definition fl :: "rat \<Rightarrow> pynum" where
  "fl x = (if x = 0 then Fin 0 else if 0 < x then fl_pos x
     else (case fl_pos (- x) of Fin r \<Rightarrow> Fin (- r) | _ \<Rightarrow> NegInf))"

section \<open>Lemmas\<close>

lemma round_half_even_error: "\<bar>of_int (round_half_even x) - x\<bar> \<le> 1 / 2"
proof -
  have "of_int \<lfloor>x\<rfloor> \<le> x" "x < of_int \<lfloor>x\<rfloor> + 1" by linarith+
  then show ?thesis unfolding round_half_even_def Let_def by (auto simp: abs_le_iff)
qed

lemma bitlen_pow:
  assumes "0 < a"
  shows "2 powi (bitlen a - 1) \<le> (of_int a :: rat)" and "(of_int a :: rat) < 2 powi (bitlen a)"
proof -
  have b: "2 ^ nat (bitlen a - 1) \<le> a" "a < 2 ^ nat (bitlen a)"
    using bitlen_bounds [OF assms] by auto
  have p: "0 < bitlen a" using assms by (auto simp: bitlen_alt_def)
  have "(2 :: rat) powi (bitlen a - 1) = of_int (2 ^ nat (bitlen a - 1))"
    using p by (simp add: power_int_def)
  then show "2 powi (bitlen a - 1) \<le> (of_int a :: rat)" using b(1) by (simp only: of_int_le_iff)
  have "(2 :: rat) powi (bitlen a) = of_int (2 ^ nat (bitlen a))"
    using p by (simp add: power_int_def)
  then show "(of_int a :: rat) < 2 powi (bitlen a)" using b(2) by (simp only: of_int_less_iff)
qed

lemma expo_bounds:
  assumes "0 < x"
  shows "2 powi (expo x) \<le> x" and "x < 2 powi (expo x + 1)"
proof -
  obtain a b where q: "quotient_of x = (a, b)" by fastforce
  have b: "0 < b" using quotient_of_denom_pos [OF q] .
  have x: "x = of_int a / of_int b" using quotient_of_div [OF q] .
  have a: "0 < a" using assms b unfolding x by (simp add: zero_less_divide_iff)
  let ?k = "bitlen a - bitlen b"
  have lo: "2 powi (?k - 1) < x"
  proof -
    have "(2::rat) powi (?k - 1) * 2 powi (bitlen b) = 2 powi (bitlen a - 1)"
      by (simp add: power_int_add [symmetric])
    moreover have "(2::rat) powi (?k - 1) * of_int b < 2 powi (?k - 1) * 2 powi (bitlen b)"
      using bitlen_pow(2) [OF b] by simp
    ultimately have "2 powi (?k - 1) * of_int b < (of_int a :: rat)"
      using bitlen_pow(1) [OF a] by linarith
    then show ?thesis unfolding x using b by (simp add: pos_less_divide_eq)
  qed
  have hi: "x < 2 powi (?k + 1)"
  proof -
    have "(2::rat) powi (?k + 1) * 2 powi (bitlen b - 1) = 2 powi (bitlen a)"
      by (simp add: power_int_add [symmetric])
    moreover have "(2::rat) powi (?k + 1) * 2 powi (bitlen b - 1) \<le> 2 powi (?k + 1) * of_int b"
      using bitlen_pow(1) [OF b] by simp
    ultimately have "(of_int a :: rat) < 2 powi (?k + 1) * of_int b"
      using bitlen_pow(2) [OF a] by linarith
    then show ?thesis unfolding x using b by (simp add: pos_divide_less_eq)
  qed
  show "2 powi (expo x) \<le> x" "x < 2 powi (expo x + 1)"
    using lo hi by (auto simp: expo_def q Let_def not_le)
qed

lemma expo_unique:
  assumes "2 powi k \<le> x" and "x < 2 powi (k + 1)"
  shows "expo x = k"
proof -
  have "0 < x" using assms(1) by (rule less_le_trans [rotated]) simp
  note b = expo_bounds [OF this]
  have "(2::rat) powi k < 2 powi (expo x + 1)" "(2::rat) powi (expo x) < 2 powi (k + 1)"
    using b assms by linarith+
  then have "\<not> expo x + 1 \<le> k" "\<not> k + 1 \<le> expo x"
    using power_int_increasing [of "expo x + 1" k "2 :: rat"]
      power_int_increasing [of "k + 1" "expo x" "2 :: rat"] by linarith+
  then show ?thesis by linarith
qed

text \<open>In the normal range the relative error of a rounding is at most one part in \<open>2^53\<close>.\<close>

lemma fl_error:
  assumes "1 / 1024 \<le> x" and "x \<le> 2 ^ 1000"
  obtains r where "fl x = Fin r" and "\<bar>r - x\<bar> \<le> x / 2 ^ 53"
proof -
  have x: "0 < x" using assms(1) by (rule less_le_trans [rotated]) simp
  have "(2::rat) powi (- 10) < 2 powi (expo x + 1)"
  proof -
    have "(2::rat) powi (- 10) = 1 / 1024" by (simp add: power_int_minus)
    then show ?thesis using assms(1) expo_bounds(2) [OF x] by linarith
  qed
  then have e: "- 10 < expo x + 1"
    using power_int_increasing [of "expo x + 1" "- 10" "2 :: rat"] by linarith
  define d where "d = expo x - 52"
  have m: "max (expo x - 52) (- 1074) = d" using e by (simp add: d_def)
  define r where "r = of_int (round_half_even (x / 2 powi d)) * (2::rat) powi d"
  have pd: "(0::rat) < 2 powi d" by simp
  have "r - x = (of_int (round_half_even (x / 2 powi d)) - x / 2 powi d) * 2 powi d"
    using pd by (simp add: r_def left_diff_distrib)
  then have "\<bar>r - x\<bar> = \<bar>of_int (round_half_even (x / 2 powi d)) - x / 2 powi d\<bar> * 2 powi d"
    using pd by (simp add: abs_mult)
  also have "\<dots> \<le> 1 / 2 * 2 powi d"
    using round_half_even_error [of "x / 2 powi d"] pd by (intro mult_right_mono) simp_all
  also have "\<dots> = 2 powi (expo x) / 2 ^ 53"
    unfolding d_def by (simp add: power_int_diff)
  also have "\<dots> \<le> x / 2 ^ 53" using expo_bounds(1) [OF x] by (simp add: divide_right_mono)
  finally have err: "\<bar>r - x\<bar> \<le> x / 2 ^ 53" .
  have "x / 2 ^ 53 \<le> x" using x by (simp add: field_simps)
  then have "r \<le> 2 * x" using err by linarith
  also have "\<dots> \<le> 2 * 2 ^ 1000" using assms(2) by simp
  also have "\<dots> < 2 ^ 1024" by simp
  finally have "fl x = Fin r" using x by (simp add: fl_def fl_pos_def m r_def Let_def)
  then show thesis using err that by blast
qed

end
