(* ===== verification/Ticker.thy ===== *)
theory Ticker
  imports Py_Float
begin

text \<open>
  \<open>EpochTicker\<close> of \<^verbatim>\<open>opapywasm/runtime.py\<close>: the shared thread that advances the engine
  epoch, its lazy start, its shutdown, and the conversion of a timeout into ticks. The
  threads that run \<open>_run\<close> are explicit, so that the lemmas can count them and follow them
  through every interleaving with callers of \<open>ensure_running\<close> and \<open>close\<close>.
\<close>

section \<open>Ticker state and operations\<close>

text \<open>A ticker thread is in \<open>_stop.wait\<close>, or about to call \<open>increment_epoch\<close>.\<close>

datatype run_pc = Waiting | Incrementing

record ticker =
  tk_thread :: bool
  tk_stop :: bool
  tk_threads :: "run_pc list"
  tk_epoch :: nat

definition ticker_init :: ticker where
  "ticker_init = \<lparr>tk_thread = False, tk_stop = False, tk_threads = [], tk_epoch = 0\<rparr>"

definition ensure_running :: "ticker \<Rightarrow> ticker" where
  "ensure_running t = (if tk_thread t \<or> tk_stop t then t
     else t\<lparr>tk_thread := True, tk_threads := tk_threads t @ [Waiting]\<rparr>)"

text \<open>\<open>close\<close> is two atomic steps: it sets the event, then takes the thread under the lock.\<close>

definition close_set_stop :: "ticker \<Rightarrow> ticker" where
  "close_set_stop t = t\<lparr>tk_stop := True\<rparr>"

definition close_take_thread :: "ticker \<Rightarrow> ticker" where
  "close_take_thread t = t\<lparr>tk_thread := False\<rparr>"

definition ticker_close :: "ticker \<Rightarrow> ticker" where
  "ticker_close t = close_take_thread (close_set_stop t)"

text \<open>
  One step of \<open>_run\<close> in the thread at position \<open>i\<close>: the wait ends with the thread if the
  event is set, and with one increment of the epoch otherwise.
\<close>

definition run_step :: "nat \<Rightarrow> ticker \<Rightarrow> ticker" where
  "run_step i t = (case tk_threads t ! i of
       Waiting \<Rightarrow> if tk_stop t
         then t\<lparr>tk_threads := take i (tk_threads t) @ drop (Suc i) (tk_threads t)\<rparr>
         else t\<lparr>tk_threads := (tk_threads t)[i := Incrementing]\<rparr>
     | Incrementing \<Rightarrow> t\<lparr>tk_threads := (tk_threads t)[i := Waiting], tk_epoch := Suc (tk_epoch t)\<rparr>)"

section \<open>Deadlines\<close>

text \<open>The double nearest to \<open>0.01\<close>.\<close>

definition tick_seconds :: rat where
  "tick_seconds = 5764607523034235 / 576460752303423488"

text \<open>\<open>math.ceil\<close> of a float; an infinity or not-a-number raises.\<close>

fun math_ceil :: "pynum \<Rightarrow> exc + int" where
  "math_ceil (Fin x) = Inr \<lceil>x\<rceil>"
| "math_ceil NotANum = Inl (new_exc ValueError ''cannot convert float NaN to integer'')"
| "math_ceil _ = Inl (new_exc (OtherException ''OverflowError'')
     ''cannot convert float infinity to integer'')"

text \<open>\<open>seconds / tick_seconds\<close>; a Python int operand is converted to a float first.\<close>

definition div_tick :: "pynum \<Rightarrow> pynum" where
  "div_tick s = (case s of
       Fin x \<Rightarrow> (case fl x of Fin y \<Rightarrow> fl (y / tick_seconds) | n \<Rightarrow> n)
     | n \<Rightarrow> n)"

definition deadline_ticks :: "pynum \<Rightarrow> exc + int" where
  "deadline_ticks s = rbind (math_ceil (div_tick s)) (\<lambda>n. Inr (max 1 n))"

lemma tick_is_double: "fl (1 / 100) = Fin tick_seconds"
proof -
  have "expo (1 / 100) = - 7" by (rule expo_unique) (simp_all add: power_int_minus)
  moreover have "\<lfloor>144115188075855872 / 25 :: rat\<rfloor> = 5764607523034234" by (rule floor_unique) simp_all
  ultimately show ?thesis
    by (simp add: fl_def fl_pos_def Let_def power_int_minus round_half_even_def tick_seconds_def)
qed

lemma tick_bounds: "1 / 100 \<le> tick_seconds" "tick_seconds \<le> 1 / 64" "0 < tick_seconds"
  by (simp_all add: tick_seconds_def)

text \<open>Errors: exactly the timeouts whose quotient is not finite.\<close>

lemma deadline_ticks_at_least_1: "deadline_ticks s = Inr n \<Longrightarrow> 1 \<le> n"
  by (auto simp: deadline_ticks_def rbind_eq_Inr)

lemma fl_near:
  assumes "1 / 1024 \<le> x" and "x \<le> 2 ^ 1000"
  obtains r where "fl x = Fin r" and "x * (1 - 1 / 2 ^ 53) \<le> r" and "r \<le> x * (1 + 1 / 2 ^ 53)"
proof -
  obtain r where r: "fl x = Fin r" "\<bar>r - x\<bar> \<le> x / 2 ^ 53" using fl_error [OF assms] .
  have "x * (1 - 1 / 2 ^ 53) = x - x / 2 ^ 53" "x * (1 + 1 / 2 ^ 53) = x + x / 2 ^ 53"
    by (simp_all add: algebra_simps)
  moreover have "x - x / 2 ^ 53 \<le> r" "r \<le> x + x / 2 ^ 53" using r(2) by linarith+
  ultimately show thesis using r(1) that by (simp only:)
qed

lemma two_roundings:
  fixes x y z c :: rat
  assumes "0 \<le> x" and "0 \<le> c" and "c \<le> 1" and "x * (1 - c) \<le> y" and "y \<le> x * (1 + c)"
    and "y * (1 - c) \<le> z" and "z \<le> y * (1 + c)"
  shows "x * (1 - 2 * c) \<le> z" and "z \<le> x * (1 + 4 * c)"
proof -
  have "x * (1 - 2 * c) \<le> x * (1 - c) * (1 - c)" using assms(1,2) by (simp add: algebra_simps)
  also have "\<dots> \<le> y * (1 - c)" using assms(3,4) by (intro mult_right_mono) simp_all
  finally show "x * (1 - 2 * c) \<le> z" using assms(6) by (rule order_trans)
  have "z \<le> y * (1 + c)" by (rule assms(7))
  also have "\<dots> \<le> x * (1 + c) * (1 + c)" using assms(2,5) by (intro mult_right_mono) simp_all
  also have "\<dots> = x * (1 + 2 * c + c * c)" by (simp add: algebra_simps)
  also have "\<dots> \<le> x * (1 + 4 * c)"
    using assms(1-3) mult_left_le [of c c] by (intro mult_left_mono) linarith+
  finally show "z \<le> x * (1 + 4 * c)" .
qed

text \<open>
  The quotient of a timeout between a millisecond and \<open>2^900\<close> seconds: two roundings away
  from the exact one.
\<close>

lemma div_tick_near:
  assumes "1 / 1000 \<le> x" and "x \<le> 2 ^ 900"
  obtains q where "div_tick (Fin x) = Fin q"
    and "x * (1 - 1 / 2 ^ 52) \<le> q * tick_seconds" and "q * tick_seconds \<le> x * (1 + 1 / 2 ^ 51)"
proof -
  have x: "0 < x" using assms(1) by (rule less_le_trans [rotated]) simp
  have up: "x \<le> 2 ^ 1000" using assms(2) by (rule order_trans) simp
  obtain y where y: "fl x = Fin y" "x * (1 - 1 / 2 ^ 53) \<le> y" "y \<le> x * (1 + 1 / 2 ^ 53)"
    by (rule fl_near [of x]) (use assms(1) up in linarith)+
  have "1 / 1024 \<le> 1 / 1000 * (1 - 1 / 2 ^ 53 :: rat)" by simp
  also have "\<dots> \<le> x * (1 - 1 / 2 ^ 53)" using assms(1) by (intro mult_right_mono) simp_all
  finally have ylo: "1 / 1024 \<le> y" using y(2) by (rule order_trans)
  have "x * (1 + 1 / 2 ^ 53) \<le> 2 ^ 900 * 2" using assms(2) x by (intro mult_mono) simp_all
  then have "y \<le> 2 ^ 900 * 2" using y(3) by (rule order_trans [rotated])
  also have "\<dots> \<le> 2 ^ 1000 * (1 / 100)" by simp
  also have "\<dots> \<le> 2 ^ 1000 * tick_seconds" using tick_bounds(1) by (intro mult_left_mono) simp_all
  finally have yhi: "y / tick_seconds \<le> 2 ^ 1000" using tick_bounds(3) by (simp only: pos_divide_le_eq)
  have "y * tick_seconds \<le> y" using ylo tick_bounds(2) by (intro mult_left_le) linarith+
  then have "y \<le> y / tick_seconds" using tick_bounds(3) by (simp only: pos_le_divide_eq)
  with ylo have ylo': "1 / 1024 \<le> y / tick_seconds" by (rule order_trans)
  obtain q where q: "fl (y / tick_seconds) = Fin q"
    "y / tick_seconds * (1 - 1 / 2 ^ 53) \<le> q" "q \<le> y / tick_seconds * (1 + 1 / 2 ^ 53)"
    by (rule fl_near [OF ylo' yhi])
  have t: "y / tick_seconds * d * tick_seconds = y * d" for d using tick_bounds(3) by simp
  have m: "y * (1 - 1 / 2 ^ 53) \<le> q * tick_seconds" "q * tick_seconds \<le> y * (1 + 1 / 2 ^ 53)"
    using mult_right_mono [OF q(2), of tick_seconds] mult_right_mono [OF q(3), of tick_seconds]
      tick_bounds(3) by (simp_all only: t less_imp_le)
  have c: "2 * (1 / 2 ^ 53) = (1 / 2 ^ 52 :: rat)" "4 * (1 / 2 ^ 53) = (1 / 2 ^ 51 :: rat)" by simp_all
  have "0 \<le> x" using x by (rule less_imp_le)
  note z = two_roundings [OF this _ _ y(2,3) m, unfolded c]
  have "x * (1 - 1 / 2 ^ 52) \<le> q * tick_seconds" by (rule z(1)) simp_all
  moreover have "q * tick_seconds \<le> x * (1 + 1 / 2 ^ 51)" by (rule z(2)) simp_all
  moreover have "div_tick (Fin x) = Fin q" using y(1) q(1) by (simp add: div_tick_def)
  ultimately show thesis using that by blast
qed

lemma deadline_ticks_near:
  assumes "1 / 1000 \<le> x" and "x \<le> 2 ^ 900"
  shows "\<exists>n. deadline_ticks (Fin x) = Inr n \<and> 1 \<le> n
    \<and> x * (1 - 1 / 2 ^ 52) \<le> of_int n * tick_seconds
    \<and> of_int n * tick_seconds \<le> x * (1 + 1 / 2 ^ 51) + tick_seconds"
proof -
  obtain q where q: "div_tick (Fin x) = Fin q"
    "x * (1 - 1 / 2 ^ 52) \<le> q * tick_seconds" "q * tick_seconds \<le> x * (1 + 1 / 2 ^ 51)"
    using div_tick_near [OF assms] .
  have "0 < x" using assms(1) by (rule less_le_trans [rotated]) simp
  then have "0 < x * (1 - 1 / 2 ^ 52)" by simp
  then have "0 < q * tick_seconds" using q(2) by (rule less_le_trans)
  then have "0 < q" using tick_bounds(3) by (simp add: zero_less_mult_iff)
  then have n: "max 1 \<lceil>q\<rceil> = \<lceil>q\<rceil>" by (simp add: max_def)
  have "q * tick_seconds \<le> of_int \<lceil>q\<rceil> * tick_seconds" "of_int \<lceil>q\<rceil> * tick_seconds \<le> (q + 1) * tick_seconds"
    using tick_bounds(3) by (auto intro!: mult_right_mono)
  moreover have "(q + 1) * tick_seconds = q * tick_seconds + tick_seconds"
    by (simp only: distrib_right mult_1)
  moreover have "deadline_ticks (Fin x) = Inr \<lceil>q\<rceil>" using q(1) n by (simp add: deadline_ticks_def)
  moreover have "1 \<le> \<lceil>q\<rceil>" using n by linarith
  ultimately show ?thesis using q(2,3) by (intro exI [of _ "\<lceil>q\<rceil>"] conjI) linarith+
qed

text \<open>An infinite timeout, or not-a-number, passes the configuration and fails here, with no typed error.\<close>

lemma unbounded_timeout:
  assumes "t = PosInf \<or> t = NotANum"
  shows "valid_config (default_config\<lparr>eval_timeout_seconds := Some t\<rparr>)"
    and "\<exists>e. deadline_ticks t = Inl e \<and> \<not> is_opa_error (exc_class_of e)"
  using assms
  by (auto simp: valid_config_def default_config_def less_eq_pynum_def deadline_ticks_def div_tick_def is_opa_error_def)

section \<open>Interleavings\<close>

text \<open>
  Steps of the threads of the process that concern one ticker: callers of \<open>ensure_running\<close>,
  callers of \<open>close\<close> (the second step of a caller comes after its first, so the event is set
  by then), and the ticker threads themselves.
\<close>

inductive ticker_step :: "ticker \<Rightarrow> ticker \<Rightarrow> bool" where
  Ensure: "ticker_step t (ensure_running t)"
| Set_stop: "ticker_step t (close_set_stop t)"
| Take_thread: "tk_stop t \<Longrightarrow> ticker_step t (close_take_thread t)"
| Run: "i < length (tk_threads t) \<Longrightarrow> ticker_step t (run_step i t)"

inductive_cases ticker_stepE: "ticker_step t t'"

definition ticker_inv :: "ticker \<Rightarrow> bool" where
  "ticker_inv t \<longleftrightarrow> length (tk_threads t) \<le> 1
     \<and> (\<not> tk_stop t \<longrightarrow> (tk_thread t \<longleftrightarrow> tk_threads t \<noteq> []))"

lemma ticker_inv_init: "ticker_inv ticker_init"
  by (simp add: ticker_inv_def ticker_init_def)

lemma run_step_length:
  "i < length (tk_threads t) \<Longrightarrow> length (tk_threads (run_step i t)) =
     (if tk_stop t \<and> tk_threads t ! i = Waiting then length (tk_threads t) - 1 else length (tk_threads t))"
  by (auto simp: run_step_def split: run_pc.splits)

lemma run_step_frame [simp]:
  "tk_stop (run_step i t) = tk_stop t" "tk_thread (run_step i t) = tk_thread t"
  by (auto simp: run_step_def split: run_pc.splits)

lemma ticker_inv_step: "ticker_step t t' \<Longrightarrow> ticker_inv t \<Longrightarrow> ticker_inv t'"
proof (induction rule: ticker_step.induct)
  case (Run i t)
  then show ?case using run_step_length [OF Run(1)]
    by (auto simp: ticker_inv_def simp flip: length_0_conv)
qed (auto simp: ticker_inv_def ensure_running_def close_set_stop_def close_take_thread_def)

lemma ticker_reach_inv: "ticker_step\<^sup>*\<^sup>* ticker_init t \<Longrightarrow> ticker_inv t"
  by (induction rule: rtranclp_induct) (auto intro: ticker_inv_init ticker_inv_step)

text \<open>Once the event is set it stays set, no thread is started any more and none is needed.\<close>

lemma stopped_step:
  "ticker_step t t' \<Longrightarrow> tk_stop t \<Longrightarrow> tk_stop t' \<and> length (tk_threads t') \<le> length (tk_threads t)
     \<and> tk_epoch t' + count_list (tk_threads t') Incrementing
        = tk_epoch t + count_list (tk_threads t) Incrementing"
proof (induction rule: ticker_step.induct)
  case (Run i t)
  then show ?case
    using count_list_update [of i "tk_threads t" _ Incrementing]
      count_list_remove [of i "tk_threads t" Incrementing]
    by (auto simp: run_step_def split: run_pc.splits if_splits)
qed (auto simp: ensure_running_def close_set_stop_def close_take_thread_def)

text \<open>
  A stopped ticker dies out: every step of a ticker thread brings it nearer to its end, and no
  other step adds work.
\<close>

definition ticker_work :: "ticker \<Rightarrow> nat" where
  "ticker_work t = length (tk_threads t) + count_list (tk_threads t) Incrementing"

lemma stopped_work_run:
  assumes "tk_stop t" and "i < length (tk_threads t)"
  shows "ticker_work (run_step i t) < ticker_work t"
proof (cases "tk_threads t ! i")
  case Waiting
  then show ?thesis using assms count_list_remove [of i "tk_threads t" Incrementing]
    by (auto simp: ticker_work_def run_step_def)
next
  case Incrementing
  then show ?thesis using assms count_list_update [of i "tk_threads t" Waiting Incrementing]
    by (auto simp: ticker_work_def run_step_def)
qed

lemma stopped_work_step:
  assumes "ticker_step t t'" and "tk_stop t"
  shows "ticker_work t' \<le> ticker_work t"
  using assms
proof (induction rule: ticker_step.induct)
  case (Run i t)
  then show ?case using stopped_work_run [of t i] by simp
qed (auto simp: ticker_work_def ensure_running_def close_set_stop_def close_take_thread_def)

section \<open>A running ticker ticks\<close>

text \<open>Two steps of the one thread advance the epoch by one, so a budget of \<open>n\<close> ticks runs out.\<close>

lemma run_step_twice:
  assumes "length (tk_threads t) = 1" and "\<not> tk_stop t"
  shows "tk_epoch (run_step 0 (run_step 0 t)) = Suc (tk_epoch t)"
    and "length (tk_threads (run_step 0 (run_step 0 t))) = 1" and "tk_stop (run_step 0 (run_step 0 t)) = tk_stop t"
proof -
  obtain pc where "tk_threads t = [pc]" using assms(1) by (auto simp: length_Suc_conv)
  then show "tk_epoch (run_step 0 (run_step 0 t)) = Suc (tk_epoch t)"
    and "length (tk_threads (run_step 0 (run_step 0 t))) = 1" and "tk_stop (run_step 0 (run_step 0 t)) = tk_stop t"
    using assms(2) by (cases pc; simp add: run_step_def)+
qed

lemma run_steps_epoch:
  assumes "length (tk_threads t) = 1" and "\<not> tk_stop t"
  shows "tk_epoch ((run_step 0 ^^ (2 * n)) t) = tk_epoch t + n
    \<and> length (tk_threads ((run_step 0 ^^ (2 * n)) t)) = 1 \<and> \<not> tk_stop ((run_step 0 ^^ (2 * n)) t)"
proof (induction n)
  case (Suc n)
  let ?u = "(run_step 0 ^^ (2 * n)) t"
  have "(run_step 0 ^^ (2 * Suc n)) t = run_step 0 (run_step 0 ?u)" by simp
  then show ?case using run_step_twice [of ?u] Suc by simp
qed (use assms in simp)

text \<open>After \<open>ensure_running\<close> on a ticker that is not stopped there is one thread.\<close>

lemma ensure_running_thread:
  assumes "ticker_inv t" and "\<not> tk_stop t"
  shows "length (tk_threads (ensure_running t)) = 1" and "\<not> tk_stop (ensure_running t)"
    and "tk_epoch (ensure_running t) = tk_epoch t" and "tk_thread (ensure_running t)"
  using assms by (auto simp: ticker_inv_def ensure_running_def le_Suc_eq)

end
