(* ===== verification/Instance.thy ===== *)
theory Instance
  imports Evaluator Builtins Ticker
begin

text \<open>
  \<^verbatim>\<open>opapywasm/instance.py\<close>: one policy instance. Its record extends the data manager's
  (theory \<open>Data\<close>) with the flags, the version tag and the metadata the instance keeps. What
  does not change during the life of an instance (the package, the configuration, the builtins
  registered at the moment) is the environment \<open>ie\<close>.
\<close>

section \<open>Environment and state\<close>

record 's ienv =
  ie_wasm :: "'s wasm"
  ie_float :: float_text
  ie_config :: policy_config
  ie_spec :: abi_spec
  ie_builtins :: "pystr \<Rightarrow> builtin option"
  ie_depth :: nat

record 's inst = "'s dm" +
  i_id :: nat
  i_abi :: "'s abi"
  i_builtin_id_to_name :: "int \<Rightarrow> pystr option"
  i_deadline_ticks :: "int option"
  i_data_version :: int
  i_poisoned :: bool
  i_entered_wasm :: bool

text \<open>The process-wide state an instance touches: the native stores and the shared ticker.\<close>

record world =
  wo_native :: native
  wo_ticker :: ticker

section \<open>Builtin dispatch\<close>

definition mk_codec :: "'s ienv \<Rightarrow> 's abi \<Rightarrow> 's codec" where
  "mk_codec ie ab = \<lparr>cd_abi = ab, cd_float = ie_float ie,
     cd_max_input_bytes = max_input_bytes (ie_config ie),
     cd_max_data_bytes = max_data_bytes (ie_config ie),
     cd_max_result_bytes = max_result_bytes (ie_config ie),
     cd_max_cstring_scan_bytes = max_cstring_scan_bytes (ie_config ie)\<rparr>"

text \<open>\<open>except OpaBuiltinError: raise\<close> and \<open>except Exception as exc: raise OpaBuiltinError(...) from exc\<close>\<close>

definition as_builtin_error :: "string \<Rightarrow> exc \<Rightarrow> exc" where
  "as_builtin_error msg e = (if exc_class_of e \<noteq> OpaBuiltinError \<and> is_exception (exc_class_of e)
     then raise_from OpaBuiltinError msg e else e)"

definition dispatch_builtin ::
  "'s codec \<Rightarrow> (int \<Rightarrow> pystr option) \<Rightarrow> (pystr \<Rightarrow> builtin option) \<Rightarrow> int \<Rightarrow> 's dispatch" where
  "dispatch_builtin cd id_to_name snap limit builtin_id ctx arg_addrs =
     (case id_to_name builtin_id of
        None \<Rightarrow> raise (new_exc OpaBuiltinError ''policy invoked unknown builtin id'')
      | Some name \<Rightarrow>
          (case snap name of
             None \<Rightarrow> raise (new_exc OpaBuiltinError ''policy requires a builtin that is not registered'')
           | Some fn \<Rightarrow>
               bnd (try_except (map_act (\<lambda>addr. opa_value_to_python cd addr None) arg_addrs)
                      (\<lambda>e. raise (as_builtin_error ''failed to decode arguments'' e))) (\<lambda>args.
               bnd (try_except (of_result (fn args))
                      (\<lambda>e. raise (as_builtin_error ''builtin raised'' e))) (\<lambda>result.
               try_except (python_object_to_opa_value cd result limit)
                 (\<lambda>e. raise (as_builtin_error ''result is not JSON-compatible'' e))))))"

text \<open>
  The callback is a bound method: until the constructor has assigned
  \<open>_builtin_id_to_name\<close>, reading the attribute raises.
\<close>

definition early_dispatch :: "'s dispatch" where
  "early_dispatch builtin_id ctx arg_addrs =
     raise (new_exc (OtherException ''AttributeError'') ''_builtin_id_to_name'')"

text \<open>
  A builtin call re-enters the guest (it decodes its arguments and encodes its result there),
  and the guest may call builtins again. The nesting is bounded by the native stack: below
  \<open>n\<close> nested calls the guest traps.
\<close>

fun inst_host :: "'s ienv \<Rightarrow> 's abi \<Rightarrow> (int \<Rightarrow> pystr option) \<Rightarrow> nat \<Rightarrow> 's host" where
  "inst_host ie ab id_to_name 0 = (\<lambda>name args. raise (new_exc (Trap None) ''call stack exhausted''))"
| "inst_host ie ab id_to_name (Suc n) =
     host_fns (ie_wasm ie) (Some (dispatch_builtin
       (mk_codec ie (ab\<lparr>ab_host := inst_host ie ab id_to_name n\<rparr>))
       id_to_name (ie_builtins ie) (max_result_bytes (ie_config ie))))"

definition inst_codec :: "'s ienv \<Rightarrow> 's inst \<Rightarrow> 's codec" where
  "inst_codec ie i = mk_codec ie ((i_abi i)\<lparr>ab_host :=
     inst_host ie (i_abi i) (i_builtin_id_to_name i) (ie_depth ie)\<rparr>)"

definition inst_evaluator :: "'s ienv \<Rightarrow> 's inst \<Rightarrow> 's evaluator" where
  "inst_evaluator ie i = \<lparr>ev_codec = inst_codec ie i,
     ev_max_input_bytes = max_input_bytes (ie_config ie),
     ev_max_result_bytes = max_result_bytes (ie_config ie),
     ev_validate_input = parse_raw_json_input (ie_config ie),
     ev_deadline_ticks = i_deadline_ticks i\<rparr>"

section \<open>Construction\<close>

text \<open>The tick budget: only with a ticker and a configured timeout.\<close>

definition budget :: "bool \<Rightarrow> policy_config \<Rightarrow> exc + int option" where
  "budget epoch c = (case eval_timeout_seconds c of
       None \<Rightarrow> Inr None
     | Some t \<Rightarrow> if epoch then rbind (deadline_ticks t) (\<lambda>n. Inr (Some n)) else Inr None)"

text \<open>The fields as they stand before the data is loaded; of two names with one id the last counts.\<close>

definition fresh_instance ::
  "'s runtime \<Rightarrow> 's abi \<Rightarrow> 's dm \<Rightarrow> 's \<Rightarrow> (pystr \<times> int) list \<Rightarrow> int option \<Rightarrow> int \<Rightarrow> 's inst" where
  "fresh_instance rt ab d s items ticks version =
     \<lparr>dm_store = s, initial_heap_ptr = initial_heap_ptr d, data_addr = data_addr d,
      data_heap_ptr = data_heap_ptr d, i_id = rt_id rt, i_abi = ab,
      i_builtin_id_to_name = map_of (rev (map prod.swap items)), i_deadline_ticks = ticks,
      i_data_version = version, i_poisoned = False, i_entered_wasm = False\<rparr>"

text \<open>The body of the constructor's \<open>try\<close>, on a runtime that was just created.\<close>

definition assemble :: "'s ienv \<Rightarrow> bool \<Rightarrow> pyval \<Rightarrow> int \<Rightarrow> 's runtime \<Rightarrow> exc + 's inst" where
  "assemble ie epoch initial_data version rt =
     rbind (abi_init (ie_wasm ie) (host_fns (ie_wasm ie) (Some early_dispatch)) (rt_exports rt)
              (ie_spec ie) (rt_store rt)) (\<lambda>ab.
     case dm_init ab (rt_store rt) of
       (Inl e, s) \<Rightarrow> Inl e
     | (Inr d, s) \<Rightarrow>
         rbind (budget epoch (ie_config ie)) (\<lambda>ticks.
         case decode_builtins (mk_codec ie ab) s of
           (Inl e, s') \<Rightarrow> Inl e
         | (Inr items, s') \<Rightarrow>
             (let i = fresh_instance rt ab d s' items ticks version
              in case load_data (inst_codec ie i) (max_data_bytes (ie_config ie)) initial_data i of
                   (Inl e, i') \<Rightarrow> Inl e
                 | (Inr _, i') \<Rightarrow> Inr i')))"

definition instance_init ::
  "'s ienv \<Rightarrow> wfactory \<Rightarrow> bool \<Rightarrow> pyval \<Rightarrow> int \<Rightarrow> world \<Rightarrow> (exc + 's inst) \<times> world" where
  "instance_init ie fac epoch initial_data version wo =
     (case create_runtime (ie_wasm ie) fac (Some early_dispatch) (wo_native wo) of
        (Inl e, nt) \<Rightarrow> (Inl e, wo\<lparr>wo_native := nt\<rparr>)
      | (Inr rt, nt) \<Rightarrow>
          (case assemble ie epoch initial_data version rt of
             Inl e \<Rightarrow> (Inl e, wo\<lparr>wo_native := runtime_close rt nt\<rparr>)
           | Inr i \<Rightarrow>
               (Inr i, wo\<lparr>wo_native := nt,
                  wo_ticker := (if i_deadline_ticks i \<noteq> None \<and> epoch
                                then ensure_running (wo_ticker wo) else wo_ticker wo)\<rparr>)))"

section \<open>Operations\<close>

definition inst_entrypoints :: "'s ienv \<Rightarrow> ('s inst, exc, (pystr \<times> int) list) act" where
  "inst_entrypoints ie i = on_store (decode_entrypoints (inst_codec ie i)) i"

definition inst_builtins :: "'s ienv \<Rightarrow> ('s inst, exc, (pystr \<times> int) list) act" where
  "inst_builtins ie i = on_store (decode_builtins (inst_codec ie i)) i"

definition reload_data :: "'s ienv \<Rightarrow> pyval \<Rightarrow> int \<Rightarrow> ('s inst, exc, unit) act" where
  "reload_data ie data version i =
     bnd (try_except (load_data (inst_codec ie i) (max_data_bytes (ie_config ie)) data)
            (\<lambda>e. bnd (updating (\<lambda>x. if is_exception (exc_class_of e) then x\<lparr>i_poisoned := True\<rparr> else x))
                   (\<lambda>_. raise e)))
       (\<lambda>_. updating (\<lambda>x. x\<lparr>i_data_version := version\<rparr>)) i"

definition mark_entered_wasm :: "('s inst, exc, unit) act" where
  "mark_entered_wasm = updating (\<lambda>x. x\<lparr>i_entered_wasm := True\<rparr>)"

definition inst_evaluate :: "'s ienv \<Rightarrow> pyval \<Rightarrow> int \<Rightarrow> ('s inst, exc, pyval) act" where
  "inst_evaluate ie input_value entrypoint_id i =
     bnd (updating (\<lambda>x. x\<lparr>i_entered_wasm := False\<rparr>)) (\<lambda>_.
     try_except (evaluate (inst_evaluator ie i) (Some mark_entered_wasm) input_value entrypoint_id)
       (\<lambda>e. bnd (updating (\<lambda>x. if is_exception (exc_class_of e) \<and> i_entered_wasm x
                               then x\<lparr>i_poisoned := True\<rparr> else x))
              (\<lambda>_. raise e))) i"

definition inst_close :: "'s inst \<Rightarrow> world \<Rightarrow> world" where
  "inst_close i wo = wo\<lparr>wo_native := store_close (i_id i) (wo_native wo)\<rparr>"

interpretation owner: wasm_entry mark_entered_wasm i_entered_wasm
proof
  fix d :: "'a inst"
  have "d\<lparr>i_entered_wasm := True\<rparr> = dm.more_update (\<lambda>_. dm.more (d\<lparr>i_entered_wasm := True\<rparr>)) d"
    by (cases d) simp
  then show "\<exists>m. mark_entered_wasm d = (Inr (), dm.more_update (\<lambda>_. m) d)"
    by (auto simp: mark_entered_wasm_def act_simps)
  show "i_entered_wasm (snd (mark_entered_wasm d))" by (simp add: mark_entered_wasm_def act_simps)
  show "dm.more d = dm.more d' \<Longrightarrow> i_entered_wasm d = i_entered_wasm d'" for d' :: "'a inst"
    by (cases d; cases d') simp
qed

section \<open>Lemmas\<close>

lemma as_builtin_error_class:
  "is_exception (exc_class_of (as_builtin_error msg e)) \<Longrightarrow> exc_class_of (as_builtin_error msg e) = OpaBuiltinError"
  by (auto simp: as_builtin_error_def)

lemma dispatch_raises:
  "raises_in (\<lambda>e. is_exception (exc_class_of e) \<longrightarrow> exc_class_of e = OpaBuiltinError)
     (dispatch_builtin cd m snap limit bid ctx args)"
  unfolding dispatch_builtin_def
  by (auto intro!: raises_bnd raises_try_except raises_raise as_builtin_error_class split: option.splits)

lemma map_act_length: "map_act f xs s = (Inr ys, t) \<Longrightarrow> length ys = length xs"
  by (induction xs arbitrary: s ys) (auto simp: act_simps split: prod.splits sum.splits)

lemma object_to_opa_value_pos: "python_object_to_opa_value cd v limit s = (Inr a, t) \<Longrightarrow> 0 < a"
  by (auto simp: python_object_to_opa_value_def act_simps split: prod.splits sum.splits if_splits)

text \<open>A dispatch that returns has applied the registered function to the decoded arguments.\<close>

lemma dispatch_success:
  assumes "dispatch_builtin cd id_to_name snap limit builtin_id ctx addrs s = (Inr a, t)"
  shows "\<exists>name fn args result s1. id_to_name builtin_id = Some name \<and> snap name = Some fn
    \<and> map_act (\<lambda>addr. opa_value_to_python cd addr None) addrs s = (Inr args, s1) \<and> length args = length addrs
    \<and> fn args = Inr result \<and> python_object_to_opa_value cd result limit s1 = (Inr a, t) \<and> 0 < a"
proof -
  obtain name fn where n: "id_to_name builtin_id = Some name" "snap name = Some fn"
    using assms by (auto simp: dispatch_builtin_def act_simps split: option.splits)
  obtain args s1 where m: "map_act (\<lambda>addr. opa_value_to_python cd addr None) addrs s = (Inr args, s1)"
    using assms n by (auto simp: dispatch_builtin_def act_simps split: prod.splits sum.splits)
  obtain result where r: "fn args = Inr result" "python_object_to_opa_value cd result limit s1 = (Inr a, t)"
    using assms n m by (auto simp: dispatch_builtin_def act_simps split: prod.splits sum.splits)
  show ?thesis using n m r map_act_length [OF m] object_to_opa_value_pos [OF r(2)] by blast
qed

lemma dispatch_unknown:
  assumes "Option.bind (id_to_name builtin_id) snap = None"
  shows "\<exists>e. dispatch_builtin cd id_to_name snap limit builtin_id ctx addrs s = (Inl e, s)
    \<and> exc_class_of e = OpaBuiltinError"
  using assms by (auto simp: dispatch_builtin_def act_simps split: option.splits)

text \<open>The fields of an instance that only its owner changes.\<close>

definition same_id :: "'s inst \<Rightarrow> 's inst \<Rightarrow> bool" where
  "same_id i i' \<longleftrightarrow> i_id i' = i_id i \<and> i_abi i' = i_abi i \<and> i_builtin_id_to_name i' = i_builtin_id_to_name i
     \<and> i_deadline_ticks i' = i_deadline_ticks i"

lemma inst_more_eqD:
  fixes i i' :: "'s inst"
  assumes "dm.more i' = dm.more i"
  shows "same_id i i' \<and> i_data_version i' = i_data_version i \<and> i_poisoned i' = i_poisoned i
    \<and> i_entered_wasm i' = i_entered_wasm i"
  using assms by (cases i; cases i') (simp add: same_id_def)

text \<open>Construction: the store of a failed instance is closed, the one of a built instance is its own.\<close>

lemma assembleE:
  assumes "assemble ie epoch data version rt = Inr i"
  obtains ab d s items ticks where
    "abi_init (ie_wasm ie) (host_fns (ie_wasm ie) (Some early_dispatch)) (rt_exports rt) (ie_spec ie) (rt_store rt) = Inr ab"
    and "budget epoch (ie_config ie) = Inr ticks"
    and "load_data (inst_codec ie (fresh_instance rt ab d s items ticks version)) (max_data_bytes (ie_config ie)) data
       (fresh_instance rt ab d s items ticks version) = (Inr (), i)"
proof -
  obtain ab where ab: "abi_init (ie_wasm ie) (host_fns (ie_wasm ie) (Some early_dispatch)) (rt_exports rt)
      (ie_spec ie) (rt_store rt) = Inr ab"
    and r1: "(case dm_init ab (rt_store rt) of (Inl e, s) \<Rightarrow> Inl e
      | (Inr d, s) \<Rightarrow> rbind (budget epoch (ie_config ie)) (\<lambda>ticks.
          case decode_builtins (mk_codec ie ab) s of (Inl e, s') \<Rightarrow> Inl e
          | (Inr items, s') \<Rightarrow> (let i = fresh_instance rt ab d s' items ticks version
              in case load_data (inst_codec ie i) (max_data_bytes (ie_config ie)) data i of
                   (Inl e, i') \<Rightarrow> Inl e | (Inr _, i') \<Rightarrow> Inr i'))) = Inr i"
    using assms unfolding assemble_def rbind_eq_Inr by blast
  obtain d s0 where r2: "rbind (budget epoch (ie_config ie)) (\<lambda>ticks.
          case decode_builtins (mk_codec ie ab) s0 of (Inl e, s') \<Rightarrow> Inl e
          | (Inr items, s') \<Rightarrow> (let i = fresh_instance rt ab d s' items ticks version
              in case load_data (inst_codec ie i) (max_data_bytes (ie_config ie)) data i of
                   (Inl e, i') \<Rightarrow> Inl e | (Inr _, i') \<Rightarrow> Inr i')) = Inr i"
    using r1 by (auto split: prod.splits sum.splits)
  obtain ticks where f: "budget epoch (ie_config ie) = Inr ticks" and
    r3: "(case decode_builtins (mk_codec ie ab) s0 of (Inl e, s') \<Rightarrow> Inl e
          | (Inr items, s') \<Rightarrow> (let i = fresh_instance rt ab d s' items ticks version
              in case load_data (inst_codec ie i) (max_data_bytes (ie_config ie)) data i of
                   (Inl e, i') \<Rightarrow> Inl e | (Inr _, i') \<Rightarrow> Inr i')) = Inr i"
    using r2 unfolding rbind_eq_Inr by blast
  obtain items s where "load_data (inst_codec ie (fresh_instance rt ab d s items ticks version))
       (max_data_bytes (ie_config ie)) data (fresh_instance rt ab d s items ticks version) = (Inr (), i)"
    using r3 by (auto simp: Let_def split: prod.splits sum.splits)
  from that [OF ab f this] show thesis .
qed

lemma assemble_fields:
  assumes "assemble ie epoch data version rt = Inr i"
  shows "i_id i = rt_id rt" and "i_data_version i = version" and "\<not> i_poisoned i" and "\<not> i_entered_wasm i"
    and "budget epoch (ie_config ie) = Inr (i_deadline_ticks i)"
proof -
  obtain ab d s items ticks where f: "budget epoch (ie_config ie) = Inr ticks"
    and l: "load_data (inst_codec ie (fresh_instance rt ab d s items ticks version)) (max_data_bytes (ie_config ie)) data
       (fresh_instance rt ab d s items ticks version) = (Inr (), i)"
    using assms by (rule assembleE)
  let ?i = "fresh_instance rt ab d s items ticks version"
  have "same_rest ?i i" using keepsD [OF load_keeps_rest [of ?i] _ l] by simp
  then have "dm.more i = dm.more ?i" by (simp add: same_rest_def)
  from inst_more_eqD [OF this] f
  show "i_id i = rt_id rt" "i_data_version i = version" "\<not> i_poisoned i" "\<not> i_entered_wasm i"
    "budget epoch (ie_config ie) = Inr (i_deadline_ticks i)"
    by (simp_all add: same_id_def fresh_instance_def)
qed

definition instance_post :: "int \<Rightarrow> world \<Rightarrow> exc + 's inst \<Rightarrow> world \<Rightarrow> bool" where
  "instance_post version wo r wo' \<longleftrightarrow> native_wf (wo_native wo') \<and> nt_next (wo_native wo) \<le> nt_next (wo_native wo') \<and> (case r of
      Inl e \<Rightarrow> nt_open (wo_native wo') = nt_open (wo_native wo) \<and> wo_ticker wo' = wo_ticker wo
    | Inr i \<Rightarrow> nt_open (wo_native wo') = insert (i_id i) (nt_open (wo_native wo))
        \<and> i_id i \<notin> nt_open (wo_native wo) \<and> nt_next (wo_native wo) \<le> i_id i \<and> i_data_version i = version \<and> \<not> i_poisoned i
        \<and> wo_ticker wo' = (if i_deadline_ticks i \<noteq> None then ensure_running (wo_ticker wo) else wo_ticker wo))"

lemma instance_init_spec:
  assumes "native_wf (wo_native wo)" and "instance_init ie fac epoch data version wo = (r, wo')"
  shows "instance_post version wo r wo'"
proof (cases rule: create_runtime_cases [OF assms(1), of "ie_wasm ie" fac "Some early_dispatch"])
  case (1 e nt')
  then show ?thesis using assms(2) by (auto simp: instance_init_def instance_post_def)
next
  case (2 rt nt')
  have fresh: "rt_id rt \<notin> nt_open (wo_native wo)"
    using assms(1) 2(4) by (auto simp: native_wf_def)
  show ?thesis
  proof (cases "assemble ie epoch data version rt")
    case (Inl e)
    then have "r = Inl e" "wo' = wo\<lparr>wo_native := store_close (rt_id rt) nt'\<rparr>"
      using assms(2) 2(1) by (simp_all add: instance_init_def runtime_close_def)
    then show ?thesis using 2 fresh by (simp add: instance_post_def)
  next
    case (Inr i)
    have "i_deadline_ticks i \<noteq> None \<Longrightarrow> epoch"
      using assemble_fields(5) [OF Inr] by (auto simp: budget_def split: option.splits if_splits)
    then have "r = Inr i" "wo' = wo\<lparr>wo_native := nt', wo_ticker :=
        (if i_deadline_ticks i \<noteq> None then ensure_running (wo_ticker wo) else wo_ticker wo)\<rparr>"
      using assms(2) 2(1) Inr by (auto simp: instance_init_def)
    then show ?thesis using 2 fresh assemble_fields(1-3) [OF Inr] by (simp add: instance_post_def)
  qed
qed

lemma reload_data_spec:
  assumes "reload_data ie data version i = (r, i')"
  shows "same_id i i'" and "case r of
      Inr _ \<Rightarrow> i_data_version i' = version \<and> i_poisoned i' = i_poisoned i
    | Inl e \<Rightarrow> i_data_version i' = i_data_version i
        \<and> (i_poisoned i' \<longleftrightarrow> i_poisoned i \<or> is_exception (exc_class_of e))"
proof -
  obtain r1 i1 where l: "load_data (inst_codec ie i) (max_data_bytes (ie_config ie)) data i = (r1, i1)"
    by fastforce
  have "same_rest i i1" using keepsD [OF load_keeps_rest [of i] _ l] by simp
  then have "dm.more i1 = dm.more i" by (simp add: same_rest_def)
  note m = inst_more_eqD [OF this]
  show "same_id i i'" using assms l m
    by (auto simp: reload_data_def act_simps same_id_def split: sum.splits)
  show "case r of
      Inr _ \<Rightarrow> i_data_version i' = version \<and> i_poisoned i' = i_poisoned i
    | Inl e \<Rightarrow> i_data_version i' = i_data_version i
        \<and> (i_poisoned i' \<longleftrightarrow> i_poisoned i \<or> is_exception (exc_class_of e))"
    using assms l m by (auto simp: reload_data_def act_simps split: sum.splits)
qed

lemma inst_evaluate_spec:
  assumes "inst_evaluate ie v ep i = (r, i')"
  shows "same_id i i'" and "i_data_version i' = i_data_version i" and "same_doc i i'"
    and "i_poisoned i' \<longleftrightarrow> i_poisoned i \<or>
      (\<exists>e raw. r = Inl e \<and> is_exception (exc_class_of e)
         \<and> encode_input (inst_codec ie i) v (max_input_bytes (ie_config ie)) (parse_raw_json_input (ie_config ie)) = Inr raw)"
proof -
  let ?i = "i\<lparr>i_entered_wasm := False\<rparr>" and ?ev = "inst_evaluator ie i"
  obtain r1 i1 where ev: "evaluate ?ev (Some mark_entered_wasm) v ep ?i = (r1, i1)" by fastforce
  have r: "r = r1" and i': "i' = (if (\<exists>e. r1 = Inl e \<and> is_exception (exc_class_of e)) \<and> i_entered_wasm i1
      then i1\<lparr>i_poisoned := True\<rparr> else i1)"
    using assms ev by (auto simp: inst_evaluate_def act_simps split: sum.splits)
  have ent: "i_entered_wasm i1 \<longleftrightarrow> (\<exists>raw. encode_input (inst_codec ie i) v (max_input_bytes (ie_config ie))
      (parse_raw_json_input (ie_config ie)) = Inr raw)"
    using owner.evaluate_entered [OF _ ev] by (simp add: inst_evaluator_def)
  define I where "I x \<longleftrightarrow> same_id i x \<and> i_data_version x = i_data_version i \<and> i_poisoned x = i_poisoned i" for x
  have "keeps I (evaluate ?ev (Some mark_entered_wasm) v ep)"
    by (rule keeps_evaluate) (auto simp: store_free_def I_def same_id_def mark_entered_wasm_def intro!: keeps_updating)
  from keepsD [OF this _ ev] have I: "I i1" by (simp add: I_def same_id_def)
  show "same_id i i'" "i_data_version i' = i_data_version i"
    using I i' by (auto simp: I_def same_id_def)
  show "same_doc i i'" using owner.evaluate_same_doc [OF ev] i' by (auto simp: same_doc_def)
  show "i_poisoned i' \<longleftrightarrow> i_poisoned i \<or> (\<exists>e raw. r = Inl e \<and> is_exception (exc_class_of e)
      \<and> encode_input (inst_codec ie i) v (max_input_bytes (ie_config ie)) (parse_raw_json_input (ie_config ie)) = Inr raw)"
    using I i' r ent by (auto simp: I_def)
qed

text \<open>A successful evaluation of an instance is a faithful run of its guest.\<close>

lemma inst_evaluate_faithful:
  assumes "memory_ok (ab_wasm (cd_abi (inst_codec ie i))) mem" and "heap_ok (cd_abi (inst_codec ie i)) hp"
    and "malloc_ok (cd_abi (inst_codec ie i)) hp" and "inst_evaluate ie v ep i = (Inr result, i')"
  obtains raw where "encode_input (inst_codec ie i) v (max_input_bytes (ie_config ie))
      (parse_raw_json_input (ie_config ie)) = Inr raw"
    and "faithful_eval (inst_evaluator ie i) mem raw ep (data_addr i) result"
proof -
  let ?i = "i\<lparr>i_entered_wasm := False\<rparr>"
  have "evaluate (inst_evaluator ie i) (Some mark_entered_wasm) v ep ?i = (Inr result, i')"
    using assms(4) by (auto simp: inst_evaluate_def act_simps split: prod.splits sum.splits)
  then obtain raw d1 where r: "encode_input (inst_codec ie i) v (ev_max_input_bytes (inst_evaluator ie i))
      (ev_validate_input (inst_evaluator ie i)) = Inr raw"
    and g: "run_guest (inst_evaluator ie i) None raw ep d1 = (Inr result, i')" and d: "same_doc ?i d1"
    by (rule owner.evaluate_success) (simp add: inst_evaluator_def)
  have "faithful_eval (inst_evaluator ie i) mem raw ep (data_addr d1) result"
    by (rule run_guest_faithful [OF _ _ _ g]) (use assms in \<open>simp_all add: inst_evaluator_def\<close>)
  with r d that show thesis by (auto simp: inst_evaluator_def same_doc_def)
qed

text \<open>
  A reload that returns has given the instance the new version and no new mark; one that raises
  keeps the old version, and poisons the instance when it is an \<open>Exception\<close>.
\<close>

lemma reload_data_outcome:
  "case reload_data ie data version i of (r, i') \<Rightarrow> same_id i i'
     \<and> i_data_version i' = (case r of Inr _ \<Rightarrow> version | Inl _ \<Rightarrow> i_data_version i)
     \<and> (i_poisoned i' \<longleftrightarrow> i_poisoned i \<or> (\<exists>e. r = Inl e \<and> is_exception (exc_class_of e)))"
  using reload_data_spec [of ie data version i] by (auto split: prod.splits sum.splits)

end
