(* ===== verification/Pool.thy ===== *)
theory Pool
  imports Instance
begin

text \<open>
  \<^verbatim>\<open>opapywasm/pool.py\<close> as one caller sees it: the queue of idle slots, and the operations
  in the order the code performs them. The pool is written, like the code, against callbacks:
  a factory, a snapshot function and a refresh function, and the methods of an instance it
  calls. What it relies on is the locale \<open>instance_provider\<close>; theory \<open>Policy\<close> interprets it on
  the policy's own callbacks. The interleavings of several threads are in theory
  \<open>Policy_Concurrent\<close>.
\<close>

section \<open>State\<close>

text \<open>An idle slot: a placeholder (\<open>None\<close> in the code), an instance, or the close sentinel.\<close>

datatype 'i slot = Placeholder | Idle 'i | CloseSentinel

record 'i pool =
  pl_max_size :: nat
  pl_idle :: "'i slot list"
  pl_closed :: bool
  pl_created :: nat
  pl_recreated :: nat

text \<open>The constructor's callbacks and the instance methods, over a world \<open>'w\<close>.\<close>

record ('i, 'w) callbacks =
  cb_factory :: "('w, exc, 'i) act"
  cb_snapshot :: "'w \<Rightarrow> pyval \<times> int"
  cb_refresh :: "'w \<Rightarrow> pyval \<Rightarrow> int \<Rightarrow> ('i, exc, unit) act"
  cb_version :: "'i \<Rightarrow> int"
  cb_poisoned :: "'i \<Rightarrow> bool"
  cb_close :: "'i \<Rightarrow> 'w \<Rightarrow> 'w"

record ('i, 'w) pstate =
  ps_pool :: "'i pool"
  ps_world :: 'w

definition pool_init :: "int \<Rightarrow> exc + 'i pool" where
  "pool_init max_size = (if max_size < 1 then Inl (new_exc ValueError ''max_size must be >= 1'')
     else Inr \<lparr>pl_max_size = nat max_size, pl_idle = replicate (nat max_size) Placeholder,
               pl_closed = False, pl_created = 0, pl_recreated = 0\<rparr>)"

definition available :: "'i pool \<Rightarrow> nat" where
  "available p = length (pl_idle p)"

section \<open>Operations\<close>

text \<open>\<open>put_nowait\<close> on the bounded queue; \<open>queue.Full\<close> is swallowed by both callers.\<close>

definition put_slot :: "'i slot \<Rightarrow> 'i pool \<Rightarrow> 'i pool" where
  "put_slot s p = (if length (pl_idle p) < pl_max_size p then p\<lparr>pl_idle := pl_idle p @ [s]\<rparr> else p)"

definition put_wake_sentinel :: "'i pool \<Rightarrow> 'i pool" where
  "put_wake_sentinel p = put_slot CloseSentinel p"

definition on_pool :: "('i pool \<Rightarrow> 'i pool) \<Rightarrow> (('i, 'w) pstate, exc, unit) act" where
  "on_pool f = updating (\<lambda>st. st\<lparr>ps_pool := f (ps_pool st)\<rparr>)"

definition close_instance :: "('i, 'w) callbacks \<Rightarrow> 'i \<Rightarrow> (('i, 'w) pstate, exc, unit) act" where
  "close_instance cb i = updating (\<lambda>st. st\<lparr>ps_world := cb_close cb i (ps_world st)\<rparr>)"

text \<open>
  \<open>_take_slot\<close>. An empty queue means that every slot is on loan: for a single caller the wait
  ends in \<open>queue.Empty\<close>.
\<close>

definition take_slot :: "('i, 'w) callbacks \<Rightarrow> (('i, 'w) pstate, exc, 'i option) act" where
  "take_slot cb =
     bnd (reading (\<lambda>st. pl_idle (ps_pool st))) (\<lambda>idle. case idle of
       [] \<Rightarrow> raise (new_exc OpaPoolTimeoutError ''timed out waiting for a free policy instance'')
     | s # rest \<Rightarrow>
         bnd (on_pool (\<lambda>p. p\<lparr>pl_idle := rest\<rparr>)) (\<lambda>_.
         bnd (reading (\<lambda>st. pl_closed (ps_pool st))) (\<lambda>closed.
         if (case s of CloseSentinel \<Rightarrow> True | _ \<Rightarrow> closed) then
           bnd (case s of Idle i \<Rightarrow> close_instance cb i | _ \<Rightarrow> ret ()) (\<lambda>_.
           bnd (on_pool put_wake_sentinel) (\<lambda>_.
           raise (new_exc OpaPolicyClosedError ''policy is closed'')))
         else ret (case s of Idle i \<Rightarrow> Some i | _ \<Rightarrow> None))))"

definition create_instance :: "('i, 'w) callbacks \<Rightarrow> (('i, 'w) pstate, exc, 'i) act" where
  "create_instance cb =
     bnd (zoom ps_world (\<lambda>w st. st\<lparr>ps_world := w\<rparr>) (cb_factory cb)) (\<lambda>i.
     bnd (on_pool (\<lambda>p. p\<lparr>pl_created := Suc (pl_created p)\<rparr>)) (\<lambda>_. ret i))"

text \<open>\<open>_refresh_if_stale\<close>: the instance is updated in place, also when the refresh raises.\<close>

definition refresh_if_stale :: "('i, 'w) callbacks \<Rightarrow> 'i \<Rightarrow> ('i, 'w) pstate \<Rightarrow> (exc + unit) \<times> 'i" where
  "refresh_if_stale cb i st =
     (case cb_snapshot cb (ps_world st) of (data, version) \<Rightarrow>
        if cb_version cb i \<noteq> version then cb_refresh cb (ps_world st) data version i else (Inr (), i))"

text \<open>\<open>_release\<close>; \<open>discarded\<close> is the flag of the loan, false when there is no loan.\<close>

definition release :: "('i, 'w) callbacks \<Rightarrow> bool \<Rightarrow> 'i option \<Rightarrow> (('i, 'w) pstate, exc, unit) act" where
  "release cb discarded inst =
     (case inst of
        None \<Rightarrow> on_pool (put_slot Placeholder)
      | Some i \<Rightarrow>
          bnd (reading (\<lambda>st. pl_closed (ps_pool st))) (\<lambda>closed.
          if closed \<or> discarded \<or> cb_poisoned cb i then
            bnd (on_pool (\<lambda>p. if \<not> closed then p\<lparr>pl_recreated := Suc (pl_recreated p)\<rparr> else p)) (\<lambda>_.
            bnd (on_pool (put_slot Placeholder)) (\<lambda>_.
            close_instance cb i))
          else on_pool (put_slot (Idle i))))"

text \<open>
  \<open>with pool.borrow() as loan: body\<close>. The body gives its outcome, the instance as it left it,
  and whether it called \<open>loan.discard()\<close>; the world it may use is the part of the state
  outside the pool.
\<close>

type_synonym ('i, 'w, 'a) body = "'i \<Rightarrow> 'w \<Rightarrow> ((exc + 'a) \<times> 'i \<times> bool) \<times> 'w"

definition with_instance ::
  "('i, 'w) callbacks \<Rightarrow> ('i, 'w, 'a) body \<Rightarrow> 'i \<Rightarrow> (('i, 'w) pstate, exc, 'a) act" where
  "with_instance cb body i st =
     (case refresh_if_stale cb i st of
        (Inl e, i1) \<Rightarrow> bnd (release cb False (Some i1)) (\<lambda>_. raise e) st
      | (Inr _, i1) \<Rightarrow>
          (case body i1 (ps_world st) of
             ((r, i2, discarded), w) \<Rightarrow>
               bnd (release cb discarded (Some i2)) (\<lambda>_. of_result r) (st\<lparr>ps_world := w\<rparr>)))"

definition borrow :: "('i, 'w) callbacks \<Rightarrow> ('i, 'w, 'a) body \<Rightarrow> (('i, 'w) pstate, exc, 'a) act" where
  "borrow cb body =
     bnd (reading (\<lambda>st. pl_closed (ps_pool st))) (\<lambda>closed.
     bnd (raise_if closed (new_exc OpaPolicyClosedError ''policy is closed'')) (\<lambda>_.
     bnd (take_slot cb) (\<lambda>slot. case slot of
       Some i \<Rightarrow> with_instance cb body i
     | None \<Rightarrow>
         bnd (try_except (create_instance cb)
                (\<lambda>e. bnd (release cb False None) (\<lambda>_. raise e))) (with_instance cb body))))"

text \<open>\<open>close\<close>: drain, close what was idle, post the sentinel.\<close>

fun idle_instances :: "'i slot list \<Rightarrow> 'i list" where
  "idle_instances [] = []"
| "idle_instances (Idle i # r) = i # idle_instances r"
| "idle_instances (_ # r) = idle_instances r"

definition pool_close :: "('i, 'w) callbacks \<Rightarrow> ('i, 'w) pstate \<Rightarrow> ('i, 'w) pstate" where
  "pool_close cb st =
     (if pl_closed (ps_pool st) then st
      else (let p = (ps_pool st)\<lparr>pl_closed := True\<rparr>;
                w = fold (cb_close cb) (idle_instances (pl_idle p)) (ps_world st)
            in st\<lparr>ps_pool := put_wake_sentinel (p\<lparr>pl_idle := []\<rparr>), ps_world := w\<rparr>))"

text \<open>The pool's properties; the counters are read under the statistics lock.\<close>

definition pool_max_size :: "'i pool \<Rightarrow> nat" where
  "pool_max_size p = pl_max_size p"

definition pool_instances_created :: "'i pool \<Rightarrow> nat" where
  "pool_instances_created p = pl_created p"

definition pool_instances_recreated :: "'i pool \<Rightarrow> nat" where
  "pool_instances_recreated p = pl_recreated p"

definition pool_is_closed :: "'i pool \<Rightarrow> bool" where
  "pool_is_closed p = pl_closed p"

section \<open>Invariants\<close>

text \<open>
  The invariant between two borrows, \<open>others\<close> being resources that are not the pool's: an open
  pool has all its slots, the idle instances are healthy, and theirs are exactly the resources
  the pool has open; a closed pool has none.
\<close>

definition pool_inv ::
  "('i, 'w) callbacks \<Rightarrow> ('i \<Rightarrow> nat) \<Rightarrow> ('w \<Rightarrow> nat set) \<Rightarrow> ('w \<Rightarrow> bool) \<Rightarrow> nat set \<Rightarrow> ('i, 'w) pstate \<Rightarrow> bool" where
  "pool_inv cb iid open_ids world_ok others st \<longleftrightarrow>
     (let p = ps_pool st; idle = idle_instances (pl_idle p) in
      world_ok (ps_world st) \<and> 1 \<le> pl_max_size p \<and> length (pl_idle p) \<le> pl_max_size p
      \<and> (if pl_closed p then idle = [] else length (pl_idle p) = pl_max_size p \<and> CloseSentinel \<notin> set (pl_idle p))
      \<and> distinct (map iid idle) \<and> set (map iid idle) \<inter> others = {}
      \<and> open_ids (ps_world st) = set (map iid idle) \<union> others \<and> (\<forall>i \<in> set idle. \<not> cb_poisoned cb i))"

text \<open>The same while the instance \<open>i\<close> is on loan from an open pool.\<close>

definition loan_inv ::
  "('i, 'w) callbacks \<Rightarrow> ('i \<Rightarrow> nat) \<Rightarrow> ('w \<Rightarrow> nat set) \<Rightarrow> ('w \<Rightarrow> bool) \<Rightarrow> nat set \<Rightarrow> 'i \<Rightarrow> ('i, 'w) pstate \<Rightarrow> bool" where
  "loan_inv cb iid open_ids world_ok others i st \<longleftrightarrow>
     (let p = ps_pool st; idle = idle_instances (pl_idle p) in
      world_ok (ps_world st) \<and> \<not> pl_closed p \<and> Suc (length (pl_idle p)) = pl_max_size p
      \<and> CloseSentinel \<notin> set (pl_idle p)
      \<and> distinct (iid i # map iid idle) \<and> insert (iid i) (set (map iid idle)) \<inter> others = {}
      \<and> open_ids (ps_world st) = insert (iid i) (set (map iid idle)) \<union> others
      \<and> (\<forall>i \<in> set idle. \<not> cb_poisoned cb i))"

text \<open>A body may do what it likes with its instance but change its identity, and nothing to the world.\<close>

definition body_ok :: "('i \<Rightarrow> nat) \<Rightarrow> ('i, 'w, 'a) body \<Rightarrow> bool" where
  "body_ok iid body \<longleftrightarrow> (\<forall>i w r i' d w'. body i w = ((r, i', d), w') \<longrightarrow> iid i' = iid i \<and> w' = w)"

lemma idle_instances_append: "idle_instances (xs @ ys) = idle_instances xs @ idle_instances ys"
  by (induction xs rule: idle_instances.induct) auto

section \<open>What the pool relies on\<close>

text \<open>
  The laws of the callbacks: a built instance carries the current version and is healthy; a
  refresh that returns brings the instance to the version it is given, one that raises an
  \<open>Exception\<close> poisons it; and every instance owns one native resource, named by \<open>iid\<close>, which
  exists from the factory's return to \<open>close\<close> (\<open>open_ids\<close> are those that exist).
\<close>

locale instance_provider =
  fixes cb :: "('i, 'w) callbacks"
    and iid :: "'i \<Rightarrow> nat"
    and open_ids :: "'w \<Rightarrow> nat set"
    and world_ok :: "'w \<Rightarrow> bool"
  assumes factory_snapshot: "cb_factory cb w = (r, w') \<Longrightarrow> cb_snapshot cb w' = cb_snapshot cb w"
    and factory_ok: "world_ok w \<Longrightarrow> cb_factory cb w = (r, w') \<Longrightarrow> world_ok w'"
    and factory_Inr: "world_ok w \<Longrightarrow> cb_factory cb w = (Inr i, w') \<Longrightarrow>
        cb_version cb i = snd (cb_snapshot cb w) \<and> \<not> cb_poisoned cb i
        \<and> iid i \<notin> open_ids w \<and> open_ids w' = insert (iid i) (open_ids w)"
    and factory_Inl: "world_ok w \<Longrightarrow> cb_factory cb w = (Inl e, w') \<Longrightarrow> open_ids w' = open_ids w"
    and refresh_iid: "cb_refresh cb w d v i = (q, i') \<Longrightarrow> iid i' = iid i"
    and refresh_Inr: "cb_refresh cb w d v i = (Inr u, i') \<Longrightarrow>
        cb_version cb i' = v \<and> cb_poisoned cb i' = cb_poisoned cb i"
    and refresh_Inl: "cb_refresh cb w d v i = (Inl e, i') \<Longrightarrow> is_exception (exc_class_of e) \<Longrightarrow> cb_poisoned cb i'"
    and close_open: "open_ids (cb_close cb i w) = open_ids w - {iid i}"
    and close_ok: "world_ok w \<Longrightarrow> world_ok (cb_close cb i w)"
    and close_snapshot: "cb_snapshot cb (cb_close cb i w) = cb_snapshot cb w"
begin

lemma release_inv:
  assumes "loan_inv cb iid open_ids world_ok others i st"
  shows "pool_inv cb iid open_ids world_ok others (snd (release cb d (Some i) st))" and "fst (release cb d (Some i) st) = Inr ()"
    and "pl_closed (ps_pool (snd (release cb d (Some i) st))) = False"
    and "cb_snapshot cb (ps_world (snd (release cb d (Some i) st))) = cb_snapshot cb (ps_world st)"
  using assms
  by (auto simp: release_def on_pool_def close_instance_def act_simps put_slot_def loan_inv_def
      pool_inv_def Let_def idle_instances_append close_open close_ok close_snapshot)

lemma loan_inv_iid: "loan_inv cb iid open_ids world_ok others i st \<Longrightarrow> iid i' = iid i \<Longrightarrow> loan_inv cb iid open_ids world_ok others i' st"
  by (simp add: loan_inv_def)

lemma with_instance_inv:
  assumes "loan_inv cb iid open_ids world_ok others i st" and "body_ok iid body"
  shows "pool_inv cb iid open_ids world_ok others (snd (with_instance cb body i st))"
    and "\<not> pl_closed (ps_pool (snd (with_instance cb body i st)))"
proof -
  obtain r i1 where ref: "refresh_if_stale cb i st = (r, i1)" by fastforce
  have id1: "iid i1 = iid i"
    using ref refresh_iid by (auto simp: refresh_if_stale_def split: prod.splits if_splits)
  obtain r2 i2 d w where b: "body i1 (ps_world st) = ((r2, i2, d), w)" by (metis prod_cases3 surj_pair)
  have w: "w = ps_world st" "iid i2 = iid i" using assms(2) b id1 by (auto simp: body_ok_def)
  note l = release_inv [OF loan_inv_iid [OF assms(1) id1]] release_inv [OF loan_inv_iid [OF assms(1) w(2)]]
  show "pool_inv cb iid open_ids world_ok others (snd (with_instance cb body i st))"
    using l ref b w by (auto simp: with_instance_def act_simps split: sum.splits prod.splits) (metis prod.sel)+
  show "\<not> pl_closed (ps_pool (snd (with_instance cb body i st)))"
    using l ref b w by (auto simp: with_instance_def act_simps split: sum.splits prod.splits) (metis prod.sel)+
qed

text \<open>A slot that is taken from an open pool, and the loan it starts.\<close>

lemma take_slot_open:
  assumes "pool_inv cb iid open_ids world_ok others st" and "\<not> pl_closed (ps_pool st)"
  obtains s rest where "pl_idle (ps_pool st) = s # rest" "s \<noteq> CloseSentinel"
    "take_slot cb st = (Inr (case s of Idle i \<Rightarrow> Some i | _ \<Rightarrow> None), st\<lparr>ps_pool := (ps_pool st)\<lparr>pl_idle := rest\<rparr>\<rparr>)"
proof -
  have "pl_idle (ps_pool st) \<noteq> []" "CloseSentinel \<notin> set (pl_idle (ps_pool st))"
    using assms by (auto simp: pool_inv_def Let_def)
  then obtain s rest where s: "pl_idle (ps_pool st) = s # rest" "s \<noteq> CloseSentinel"
    by (cases "pl_idle (ps_pool st)") auto
  then have "take_slot cb st = (Inr (case s of Idle i \<Rightarrow> Some i | _ \<Rightarrow> None), st\<lparr>ps_pool := (ps_pool st)\<lparr>pl_idle := rest\<rparr>\<rparr>)"
    using assms(2) by (cases s) (simp_all add: take_slot_def on_pool_def act_simps)
  with s that show thesis by blast
qed

lemma loan_of_idle:
  assumes "pool_inv cb iid open_ids world_ok others st" and "\<not> pl_closed (ps_pool st)"
    and "pl_idle (ps_pool st) = Idle i # rest"
  shows "loan_inv cb iid open_ids world_ok others i (st\<lparr>ps_pool := (ps_pool st)\<lparr>pl_idle := rest\<rparr>\<rparr>)"
  using assms by (auto simp: pool_inv_def loan_inv_def Let_def)

text \<open>Creating the instance for a drawn placeholder: a loan, or the placeholder goes back.\<close>

lemma create_for_placeholder:
  assumes "pool_inv cb iid open_ids world_ok others st" and "\<not> pl_closed (ps_pool st)"
    and "pl_idle (ps_pool st) = Placeholder # rest"
    and "try_except (create_instance cb) (\<lambda>e. bnd (release cb False None) (\<lambda>_. raise e))
      (st\<lparr>ps_pool := (ps_pool st)\<lparr>pl_idle := rest\<rparr>\<rparr>) = (r, st')"
  shows "case r of
      Inl e \<Rightarrow> pool_inv cb iid open_ids world_ok others st' \<and> \<not> pl_closed (ps_pool st')
    | Inr i \<Rightarrow> loan_inv cb iid open_ids world_ok others i st' \<and> cb_version cb i = snd (cb_snapshot cb (ps_world st'))"
proof -
  have ok: "world_ok (ps_world st)" using assms(1) by (simp add: pool_inv_def Let_def)
  obtain f w' where f: "cb_factory cb (ps_world st) = (f, w')" by fastforce
  show ?thesis
  proof (cases f)
    case (Inl e)
    with f have o: "open_ids w' = open_ids (ps_world st)" "world_ok w'"
      using factory_Inl [OF ok] factory_ok [OF ok f] by auto
    show ?thesis using assms f Inl o
      by (auto simp: create_instance_def release_def on_pool_def put_slot_def act_simps pool_inv_def Let_def
          idle_instances_append)
  next
    case (Inr i)
    with f have o: "cb_version cb i = snd (cb_snapshot cb (ps_world st))" "iid i \<notin> open_ids (ps_world st)"
        "open_ids w' = insert (iid i) (open_ids (ps_world st))" "world_ok w'"
        "cb_snapshot cb w' = cb_snapshot cb (ps_world st)"
      using factory_Inr [OF ok] factory_ok [OF ok f] factory_snapshot [OF f] by auto
    show ?thesis using assms f Inr o
      by (auto simp: create_instance_def on_pool_def act_simps pool_inv_def loan_inv_def Let_def)
  qed
qed

lemma borrow_inv:
  assumes "pool_inv cb iid open_ids world_ok others st" and "body_ok iid body"
  shows "pool_inv cb iid open_ids world_ok others (snd (borrow cb body st))"
    and "pl_closed (ps_pool (snd (borrow cb body st))) = pl_closed (ps_pool st)"
proof -
  have "pool_inv cb iid open_ids world_ok others (snd (borrow cb body st))
    \<and> pl_closed (ps_pool (snd (borrow cb body st))) = pl_closed (ps_pool st)"
  proof (cases "pl_closed (ps_pool st)")
    case True
    then show ?thesis using assms(1) by (simp add: borrow_def act_simps)
  next
    case False
    obtain s rest where s: "pl_idle (ps_pool st) = s # rest" "s \<noteq> CloseSentinel"
      "take_slot cb st = (Inr (case s of Idle i \<Rightarrow> Some i | _ \<Rightarrow> None), st\<lparr>ps_pool := (ps_pool st)\<lparr>pl_idle := rest\<rparr>\<rparr>)"
      using take_slot_open [OF assms(1) False] .
    let ?st = "st\<lparr>ps_pool := (ps_pool st)\<lparr>pl_idle := rest\<rparr>\<rparr>"
    show ?thesis
    proof (cases s)
      case (Idle i)
      then show ?thesis using s(3) False with_instance_inv [OF loan_of_idle [OF assms(1) False], of i rest body] s(1) assms(2)
        by (simp add: borrow_def act_simps)
    next
      case Placeholder
      obtain r st' where c: "try_except (create_instance cb) (\<lambda>e. bnd (release cb False None) (\<lambda>_. raise e)) ?st = (r, st')"
        by fastforce
      from create_for_placeholder [OF assms(1) False _ c] s(1) Placeholder
      show ?thesis using s(3) False c Placeholder with_instance_inv [OF _ assms(2), of others _ st']
        by (cases r) (auto simp: borrow_def act_simps split: sum.splits)
    qed (use s(2) in simp)
  qed
  then show "pool_inv cb iid open_ids world_ok others (snd (borrow cb body st))"
    and "pl_closed (ps_pool (snd (borrow cb body st))) = pl_closed (ps_pool st)" by simp_all
qed

text \<open>
  No stale evaluation: the outcome of a borrow depends on the body only through what it does
  to instances that carry the current version of the data.
\<close>

lemma refresh_current:
  assumes "refresh_if_stale cb i st = (Inr u, i')"
  shows "cb_version cb i' = snd (cb_snapshot cb (ps_world st))"
  using assms refresh_Inr by (auto simp: refresh_if_stale_def split: prod.splits if_splits)

lemma with_instance_current:
  assumes "\<And>i w. cb_version cb i = snd (cb_snapshot cb w) \<Longrightarrow> body i w = body' i w"
  shows "with_instance cb body i st = with_instance cb body' i st"
proof (cases "refresh_if_stale cb i st")
  case (Pair r i1)
  show ?thesis
  proof (cases r)
    case (Inr u)
    with Pair have "refresh_if_stale cb i st = (Inr u, i1)" by simp
    from assms [OF refresh_current [OF this]] show ?thesis using Pair Inr by (simp add: with_instance_def)
  qed (simp add: with_instance_def Pair)
qed

lemma borrow_current:
  assumes "\<And>i w. cb_version cb i = snd (cb_snapshot cb w) \<Longrightarrow> body i w = body' i w"
  shows "borrow cb body st = borrow cb body' st"
proof -
  have eq: "with_instance cb body = with_instance cb body'"
    by (intro ext with_instance_current assms)
  show ?thesis unfolding borrow_def eq ..
qed

text \<open>An open pool always serves its caller: a borrow never times out and never finds it closed.\<close>

lemma borrow_serves:
  assumes "pool_inv cb iid open_ids world_ok others st" and "\<not> pl_closed (ps_pool st)"
  shows "\<exists>slot st1. take_slot cb st = (Inr slot, st1)"
  using take_slot_open [OF assms] by blast

text \<open>Closing frees everything idle, is idempotent, and refuses every later borrow.\<close>

lemma fold_close:
  "open_ids (fold (cb_close cb) xs w) = open_ids w - set (map iid xs)
   \<and> (world_ok w \<longrightarrow> world_ok (fold (cb_close cb) xs w))
   \<and> cb_snapshot cb (fold (cb_close cb) xs w) = cb_snapshot cb w"
  by (induction xs arbitrary: w) (auto simp: close_open close_ok close_snapshot)

lemma pool_close_inv:
  assumes "pool_inv cb iid open_ids world_ok others st"
  shows "pool_inv cb iid open_ids world_ok others (pool_close cb st)"
    and "pl_closed (ps_pool (pool_close cb st))"
    and "open_ids (ps_world (pool_close cb st)) = others"
proof -
  let ?xs = "idle_instances (pl_idle (ps_pool st))"
  have d: "set (map iid ?xs) \<inter> others = {}" "open_ids (ps_world st) = set (map iid ?xs) \<union> others"
    using assms by (auto simp: pool_inv_def Let_def)
  show c: "pl_closed (ps_pool (pool_close cb st))"
    by (simp add: pool_close_def Let_def put_wake_sentinel_def put_slot_def)
  show o: "open_ids (ps_world (pool_close cb st)) = others"
  proof (cases "pl_closed (ps_pool st)")
    case True
    then show ?thesis using assms by (auto simp: pool_inv_def Let_def pool_close_def)
  next
    case False
    then show ?thesis using d fold_close [of ?xs "ps_world st"] by (auto simp: pool_close_def Let_def)
  qed
  show "pool_inv cb iid open_ids world_ok others (pool_close cb st)"
    using assms o c fold_close [of ?xs "ps_world st"]
    by (auto simp: pool_inv_def Let_def pool_close_def put_wake_sentinel_def put_slot_def split: if_splits)
qed

end

section \<open>What a borrow leaves alone\<close>

text \<open>A part of the world that neither the callbacks nor the body change is the same after a borrow.\<close>

lemma keeps_borrow:
  fixes cb :: "('i, 'w) callbacks"
  assumes "\<And>w. g (snd (cb_factory cb w)) = g w" and "\<And>i w. g (cb_close cb i w) = g w"
    and "\<And>i w. g (snd (body i w)) = g w"
  shows "keeps (\<lambda>st. g (ps_world st) = x) (borrow cb body)"
proof -
  let ?I = "\<lambda>st :: ('i, 'w) pstate. g (ps_world st) = x"
  have pool: "keeps ?I (on_pool f)" for f by (simp add: keeps_def on_pool_def updating_def)
  have close: "keeps ?I (close_instance cb i)" for i
    using assms(2) by (simp add: keeps_def close_instance_def updating_def)
  have rel: "keeps ?I (release cb d i)" for d i
    unfolding release_def by (auto intro!: keeps_intros pool close split: option.splits)
  have take: "keeps ?I (take_slot cb)"
    unfolding take_slot_def by (auto intro!: keeps_intros pool close split: list.splits slot.splits)
  have factory: "keeps ?I (zoom ps_world (\<lambda>w st. st\<lparr>ps_world := w\<rparr>) (cb_factory cb))"
    using assms(1) by (auto simp: keeps_def zoom_def split: prod.splits) (metis snd_conv)
  have create: "keeps ?I (create_instance cb)"
    unfolding create_instance_def by (intro keeps_intros pool factory)
  have inst: "keeps ?I (with_instance cb body i)" for i
    unfolding keeps_def
  proof (intro allI impI)
    fix st assume st: "?I st"
    obtain q i1 where q: "refresh_if_stale cb i st = (q, i1)" by fastforce
    obtain r i2 d w where b: "body i1 (ps_world st) = ((r, i2, d), w)" by (metis prod_cases3 surj_pair)
    have w: "g w = x" using assms(3) [of i1 "ps_world st"] b st by simp
    have "keeps ?I (bnd (release cb False (Some i1)) (\<lambda>_. raise e))" for e :: exc by (intro keeps_intros rel)
    moreover have "keeps ?I (bnd (release cb d (Some i2)) (\<lambda>_. of_result r))" by (intro keeps_intros rel)
    ultimately show "?I (snd (with_instance cb body i st))"
      using st w q b by (cases q) (auto simp: with_instance_def keeps_def)
  qed
  show ?thesis
    unfolding borrow_def by (intro keeps_intros take) (auto intro!: keeps_intros create rel inst split: option.splits)
qed

end
