(* ===== verification/Policy.thy ===== *)
theory Policy
  imports Pool
begin

text \<open>
  \<^verbatim>\<open>opapywasm/policy.py\<close> as one caller sees it: the facade that owns the factory, the
  registry, the data snapshot and the pool. It provides the pool's callbacks; the
  interpretation \<open>pol\<close> shows that they obey the laws the pool relies on.
\<close>

section \<open>State\<close>

text \<open>What does not change after construction, and the parts of the outside world it uses.\<close>

record 's penv =
  pe_wasm :: "'s wasm"
  pe_text :: py_text
  pe_config :: policy_config
  pe_factory :: wfactory
  pe_depth :: nat

text \<open>The state the pool's callbacks reach: native stores and ticker, data snapshot, registry.\<close>

record pworld =
  pw_world :: world
  pw_data :: "bytes option"
  pw_data_version :: int
  pw_registry :: "builtin registry"

record 's policy =
  po_state :: "('s inst, pworld) pstate"
  po_closed :: bool
  po_active_evals :: int
  po_entrypoints :: "(pystr \<times> int) list"
  po_builtins :: "(pystr \<times> int) list"
  po_abi_version :: "int \<times> int"

section \<open>Callbacks of the pool\<close>

definition data_snapshot :: "pworld \<Rightarrow> pyval \<times> int" where
  "data_snapshot w = (case pw_data w of None \<Rightarrow> PNone | Some b \<Rightarrow> PBytes b, pw_data_version w)"

definition inst_env :: "'s penv \<Rightarrow> pworld \<Rightarrow> 's ienv" where
  "inst_env pe w = \<lparr>ie_wasm = pe_wasm pe, ie_float = pt_float (pe_text pe), ie_config = pe_config pe,
     ie_spec = default_spec, ie_builtins = view (snapshot (pw_registry w)) (pw_registry w),
     ie_depth = pe_depth pe\<rparr>"

definition build_instance :: "'s penv \<Rightarrow> (pworld, exc, 's inst) act" where
  "build_instance pe w =
     (case data_snapshot w of (data, version) \<Rightarrow>
      (case instance_init (inst_env pe w) (pe_factory pe) True data version (pw_world w) of
         (r, wo) \<Rightarrow> (r, w\<lparr>pw_world := wo\<rparr>)))"

definition refresh_instance :: "'s penv \<Rightarrow> pworld \<Rightarrow> pyval \<Rightarrow> int \<Rightarrow> ('s inst, exc, unit) act" where
  "refresh_instance pe w data version = reload_data (inst_env pe w) data version"

definition policy_callbacks :: "'s penv \<Rightarrow> ('s inst, pworld) callbacks" where
  "policy_callbacks pe = \<lparr>cb_factory = build_instance pe, cb_snapshot = data_snapshot,
     cb_refresh = refresh_instance pe, cb_version = i_data_version, cb_poisoned = i_poisoned,
     cb_close = (\<lambda>i w. w\<lparr>pw_world := inst_close i (pw_world w)\<rparr>)\<rparr>"

section \<open>Data and builtins\<close>

definition raise_if_closed :: "('s policy, exc, unit) act" where
  "raise_if_closed = bnd (reading po_closed) (\<lambda>closed.
     raise_if closed (new_exc OpaPolicyClosedError ''policy is closed''))"

definition serialise_data :: "float_text \<Rightarrow> policy_config \<Rightarrow> pyval \<Rightarrow> exc + bytes option" where
  "serialise_data ft c data =
     (if data = PNone then Inr None
      else rbind (case data of
          PStr s \<Rightarrow> rbind (utf8_encode s) (validate_json ft ''data str/bytes is not valid JSON text'')
        | PBytes b \<Rightarrow> validate_json ft ''data str/bytes is not valid JSON text'' b
        | _ \<Rightarrow> dumps ft data) (\<lambda>raw.
        if max_data_bytes c < int (length raw)
        then Inl (new_exc OpaInvalidInputError ''data exceeds the byte limit'') else Inr (Some raw)))"

definition on_world :: "(pworld \<Rightarrow> pworld) \<Rightarrow> 's policy \<Rightarrow> 's policy" where
  "on_world f p = p\<lparr>po_state := (po_state p)\<lparr>ps_world := f (ps_world (po_state p))\<rparr>\<rparr>"

definition set_data :: "'s penv \<Rightarrow> pyval \<Rightarrow> ('s policy, exc, unit) act" where
  "set_data pe data =
     bnd raise_if_closed (\<lambda>_.
     bnd (of_result (serialise_data (pt_float (pe_text pe)) (pe_config pe) data)) (\<lambda>serialised.
     updating (on_world (\<lambda>w. w\<lparr>pw_data := serialised, pw_data_version := pw_data_version w + 1\<rparr>))))"

definition register_builtin :: "pystr \<Rightarrow> builtin option \<Rightarrow> bool \<Rightarrow> ('s policy, exc, unit) act" where
  "register_builtin name fn replace =
     bnd raise_if_closed (\<lambda>_.
     zoom (\<lambda>p. pw_registry (ps_world (po_state p))) (\<lambda>r. on_world (\<lambda>w. w\<lparr>pw_registry := r\<rparr>))
       (register name fn replace))"

section \<open>Evaluation\<close>

definition resolve_entrypoint ::
  "policy_config \<Rightarrow> (pystr \<times> int) list \<Rightarrow> entrypoint option \<Rightarrow> exc + int" where
  "resolve_entrypoint c eps entry =
     (let e1 = (case entry of None \<Rightarrow> default_entrypoint c | Some e \<Rightarrow> Some e);
          e2 = (case e1 of None \<Rightarrow> EpInt 0 | Some e \<Rightarrow> e)
      in case e2 of
           EpBool b \<Rightarrow> Inl (new_exc OpaEntrypointError ''invalid entrypoint'')
         | EpInt i \<Rightarrow> if i \<notin> set (map snd eps)
             then Inl (new_exc OpaEntrypointError ''unknown entrypoint id'') else Inr i
         | EpStr s \<Rightarrow> (case map_of eps s of
               Some i \<Rightarrow> Inr i
             | None \<Rightarrow> Inl (new_exc OpaEntrypointError ''unknown entrypoint'')))"

text \<open>A list result set whose head is an object with a \<open>result\<close> member is a defined decision.\<close>

definition simplify_result :: "policy_config \<Rightarrow> pyval \<Rightarrow> exc + pyval decision" where
  "simplify_result c raw =
     (if raw = PList []
      then (if strict_result c
            then Inl (new_exc OpaEvaluationError ''policy returned an undefined/empty decision'')
            else Inr UNDEFINED)
      else (case (case raw of PList (PDict kvs # _) \<Rightarrow> map_of kvs (PStr (ustr ''result'')) | _ \<Rightarrow> None) of
          Some v \<Rightarrow> Inr (Defined v)
        | None \<Rightarrow>
            if strict_result_shape c
            then Inl (new_exc OpaEvaluationError ''policy returned an unexpected result shape'')
            else if strict_result c
            then Inl (new_exc OpaEvaluationError ''policy returned an undefined/empty decision'')
            else Inr UNDEFINED))"

definition stop_ticker :: "'s policy \<Rightarrow> 's policy" where
  "stop_ticker = on_world (\<lambda>w. w\<lparr>pw_world := (pw_world w)\<lparr>wo_ticker := ticker_close (wo_ticker (pw_world w))\<rparr>\<rparr>)"

definition enter_eval :: "'s policy \<Rightarrow> 's policy" where
  "enter_eval p = p\<lparr>po_active_evals := po_active_evals p + 1\<rparr>"

definition exit_eval :: "'s policy \<Rightarrow> 's policy" where
  "exit_eval p = (let p' = p\<lparr>po_active_evals := po_active_evals p - 1\<rparr> in
     if po_closed p' \<and> po_active_evals p' = 0 then stop_ticker p' else p')"

definition eval_body :: "'s penv \<Rightarrow> pyval \<Rightarrow> int \<Rightarrow> ('s inst, pworld, pyval) body" where
  "eval_body pe input_value entrypoint_id i w =
     (case inst_evaluate (inst_env pe w) input_value entrypoint_id i of (r, i') \<Rightarrow> ((r, i', False), w))"

definition evaluate_raw :: "'s penv \<Rightarrow> pyval \<Rightarrow> entrypoint option \<Rightarrow> ('s policy, exc, pyval) act" where
  "evaluate_raw pe input_value entry =
     bnd (reading po_entrypoints) (\<lambda>eps.
     bnd (of_result (resolve_entrypoint (pe_config pe) eps entry)) (\<lambda>entrypoint_id.
     bnd (updating enter_eval) (\<lambda>_.
     try_finally
       (zoom po_state (\<lambda>st p. p\<lparr>po_state := st\<rparr>)
          (borrow (policy_callbacks pe) (eval_body pe input_value entrypoint_id)))
       (updating exit_eval))))"

definition policy_evaluate :: "'s penv \<Rightarrow> pyval \<Rightarrow> entrypoint option \<Rightarrow> ('s policy, exc, pyval decision) act" where
  "policy_evaluate pe input_value entry =
     bnd (evaluate_raw pe input_value entry) (\<lambda>raw. of_result (simplify_result (pe_config pe) raw))"

section \<open>Construction and shutdown\<close>

definition policy_close :: "'s penv \<Rightarrow> 's policy \<Rightarrow> 's policy" where
  "policy_close pe p =
     (let p' = p\<lparr>po_state := pool_close (policy_callbacks pe) (po_state p), po_closed := True\<rparr>
      in if po_active_evals p' = 0 then stop_ticker p' else p')"

definition probe_metadata :: "'s ienv \<Rightarrow> ('s inst, exc, (pystr \<times> int) list \<times> (pystr \<times> int) list) act" where
  "probe_metadata ie i =
     bnd (inst_entrypoints ie) (\<lambda>eps. bnd (inst_builtins ie) (\<lambda>bs. ret (eps, bs))) i"

text \<open>The probe is closed whether reading its metadata succeeds or not.\<close>

definition run_probe ::
  "'s penv \<Rightarrow> pworld \<Rightarrow> (exc + (pystr \<times> int) list \<times> (pystr \<times> int) list \<times> (int \<times> int)) \<times> pworld" where
  "run_probe pe w0 =
     (case build_instance pe w0 of
        (Inl e, w) \<Rightarrow> (Inl e, w)
      | (Inr i, w) \<Rightarrow>
          (case probe_metadata (inst_env pe w) i of
             (r, i') \<Rightarrow> (rbind r (\<lambda>(eps, bs). Inr (eps, bs, ab_version (i_abi i'))),
                          w\<lparr>pw_world := inst_close i' (pw_world w)\<rparr>)))"

definition initial_world :: "'s penv \<Rightarrow> yaml_lib option \<Rightarrow> world \<Rightarrow> pworld" where
  "initial_world pe yaml wo = \<lparr>pw_world = wo, pw_data = None, pw_data_version = 0,
     pw_registry = registry_init (default_builtins (pe_text pe) yaml)\<rparr>"

text \<open>The constructor after the factory; a failure of the probe closes the pool and the ticker.\<close>

definition policy_init :: "'s penv \<Rightarrow> yaml_lib option \<Rightarrow> world \<Rightarrow> (exc + 's policy) \<times> world" where
  "policy_init pe yaml wo =
     (case pool_init (pool_size (pe_config pe)) of
        Inl e \<Rightarrow> (Inl e, wo)
      | Inr pl \<Rightarrow>
          (case run_probe pe (initial_world pe yaml wo) of
             (Inr (eps, bs, version), w) \<Rightarrow>
               (Inr \<lparr>po_state = \<lparr>ps_pool = pl, ps_world = w\<rparr>, po_closed = False, po_active_evals = 0,
                     po_entrypoints = eps, po_builtins = bs, po_abi_version = version\<rparr>, pw_world w)
           | (Inl e, w) \<Rightarrow>
               (let w' = ps_world (pool_close (policy_callbacks pe) \<lparr>ps_pool = pl, ps_world = w\<rparr>)
                in (Inl e, (pw_world w')\<lparr>wo_ticker := ticker_close (wo_ticker (pw_world w'))\<rparr>))))"

text \<open>
  \<open>from_wasm_bytes\<close>: without a configuration the default one; the factory comes first, with a
  ticker of its own, and a failure of it has nothing to release.
\<close>

definition from_wasm_bytes ::
  "'s wasm \<Rightarrow> py_text \<Rightarrow> yaml_lib option \<Rightarrow> nat \<Rightarrow> policy_config option \<Rightarrow> bytes \<Rightarrow> native
     \<Rightarrow> (exc + 's penv \<times> 's policy) \<times> native" where
  "from_wasm_bytes w pt yaml depth config wasm_bytes nt =
     (let c = (case config of None \<Rightarrow> default_config | Some c \<Rightarrow> c) in
      case factory_init w wasm_bytes (max_memory_pages c) of
        Inl e \<Rightarrow> (Inl e, nt)
      | Inr fac \<Rightarrow>
          (let pe = \<lparr>pe_wasm = w, pe_text = pt, pe_config = c, pe_factory = fac, pe_depth = depth\<rparr>
           in case policy_init pe yaml \<lparr>wo_native = nt, wo_ticker = ticker_init\<rparr> of
                (Inl e, wo) \<Rightarrow> (Inl e, wo_native wo)
              | (Inr p, wo) \<Rightarrow> (Inr (pe, p), wo_native wo)))"

text \<open>
  The other two constructors: \<open>read_file\<close> is \<open>Path(path).read_bytes()\<close>, the stream is what its
  \<open>read\<close> gives.
\<close>

definition from_wasm_file ::
  "(pystr \<Rightarrow> exc + bytes) \<Rightarrow> 's wasm \<Rightarrow> py_text \<Rightarrow> yaml_lib option \<Rightarrow> nat \<Rightarrow> policy_config option \<Rightarrow> pystr \<Rightarrow> native
     \<Rightarrow> (exc + 's penv \<times> 's policy) \<times> native" where
  "from_wasm_file read_file w pt yaml depth config path nt = (case read_file path of
     Inl e \<Rightarrow> (Inl e, nt) | Inr wasm_bytes \<Rightarrow> from_wasm_bytes w pt yaml depth config wasm_bytes nt)"

definition from_wasm_stream ::
  "'s wasm \<Rightarrow> py_text \<Rightarrow> yaml_lib option \<Rightarrow> nat \<Rightarrow> policy_config option \<Rightarrow> exc + bytes \<Rightarrow> native
     \<Rightarrow> (exc + 's penv \<times> 's policy) \<times> native" where
  "from_wasm_stream w pt yaml depth config stream nt = (case stream of
     Inl e \<Rightarrow> (Inl e, nt) | Inr wasm_bytes \<Rightarrow> from_wasm_bytes w pt yaml depth config wasm_bytes nt)"

text \<open>\<open>with policy as p: body\<close>: \<open>__exit__\<close> closes the policy and lets the body's exception pass.\<close>

definition with_policy :: "'s penv \<Rightarrow> ('s policy, exc, 'a) act \<Rightarrow> ('s policy, exc, 'a) act" where
  "with_policy pe body = try_finally body (updating (policy_close pe))"

section \<open>Observers\<close>

definition registered_builtins :: "'s policy \<Rightarrow> pystr list" where
  "registered_builtins p = names (pw_registry (ps_world (po_state p)))"

definition data_version :: "'s policy \<Rightarrow> int" where
  "data_version p = pw_data_version (ps_world (po_state p))"

text \<open>The metadata of the probe; the dictionaries are handed out as copies.\<close>

definition policy_entrypoints :: "'s policy \<Rightarrow> (pystr \<times> int) list" where
  "policy_entrypoints p = po_entrypoints p"

definition policy_builtins :: "'s policy \<Rightarrow> (pystr \<times> int) list" where
  "policy_builtins p = po_builtins p"

definition policy_abi_version :: "'s policy \<Rightarrow> int \<times> int" where
  "policy_abi_version p = po_abi_version p"

definition policy_pool_size :: "'s policy \<Rightarrow> nat" where
  "policy_pool_size p = pool_max_size (ps_pool (po_state p))"

definition instances_created :: "'s policy \<Rightarrow> nat" where
  "instances_created p = pool_instances_created (ps_pool (po_state p))"

definition instances_recreated :: "'s policy \<Rightarrow> nat" where
  "instances_recreated p = pool_instances_recreated (ps_pool (po_state p))"

section \<open>The policy provides what the pool relies on\<close>

abbreviation stores_of :: "pworld \<Rightarrow> nat set" where
  "stores_of w \<equiv> nt_open (wo_native (pw_world w))"

abbreviation native_ok :: "pworld \<Rightarrow> bool" where
  "native_ok w \<equiv> native_wf (wo_native (pw_world w))"

lemma build_instance_run:
  assumes "build_instance pe w = (r, w')"
  obtains wo where "w' = w\<lparr>pw_world := wo\<rparr>"
    and "native_ok w \<longrightarrow> instance_post (pw_data_version w) (pw_world w) r wo"
proof -
  obtain wo where wo: "w' = w\<lparr>pw_world := wo\<rparr>"
    "instance_init (inst_env pe w) (pe_factory pe) True (fst (data_snapshot w)) (snd (data_snapshot w)) (pw_world w) = (r, wo)"
    using assms by (auto simp: build_instance_def split: prod.splits)
  have "snd (data_snapshot w) = pw_data_version w" by (simp add: data_snapshot_def)
  then show thesis using that [OF wo(1)] instance_init_spec [OF _ wo(2)] by simp
qed

lemma callbacks_simps [simp]:
  "cb_factory (policy_callbacks pe) = build_instance pe" "cb_snapshot (policy_callbacks pe) = data_snapshot"
  "cb_refresh (policy_callbacks pe) w d v = reload_data (inst_env pe w) d v"
  "cb_version (policy_callbacks pe) = i_data_version" "cb_poisoned (policy_callbacks pe) = i_poisoned"
  "cb_close (policy_callbacks pe) i w = w\<lparr>pw_world := inst_close i (pw_world w)\<rparr>"
  by (simp_all add: policy_callbacks_def refresh_instance_def)

interpretation pol: instance_provider "policy_callbacks pe" i_id stores_of native_ok for pe :: "'s penv"
proof
  fix w w' :: pworld and r :: "exc + 's inst"
  assume f: "cb_factory (policy_callbacks pe) w = (r, w')"
  obtain wo where wo: "w' = w\<lparr>pw_world := wo\<rparr>" "native_ok w \<longrightarrow> instance_post (pw_data_version w) (pw_world w) r wo"
    using f unfolding callbacks_simps by (rule build_instance_run)
  show "cb_snapshot (policy_callbacks pe) w' = cb_snapshot (policy_callbacks pe) w"
    using wo(1) by (simp add: data_snapshot_def)
  show "native_ok w'" if "native_ok w"
    using wo(2) that wo(1) by (simp add: instance_post_def)
next
  fix w w' :: pworld and i :: "'s inst"
  assume n: "native_ok w" and f: "cb_factory (policy_callbacks pe) w = (Inr i, w')"
  obtain wo where wo: "w' = w\<lparr>pw_world := wo\<rparr>"
    "native_ok w \<longrightarrow> instance_post (pw_data_version w) (pw_world w) (Inr i :: exc + 's inst) wo"
    using f unfolding callbacks_simps by (rule build_instance_run)
  show "cb_version (policy_callbacks pe) i = snd (cb_snapshot (policy_callbacks pe) w)
      \<and> \<not> cb_poisoned (policy_callbacks pe) i \<and> i_id i \<notin> stores_of w
      \<and> stores_of w' = insert (i_id i) (stores_of w)"
    using wo(2) n wo(1) by (simp add: instance_post_def data_snapshot_def)
next
  fix w w' :: pworld and e
  assume n: "native_ok w" and f: "cb_factory (policy_callbacks pe) w = (Inl e, w')"
  obtain wo where wo: "w' = w\<lparr>pw_world := wo\<rparr>"
    "native_ok w \<longrightarrow> instance_post (pw_data_version w) (pw_world w) (Inl e :: exc + 's inst) wo"
    using f unfolding callbacks_simps by (rule build_instance_run)
  show "stores_of w' = stores_of w" using wo(2) n wo(1) by (simp add: instance_post_def)
next
  fix w d v and i i' :: "'s inst" and q
  assume "cb_refresh (policy_callbacks pe) w d v i = (q, i')"
  then show "i_id i' = i_id i" using reload_data_spec(1) [of "inst_env pe w" d v i q i'] by (simp add: same_id_def)
next
  fix w d v and i i' :: "'s inst" and u
  assume "cb_refresh (policy_callbacks pe) w d v i = (Inr u, i')"
  then show "cb_version (policy_callbacks pe) i' = v
      \<and> cb_poisoned (policy_callbacks pe) i' = cb_poisoned (policy_callbacks pe) i"
    using reload_data_spec(2) [of "inst_env pe w" d v i "Inr u" i'] by simp
next
  fix w d v and i i' :: "'s inst" and e
  assume "cb_refresh (policy_callbacks pe) w d v i = (Inl e, i')" and "is_exception (exc_class_of e)"
  then show "cb_poisoned (policy_callbacks pe) i'"
    using reload_data_spec(2) [of "inst_env pe w" d v i "Inl e" i'] by simp
qed (simp_all add: inst_close_def data_snapshot_def)

section \<open>Invariant of the facade\<close>

text \<open>Between two calls of one caller: no evaluation is active, and a closed policy has stopped its ticker.\<close>

definition policy_inv :: "'s penv \<Rightarrow> nat set \<Rightarrow> 's policy \<Rightarrow> bool" where
  "policy_inv pe others p \<longleftrightarrow>
     pool_inv (policy_callbacks pe) i_id stores_of native_ok others (po_state p)
   \<and> pl_closed (ps_pool (po_state p)) = po_closed p \<and> po_active_evals p = 0
   \<and> (po_closed p \<longrightarrow> tk_stop (wo_ticker (pw_world (ps_world (po_state p)))))"

text \<open>The pool's invariant looks at the world only through the open stores.\<close>

lemma pool_inv_world:
  assumes "wo_native (pw_world w) = wo_native (pw_world (ps_world st))"
  shows "pool_inv (policy_callbacks pe) i_id stores_of native_ok others (st\<lparr>ps_world := w\<rparr>)
    = pool_inv (policy_callbacks pe) i_id stores_of native_ok others st"
  using assms by (simp add: pool_inv_def Let_def)

lemma eval_body_ok: "body_ok i_id (eval_body pe v ep)"
proof -
  have "i_id i' = i_id i" if "inst_evaluate ie v ep i = (r, i')" for ie and i i' :: "'s inst" and r
    using inst_evaluate_spec(1) [OF that] by (simp add: same_id_def)
  then show ?thesis by (auto simp: body_ok_def eval_body_def split: prod.splits)
qed

lemma policy_inv_set_data:
  "policy_inv pe others p \<Longrightarrow> policy_inv pe others (snd (set_data pe data p))"
  using pool_inv_world [of "(ps_world (po_state p))\<lparr>pw_data := _, pw_data_version := _\<rparr>" "po_state p" pe others]
  by (auto simp: set_data_def raise_if_closed_def act_simps policy_inv_def on_world_def split: sum.splits)

lemma policy_inv_register:
  "policy_inv pe others p \<Longrightarrow> policy_inv pe others (snd (register_builtin name fn rep p))"
  using pool_inv_world [of "(ps_world (po_state p))\<lparr>pw_registry := _\<rparr>" "po_state p" pe others]
  by (auto simp: register_builtin_def raise_if_closed_def act_simps policy_inv_def on_world_def
      split: sum.splits prod.splits)

lemma borrow_world_ticker:
  assumes "pl_closed (ps_pool st)"
  shows "borrow cb body st = (Inl (new_exc OpaPolicyClosedError ''policy is closed''), st)"
  using assms by (simp add: borrow_def act_simps)

lemma evaluate_raw_run:
  "evaluate_raw pe v entry p =
     (case resolve_entrypoint (pe_config pe) (po_entrypoints p) entry of
        Inl e \<Rightarrow> (Inl e, p)
      | Inr ep \<Rightarrow> (case borrow (policy_callbacks pe) (eval_body pe v ep) (po_state p) of
          (r, st) \<Rightarrow> (r, exit_eval ((enter_eval p)\<lparr>po_state := st\<rparr>))))"
  by (auto simp: evaluate_raw_def act_simps enter_eval_def split: sum.splits prod.splits)

lemma exit_enter:
  "po_active_evals p = 0 \<Longrightarrow> exit_eval ((enter_eval p)\<lparr>po_state := st\<rparr>)
     = (if po_closed p then stop_ticker (p\<lparr>po_state := st\<rparr>) else p\<lparr>po_state := st\<rparr>)"
  by (cases p) (simp add: exit_eval_def enter_eval_def Let_def)

lemma policy_inv_stop_ticker: "policy_inv pe others p \<Longrightarrow> policy_inv pe others (stop_ticker p)"
  using pool_inv_world [of "(ps_world (po_state p))\<lparr>pw_world := (pw_world (ps_world (po_state p)))
      \<lparr>wo_ticker := ticker_close (wo_ticker (pw_world (ps_world (po_state p))))\<rparr>\<rparr>" "po_state p" pe others]
  by (simp add: policy_inv_def stop_ticker_def on_world_def ticker_close_def close_take_thread_def close_set_stop_def)

lemma policy_inv_evaluate:
  assumes "policy_inv pe others p"
  shows "policy_inv pe others (snd (evaluate_raw pe v entry p))"
proof (cases "resolve_entrypoint (pe_config pe) (po_entrypoints p) entry")
  case (Inr ep)
  let ?b = "borrow (policy_callbacks pe) (eval_body pe v ep) (po_state p)"
  have i: "pool_inv (policy_callbacks pe) i_id stores_of native_ok others (po_state p)"
    "po_active_evals p = 0" using assms by (auto simp: policy_inv_def)
  note b = pol.borrow_inv [OF i(1) eval_body_ok [of pe v ep]]
  show ?thesis
  proof (cases "po_closed p")
    case True
    then have "?b = (Inl (new_exc OpaPolicyClosedError ''policy is closed''), po_state p)"
      using assms borrow_world_ticker by (auto simp: policy_inv_def)
    then show ?thesis using True Inr i(2) assms
      by (simp add: evaluate_raw_run exit_enter policy_inv_stop_ticker)
  next
    case False
    obtain r st where "?b = (r, st)" by fastforce
    with False Inr i(2) b assms show ?thesis
      by (simp add: evaluate_raw_run exit_enter policy_inv_def)
  qed
qed (use assms in \<open>simp add: evaluate_raw_run\<close>)

lemma policy_close_inv:
  assumes "policy_inv pe others p"
  shows "policy_inv pe others (policy_close pe p)" and "po_closed (policy_close pe p)"
    and "stores_of (ps_world (po_state (policy_close pe p))) = others"
proof -
  have i: "pool_inv (policy_callbacks pe) i_id stores_of native_ok others (po_state p)"
    "po_active_evals p = 0" using assms by (auto simp: policy_inv_def)
  let ?p = "p\<lparr>po_state := pool_close (policy_callbacks pe) (po_state p), po_closed := True\<rparr>"
  have c: "policy_close pe p = stop_ticker ?p" using i(2) by (simp add: policy_close_def)
  note pc = pol.pool_close_inv [OF i(1)]
  show "po_closed (policy_close pe p)" by (simp add: c stop_ticker_def on_world_def)
  show "stores_of (ps_world (po_state (policy_close pe p))) = others"
    using pc(3) by (simp add: c stop_ticker_def on_world_def)
  show "policy_inv pe others (policy_close pe p)"
    using pc(1,2) i(2) pool_inv_world [of _ "pool_close (policy_callbacks pe) (po_state p)" pe others]
    unfolding c by (simp add: policy_inv_def stop_ticker_def on_world_def ticker_close_def
        close_take_thread_def close_set_stop_def)
qed

section \<open>Construction leaks nothing\<close>

lemma probe_metadata_id: "probe_metadata ie i = (r, i') \<Longrightarrow> i_id i' = i_id i"
  by (auto simp: probe_metadata_def inst_entrypoints_def inst_builtins_def act_simps split: sum.splits)

lemma idle_placeholders [simp]: "idle_instances (replicate k Placeholder) = []"
  by (induction k) simp_all

lemma pool_init_inv:
  assumes "pool_init n = Inr pl" and "native_ok w"
  shows "pool_inv (policy_callbacks pe) i_id stores_of native_ok (stores_of w) \<lparr>ps_pool = pl, ps_world = w\<rparr>"
    and "\<not> pl_closed pl"
  using assms by (auto simp: pool_init_def pool_inv_def Let_def split: if_splits)

lemma run_probe_spec:
  assumes "run_probe pe w0 = (r, w)" and "native_ok w0"
  shows "native_ok w" and "stores_of w = stores_of w0"
proof -
  obtain b w1 where b: "build_instance pe w0 = (b, w1)" by fastforce
  obtain wo1 where "w1 = w0\<lparr>pw_world := wo1\<rparr>" and
    "native_ok w0 \<longrightarrow> instance_post (pw_data_version w0) (pw_world w0) b wo1"
    by (rule build_instance_run [OF b])
  with assms(2) have post: "instance_post (pw_data_version w0) (pw_world w0) b (pw_world w1)" by simp
  have "native_ok w \<and> stores_of w = stores_of w0"
  proof (cases b)
    case (Inl e)
    then have "w = w1" using assms(1) b by (simp add: run_probe_def)
    then show ?thesis using post Inl by (simp add: instance_post_def)
  next
    case (Inr i)
    obtain q i' where q: "probe_metadata (inst_env pe w1) i = (q, i')" by fastforce
    then have "w = w1\<lparr>pw_world := inst_close i' (pw_world w1)\<rparr>" using assms(1) b Inr by (simp add: run_probe_def)
    then show ?thesis using post Inr probe_metadata_id [OF q] by (simp add: instance_post_def inst_close_def)
  qed
  then show "native_ok w" and "stores_of w = stores_of w0" by simp_all
qed

definition policy_post :: "'s penv \<Rightarrow> world \<Rightarrow> exc + 's policy \<Rightarrow> world \<Rightarrow> bool" where
  "policy_post pe wo r wo' \<longleftrightarrow> native_wf (wo_native wo') \<and> nt_open (wo_native wo') = nt_open (wo_native wo)
     \<and> (case r of
          Inl e \<Rightarrow> tk_stop (wo_ticker wo') \<or> wo' = wo
        | Inr p \<Rightarrow> policy_inv pe (nt_open (wo_native wo)) p \<and> \<not> po_closed p
            \<and> pw_world (ps_world (po_state p)) = wo')"

lemma policy_init_spec:
  fixes pe :: "'s penv"
  assumes "native_wf (wo_native wo)" and "policy_init pe yaml wo = (r, wo')"
  shows "policy_post pe wo r wo'"
proof (cases "pool_init (pool_size (pe_config pe)) :: exc + 's inst pool")
  case (Inl e)
  then show ?thesis using assms by (auto simp: policy_init_def policy_post_def)
next
  case (Inr pl)
  obtain q w where q: "run_probe pe (initial_world pe yaml wo) = (q, w)" by fastforce
  have w: "native_ok w" "stores_of w = nt_open (wo_native wo)"
    using run_probe_spec [OF q] assms(1) by (simp_all add: initial_world_def)
  have i: "pool_inv (policy_callbacks pe) i_id stores_of native_ok (stores_of w) \<lparr>ps_pool = pl, ps_world = w\<rparr>"
    "\<not> pl_closed pl" by (rule pool_init_inv [OF Inr w(1)])+
  note c = pol.pool_close_inv [OF i(1)]
  show ?thesis
  proof (cases q)
    case (Inl e)
    have "native_ok (ps_world (pool_close (policy_callbacks pe) \<lparr>ps_pool = pl, ps_world = w\<rparr>))"
      using c(1) by (simp add: pool_inv_def Let_def)
    then show ?thesis using assms(2) Inr q Inl c(3) w(2)
      by (auto simp: policy_init_def Let_def policy_post_def ticker_close_def close_take_thread_def close_set_stop_def)
  next
    case (Inr m)
    obtain eps bs ver where m: "m = (eps, bs, ver)" by (cases m)
    have "r = Inr \<lparr>po_state = \<lparr>ps_pool = pl, ps_world = w\<rparr>, po_closed = False, po_active_evals = 0,
        po_entrypoints = eps, po_builtins = bs, po_abi_version = ver\<rparr>" "wo' = pw_world w"
      using assms(2) \<open>pool_init _ = Inr pl\<close> q Inr m by (simp_all add: policy_init_def)
    then show ?thesis using i w by (simp add: policy_post_def policy_inv_def)
  qed
qed

section \<open>Entrypoints, results, data\<close>

lemma resolve_entrypoint_Inr:
  assumes "resolve_entrypoint c eps entry = Inr i"
  shows "i \<in> snd ` set eps"
  using assms
  by (auto simp: resolve_entrypoint_def Let_def split: entrypoint.splits option.splits if_splits dest!: map_of_SomeD)
    force+

lemma resolve_entrypoint_error:
  "resolve_entrypoint c eps entry = Inl e \<Longrightarrow> exc_class_of e = OpaEntrypointError"
  by (auto simp: resolve_entrypoint_def Let_def split: entrypoint.splits option.splits if_splits)

lemma simplify_result_defined:
  "simplify_result c raw = Inr (Defined v) \<longleftrightarrow>
     (\<exists>kvs rest. raw = PList (PDict kvs # rest) \<and> map_of kvs (PStr (ustr ''result'')) = Some v)"
  unfolding simplify_result_def
  by (auto split: option.splits if_splits pyval.splits list.splits)

lemma simplify_result_error: "simplify_result c raw = Inl e \<Longrightarrow> exc_class_of e = OpaEvaluationError"
  by (auto simp: simplify_result_def split: option.splits if_splits)

text \<open>The one untyped error: a text that \<open>str.encode\<close> refuses before the \<open>try\<close>.\<close>

lemma serialise_data_class:
  assumes "serialise_data ft c data = Inl e"
  shows "exc_class_of e = (if \<exists>s. data = PStr s \<and> (\<exists>c \<in> set s. is_surrogate c)
    then UnicodeEncodeError else OpaInvalidInputError)"
  using assms
  by (auto simp: serialise_data_def rbind_eq_Inl utf8_encode_def split: if_splits pyval.splits
      dest!: validate_json_raises dumps_raises)

section \<open>Sequences of calls\<close>

text \<open>The calls a client may make on a policy, one after the other.\<close>

datatype policy_call =
    SetData pyval
  | RegisterBuiltin pystr "builtin option" bool
  | Evaluate pyval "entrypoint option"
  | Close

fun policy_step :: "'s penv \<Rightarrow> policy_call \<Rightarrow> 's policy \<Rightarrow> 's policy" where
  "policy_step pe (SetData data) p = snd (set_data pe data p)"
| "policy_step pe (RegisterBuiltin name fn replace) p = snd (register_builtin name fn replace p)"
| "policy_step pe (Evaluate v entry) p = snd (policy_evaluate pe v entry p)"
| "policy_step pe Close p = policy_close pe p"

lemma policy_evaluate_state: "snd (policy_evaluate pe v entry p) = snd (evaluate_raw pe v entry p)"
  by (simp add: policy_evaluate_def act_simps split: prod.splits sum.splits)

lemma policy_inv_step: "policy_inv pe others p \<Longrightarrow> policy_inv pe others (policy_step pe call p)"
  by (cases call) (simp_all add: policy_inv_set_data policy_inv_register policy_inv_evaluate policy_close_inv
      policy_evaluate_state)

lemma policy_inv_calls: "policy_inv pe others p \<Longrightarrow> policy_inv pe others (fold (policy_step pe) calls p)"
  by (induction calls arbitrary: p) (simp_all add: policy_inv_step)

text \<open>What the invariant says of the native stores of a policy and of the policy after \<open>close\<close>.\<close>

definition policy_idle :: "'s policy \<Rightarrow> 's inst list" where
  "policy_idle p = idle_instances (pl_idle (ps_pool (po_state p)))"

definition policy_stores :: "'s policy \<Rightarrow> nat set" where
  "policy_stores p = stores_of (ps_world (po_state p))"

lemma length_idle_instances: "length (idle_instances xs) \<le> length xs"
  by (induction xs rule: idle_instances.induct) auto

lemma policy_inv_stores:
  assumes "policy_inv pe others p"
  shows "policy_stores p = others \<union> i_id ` set (policy_idle p)"
    and "length (policy_idle p) \<le> pl_max_size (ps_pool (po_state p))"
    and "\<forall>i \<in> set (policy_idle p). \<not> i_poisoned i"
    and "policy_stores (policy_close pe p) = others"
    and "tk_stop (wo_ticker (pw_world (ps_world (po_state (policy_close pe p)))))"
  using assms policy_close_inv [OF assms] order_trans [OF length_idle_instances, of "pl_idle (ps_pool (po_state p))"]
  by (auto simp: policy_inv_def pool_inv_def Let_def policy_idle_def policy_stores_def)

lemma from_wasm_bytes_inv:
  assumes "native_wf nt" and "from_wasm_bytes w pt yaml depth config wasm_bytes nt = (r, nt')"
  shows "native_wf nt'" and "nt_open nt' = nt_open nt"
    and "r = Inr (pe, p) \<Longrightarrow> policy_inv pe (nt_open nt) p \<and> \<not> po_closed p"
proof -
  let ?c = "case config of None \<Rightarrow> default_config | Some c \<Rightarrow> c"
  have "native_wf nt' \<and> nt_open nt' = nt_open nt
    \<and> (\<forall>pe p. r = Inr (pe, p) \<longrightarrow> policy_inv pe (nt_open nt) p \<and> \<not> po_closed p)"
  proof (cases "factory_init w wasm_bytes (max_memory_pages ?c)")
    case (Inl e)
    then show ?thesis using assms by (auto simp: from_wasm_bytes_def Let_def)
  next
    case (Inr fac)
    let ?pe = "\<lparr>pe_wasm = w, pe_text = pt, pe_config = ?c, pe_factory = fac, pe_depth = depth\<rparr>"
      and ?wo = "\<lparr>wo_native = nt, wo_ticker = ticker_init\<rparr>"
    obtain q wo where q: "policy_init ?pe yaml ?wo = (q, wo)" by fastforce
    have "policy_post ?pe ?wo q wo" using policy_init_spec [OF _ q] assms(1) by simp
    then show ?thesis using assms(2) Inr q
      by (cases q) (auto simp: from_wasm_bytes_def Let_def policy_post_def)
  qed
  then show "native_wf nt'" and "nt_open nt' = nt_open nt"
    and "r = Inr (pe, p) \<Longrightarrow> policy_inv pe (nt_open nt) p \<and> \<not> po_closed p" by blast+
qed

text \<open>However the body of a \<open>with\<close> statement ends, its policy is closed and holds no store.\<close>

lemma with_policy_closes:
  assumes "policy_inv pe others p" and "\<And>q. policy_inv pe others q \<Longrightarrow> policy_inv pe others (snd (body q))"
  shows "fst (with_policy pe body p) = fst (body p)" and "po_closed (snd (with_policy pe body p))"
    and "policy_stores (snd (with_policy pe body p)) = others"
  using policy_close_inv [OF assms(2) [OF assms(1)]]
  by (cases "body p", simp add: with_policy_def act_simps policy_stores_def)+

text \<open>No call changes the metadata.\<close>

lemma step_metadata:
  "po_entrypoints (policy_step pe call p) = po_entrypoints p" "po_builtins (policy_step pe call p) = po_builtins p"
  "po_abi_version (policy_step pe call p) = po_abi_version p"
  by (cases call; auto simp: set_data_def register_builtin_def raise_if_closed_def act_simps on_world_def
      policy_evaluate_state evaluate_raw_run policy_close_def exit_eval_def enter_eval_def stop_ticker_def Let_def
      split: sum.splits prod.splits)+

lemma calls_metadata:
  "po_entrypoints (fold (policy_step pe) calls p) = po_entrypoints p"
  "po_builtins (fold (policy_step pe) calls p) = po_builtins p"
  "po_abi_version (fold (policy_step pe) calls p) = po_abi_version p"
  by (induction calls arbitrary: p) (simp_all add: step_metadata)

end
