(* ===== verification/Policy_Data.thy ===== *)
theory Policy_Data
  imports Policy
begin

text \<open>
  From the published data document to the guest: every idle instance whose version tag is the
  policy's carries the document that is published, as the guest parsed it. The first part says,
  for any provider of instances, that a property of the instances relative to the current
  snapshot is kept by a borrow and holds of the instance its body runs on.
\<close>

section \<open>A property of all instances of a pool\<close>

text \<open>\<open>J snapshot i\<close> is established by the factory and kept by a refresh and by the body of a borrow.\<close>

definition carried ::
  "('i, 'w) callbacks \<Rightarrow> (pyval \<times> int \<Rightarrow> 'i \<Rightarrow> bool) \<Rightarrow> ('i, 'w, 'a) body \<Rightarrow> bool" where
  "carried cb J body \<longleftrightarrow>
     (\<forall>w i w'. cb_factory cb w = (Inr i, w') \<longrightarrow> J (cb_snapshot cb w) i)
   \<and> (\<forall>w i q i'. J (cb_snapshot cb w) i \<longrightarrow> cb_version cb i \<noteq> snd (cb_snapshot cb w) \<longrightarrow>
        cb_refresh cb w (fst (cb_snapshot cb w)) (snd (cb_snapshot cb w)) i = (q, i') \<longrightarrow> J (cb_snapshot cb w) i')
   \<and> (\<forall>i w r i' d w'. J (cb_snapshot cb w) i \<longrightarrow> body i w = ((r, i', d), w') \<longrightarrow> J (cb_snapshot cb w) i' \<and> w' = w)"

definition all_idle :: "('i, 'w) callbacks \<Rightarrow> (pyval \<times> int \<Rightarrow> 'i \<Rightarrow> bool) \<Rightarrow> ('i, 'w) pstate \<Rightarrow> bool" where
  "all_idle cb J st \<longleftrightarrow> (\<forall>i \<in> set (idle_instances (pl_idle (ps_pool st))). J (cb_snapshot cb (ps_world st)) i)"

text \<open>The body ran on an instance with the property and with the current version.\<close>

definition ran_on :: "('i, 'w) callbacks \<Rightarrow> (pyval \<times> int \<Rightarrow> 'i \<Rightarrow> bool) \<Rightarrow> ('i, 'w, 'a) body \<Rightarrow> 'w \<Rightarrow> 'a \<Rightarrow> bool" where
  "ran_on cb J body w x \<longleftrightarrow> (\<exists>i i' d. J (cb_snapshot cb w) i \<and> cb_version cb i = snd (cb_snapshot cb w)
     \<and> body i w = ((Inr x, i', d), w))"

context instance_provider
begin

lemma release_frame:
  shows "set (idle_instances (pl_idle (ps_pool (snd (release cb d x st)))))
      \<subseteq> set_option x \<union> set (idle_instances (pl_idle (ps_pool st)))"
    and "cb_snapshot cb (ps_world (snd (release cb d x st))) = cb_snapshot cb (ps_world st)"
    and "fst (release cb d x st) = Inr ()"
  by (auto simp: release_def on_pool_def close_instance_def put_slot_def act_simps idle_instances_append
      close_snapshot split: option.splits)

lemma all_idle_release:
  assumes "all_idle cb J st" and "\<And>i. x = Some i \<Longrightarrow> J (cb_snapshot cb (ps_world st)) i"
  shows "all_idle cb J (snd (release cb d x st))"
  unfolding all_idle_def release_frame(2)
proof
  fix i
  assume "i \<in> set (idle_instances (pl_idle (ps_pool (snd (release cb d x st)))))"
  from subsetD [OF release_frame(1) this]
  have "x = Some i \<or> i \<in> set (idle_instances (pl_idle (ps_pool st)))" by (simp add: elem_set)
  then show "J (cb_snapshot cb (ps_world st)) i" using assms unfolding all_idle_def by blast
qed

text \<open>A borrow with its instance at hand: the refresh, the body, and one release on every path.\<close>

lemma with_instance_run:
  assumes "refresh_if_stale cb i st = (q, i1)" and "body i1 (ps_world st) = ((r2, i2, d), ps_world st)"
  shows "with_instance cb body i st = (case q of
      Inl e \<Rightarrow> (Inl e, snd (release cb False (Some i1) st))
    | Inr _ \<Rightarrow> (r2, snd (release cb d (Some i2) st)))"
proof -
  have w: "st\<lparr>ps_world := ps_world st\<rparr> = st" by (cases st) simp
  obtain s1 s2 where "release cb False (Some i1) st = (Inr (), s1)" "release cb d (Some i2) st = (Inr (), s2)"
    using release_frame(3) by (metis prod.collapse)
  then show ?thesis using assms w by (cases q) (simp_all add: with_instance_def act_simps)
qed

lemma refresh_carried:
  assumes "carried cb J body" and "J (cb_snapshot cb (ps_world st)) i" and "refresh_if_stale cb i st = (q, i')"
  shows "J (cb_snapshot cb (ps_world st)) i'"
proof (cases "cb_version cb i = snd (cb_snapshot cb (ps_world st))")
  case True
  then have "i' = i" using assms(3) by (simp add: refresh_if_stale_def split: prod.splits)
  then show ?thesis using assms(2) by simp
next
  case False
  then have "cb_refresh cb (ps_world st) (fst (cb_snapshot cb (ps_world st))) (snd (cb_snapshot cb (ps_world st))) i = (q, i')"
    using assms(3) by (simp add: refresh_if_stale_def split: prod.splits)
  with assms(1,2) False show ?thesis unfolding carried_def by blast
qed

lemma with_instance_all:
  assumes "carried cb J body" and "all_idle cb J st" and "J (cb_snapshot cb (ps_world st)) i"
    and "with_instance cb body i st = (r, st')"
  shows "all_idle cb J st'" and "r = Inr x \<Longrightarrow> ran_on cb J body (ps_world st) x"
    and "cb_snapshot cb (ps_world st') = cb_snapshot cb (ps_world st)"
proof -
  obtain q i1 where ref: "refresh_if_stale cb i st = (q, i1)" by fastforce
  note J1 = refresh_carried [OF assms(1,3) ref]
  obtain r2 i2 d w where b: "body i1 (ps_world st) = ((r2, i2, d), w)" by (metis prod_cases3 surj_pair)
  have J2: "J (cb_snapshot cb (ps_world st)) i2 \<and> w = ps_world st"
    using assms(1) J1 b unfolding carried_def by blast
  then have b': "body i1 (ps_world st) = ((r2, i2, d), ps_world st)" using b by simp
  note run = with_instance_run [where body = body, OF ref b', unfolded assms(4)]
  have rel: "all_idle cb J (snd (release cb d' (Some j) st))" if "J (cb_snapshot cb (ps_world st)) j" for d' j
    by (rule all_idle_release [OF assms(2)]) (use that in simp)
  show "all_idle cb J st'"
    using run rel [OF J1] rel [of i2 d] J2 by (cases q) simp_all
  show "cb_snapshot cb (ps_world st') = cb_snapshot cb (ps_world st)"
    using run release_frame(2) by (cases q) simp_all
  show "ran_on cb J body (ps_world st) x" if "r = Inr x"
  proof (cases q)
    case (Inr u)
    then have "r2 = Inr x" using run that by simp
    then show ?thesis unfolding ran_on_def using J1 b' refresh_current [of i st u i1] ref Inr by auto
  qed (use run that in simp)
qed

lemma take_slot_frame:
  assumes "take_slot cb st = (r, st')"
  shows "set (idle_instances (pl_idle (ps_pool st'))) \<subseteq> set (idle_instances (pl_idle (ps_pool st)))"
    and "cb_snapshot cb (ps_world st') = cb_snapshot cb (ps_world st)"
    and "r = Inr x \<Longrightarrow> ps_world st' = ps_world st \<and> set_option x \<subseteq> set (idle_instances (pl_idle (ps_pool st)))"
proof -
  have "set (idle_instances (pl_idle (ps_pool st'))) \<subseteq> set (idle_instances (pl_idle (ps_pool st)))
    \<and> cb_snapshot cb (ps_world st') = cb_snapshot cb (ps_world st)
    \<and> (\<forall>x. r = Inr x \<longrightarrow> ps_world st' = ps_world st \<and> set_option x \<subseteq> set (idle_instances (pl_idle (ps_pool st))))"
  proof (cases "pl_idle (ps_pool st)")
    case (Cons s rest)
    then show ?thesis using assms
      by (cases s) (auto simp: take_slot_def on_pool_def close_instance_def put_wake_sentinel_def put_slot_def
          act_simps idle_instances_append close_snapshot split: if_splits)
  qed (use assms in \<open>auto simp: take_slot_def act_simps\<close>)
  then show "set (idle_instances (pl_idle (ps_pool st'))) \<subseteq> set (idle_instances (pl_idle (ps_pool st)))"
    and "cb_snapshot cb (ps_world st') = cb_snapshot cb (ps_world st)"
    and "r = Inr x \<Longrightarrow> ps_world st' = ps_world st \<and> set_option x \<subseteq> set (idle_instances (pl_idle (ps_pool st)))"
    by blast+
qed

lemma create_frame:
  assumes "try_except (create_instance cb) (\<lambda>e. bnd (release cb False None) (\<lambda>_. raise e)) st = (r, st')"
  shows "set (idle_instances (pl_idle (ps_pool st'))) \<subseteq> set (idle_instances (pl_idle (ps_pool st)))"
    and "cb_snapshot cb (ps_world st') = cb_snapshot cb (ps_world st)"
    and "r = Inr i \<Longrightarrow> cb_factory cb (ps_world st) = (Inr i, ps_world st')"
proof -
  obtain f w where f: "cb_factory cb (ps_world st) = (f, w)" by fastforce
  note s = factory_snapshot [OF f]
  show "set (idle_instances (pl_idle (ps_pool st'))) \<subseteq> set (idle_instances (pl_idle (ps_pool st)))"
    and "cb_snapshot cb (ps_world st') = cb_snapshot cb (ps_world st)"
    and "r = Inr i \<Longrightarrow> cb_factory cb (ps_world st) = (Inr i, ps_world st')"
    using assms f s
    by (cases f; auto simp: create_instance_def release_def on_pool_def put_slot_def act_simps idle_instances_append
        split: if_splits)+
qed

lemma borrow_all:
  assumes "carried cb J body" and "all_idle cb J st" and "borrow cb body st = (r, st')"
  shows "all_idle cb J st'"
    and "r = Inr x \<Longrightarrow> \<exists>w. (w = ps_world st \<or> (\<exists>f. cb_factory cb (ps_world st) = (f, w))) \<and> ran_on cb J body w x"
    and "cb_snapshot cb (ps_world st') = cb_snapshot cb (ps_world st)"
proof -
  have "all_idle cb J st' \<and> cb_snapshot cb (ps_world st') = cb_snapshot cb (ps_world st) \<and> (\<forall>x. r = Inr x \<longrightarrow>
    (\<exists>w. (w = ps_world st \<or> (\<exists>f. cb_factory cb (ps_world st) = (f, w))) \<and> ran_on cb J body w x))"
  proof (cases "pl_closed (ps_pool st)")
    case True
    then show ?thesis using assms by (auto simp: borrow_def act_simps)
  next
    case False
    obtain q st1 where t: "take_slot cb st = (q, st1)" by fastforce
    note tf = take_slot_frame [OF t]
    have a1: "all_idle cb J st1" using assms(2) tf(1,2) by (auto simp: all_idle_def)
    show ?thesis
    proof (cases q)
      case (Inl e)
      then show ?thesis using assms(3) False t a1 tf(2) by (auto simp: borrow_def act_simps)
    next
      case (Inr slot)
      then have w1: "ps_world st1 = ps_world st" "set_option slot \<subseteq> set (idle_instances (pl_idle (ps_pool st)))"
        using tf(3) by blast+
      show ?thesis
      proof (cases slot)
        case (Some i)
        then have "J (cb_snapshot cb (ps_world st1)) i" using w1 assms(2) by (auto simp: all_idle_def)
        moreover have "with_instance cb body i st1 = (r, st')" using assms(3) False t Inr Some by (simp add: borrow_def act_simps)
        ultimately show ?thesis using with_instance_all [OF assms(1) a1] w1(1) by metis
      next
        case None
        obtain c st2 where c: "try_except (create_instance cb) (\<lambda>e. bnd (release cb False None) (\<lambda>_. raise e)) st1 = (c, st2)"
          by fastforce
        note cf = create_frame [OF c]
        have a2: "all_idle cb J st2" using a1 cf(1,2) by (auto simp: all_idle_def)
        show ?thesis
        proof (cases c)
          case (Inl e)
          then show ?thesis using assms(3) False t \<open>q = Inr slot\<close> None c a2 cf(2) tf(2) by (auto simp: borrow_def act_simps)
        next
          case (Inr i)
          then have f: "cb_factory cb (ps_world st) = (Inr i, ps_world st2)" using cf(3) w1(1) by simp
          then have "J (cb_snapshot cb (ps_world st2)) i"
            using assms(1) factory_snapshot [OF f] unfolding carried_def by metis
          moreover have "with_instance cb body i st2 = (r, st')"
            using assms(3) False t \<open>q = Inr slot\<close> None c Inr by (simp add: borrow_def act_simps)
          ultimately show ?thesis using with_instance_all [OF assms(1) a2] f cf(2) tf(2) by metis
        qed
      qed
    qed
  qed
  then show "all_idle cb J st'"
    and "r = Inr x \<Longrightarrow> \<exists>w. (w = ps_world st \<or> (\<exists>f. cb_factory cb (ps_world st) = (f, w))) \<and> ran_on cb J body w x"
    and "cb_snapshot cb (ps_world st') = cb_snapshot cb (ps_world st)"
    by blast+
qed

end

section \<open>The document of an instance\<close>

definition callable :: "'s abi \<Rightarrow> bool" where
  "callable ab \<longleftrightarrow> (\<forall>(name, ps, rs) \<in> set EXPECTED_SIGNATURES. ab_exports ab name = Some (Func ps rs))"

text \<open>
  The address of a document: null for none, else what the guest returned for the bytes, whatever
  host functions it could call then. (A snapshot is one or the other.)
\<close>

definition document_at :: "'s abi \<Rightarrow> ('s \<Rightarrow> bytes) \<Rightarrow> pyval \<Rightarrow> int \<Rightarrow> bool" where
  "document_at ab mem data a \<longleftrightarrow> (case data of
       PBytes b \<Rightarrow> \<exists>host. parsed_document (ab\<lparr>ab_host := host\<rparr>) mem b a
     | PNone \<Rightarrow> a = 0
     | _ \<Rightarrow> True)"

text \<open>
  An instance of the policy, never ahead of it, which carries the published document if its tag
  says so.
\<close>

definition carries_document :: "'s penv \<Rightarrow> ('s \<Rightarrow> bytes) \<Rightarrow> pyval \<times> int \<Rightarrow> 's inst \<Rightarrow> bool" where
  "carries_document pe mem snap i \<longleftrightarrow> ab_wasm (i_abi i) = pe_wasm pe \<and> callable (i_abi i)
     \<and> i_data_version i \<le> snd snap
     \<and> (i_data_version i = snd snap \<longrightarrow> document_at (i_abi i) mem (fst snap) (data_addr i))"

lemma inst_codec_abi: "\<exists>host. cd_abi (inst_codec ie i) = (i_abi i)\<lparr>ab_host := host\<rparr>"
  by (auto simp: inst_codec_def mk_codec_def)

lemma loaded_document:
  assumes "memory_ok (ab_wasm (i_abi i)) mem" and "load_data (inst_codec ie i) limit data d = (Inr (), d')"
  shows "document_at (i_abi i) mem data (data_addr d')"
proof -
  obtain host where host: "cd_abi (inst_codec ie i) = (i_abi i)\<lparr>ab_host := host\<rparr>" using inst_codec_abi by blast
  then have "memory_ok (ab_wasm (cd_abi (inst_codec ie i))) mem" using assms(1) by simp
  from load_data_document [OF this assms(2)] host show ?thesis
    by (cases data) (auto simp: document_at_def)
qed

lemma assemble_document:
  assumes "memory_ok (ie_wasm ie) mem" and "ie_spec ie = default_spec"
    and "assemble ie epoch data version rt = Inr i"
  shows "ab_wasm (i_abi i) = ie_wasm ie" and "callable (i_abi i)"
    and "document_at (i_abi i) mem data (data_addr i)"
proof -
  let ?init = "abi_init (ie_wasm ie) (host_fns (ie_wasm ie) (Some early_dispatch)) (rt_exports rt) default_spec (rt_store rt)"
  obtain ab d s items ticks where ab: "?init = Inr ab"
    and l: "load_data (inst_codec ie (fresh_instance rt ab d s items ticks version)) (max_data_bytes (ie_config ie)) data
       (fresh_instance rt ab d s items ticks version) = (Inr (), i)"
    using assms(3) unfolding assms(2) [symmetric] by (rule assembleE)
  let ?i = "fresh_instance rt ab d s items ticks version"
  have "same_rest ?i i" using keepsD [OF load_keeps_rest [of ?i] _ l] by simp
  then have a: "i_abi i = ab" using inst_more_eqD [of i ?i] by (simp add: same_rest_def same_id_def fresh_instance_def)
  have f: "ab_wasm ab = ie_wasm ie" "ab_exports ab = rt_exports rt"
    using ab by (auto simp: abi_init_def rbind_eq_Inr Let_def split: if_splits)
  show "ab_wasm (i_abi i) = ie_wasm ie" using a f by simp
  have "abi_accepts (ie_wasm ie) (rt_exports rt) (rt_store rt)" using ab abi_init_Inr_iff by metis
  then show "callable (i_abi i)" using a f by (simp add: callable_def abi_accepts_def)
  have "i_abi ?i = ab" by (simp add: fresh_instance_def)
  with loaded_document [OF _ l] f(1) assms(1) a show "document_at (i_abi i) mem data (data_addr i)" by simp
qed

lemma instance_init_assembles:
  "instance_init ie fac epoch data version wo = (Inr i, wo') \<Longrightarrow> \<exists>rt. assemble ie epoch data version rt = Inr i"
  by (auto simp: instance_init_def split: prod.splits sum.splits)

lemma inst_env_simps [simp]: "ie_wasm (inst_env pe w) = pe_wasm pe" "ie_spec (inst_env pe w) = default_spec"
  by (simp_all add: inst_env_def)

lemma reload_document:
  assumes "memory_ok (pe_wasm pe) mem" and "carries_document pe mem (data, version) i"
    and "i_data_version i \<noteq> version" and "reload_data (inst_env pe w) data version i = (q, i')"
  shows "carries_document pe mem (data, version) i'"
proof -
  note r = reload_data_spec [OF assms(4)]
  have a: "i_abi i' = i_abi i" using r(1) by (simp add: same_id_def)
  show ?thesis
  proof (cases q)
    case (Inl e)
    then have "i_data_version i' = i_data_version i" using r(2) by simp
    then show ?thesis using assms(2,3) a by (simp add: carries_document_def)
  next
    case (Inr u)
    then have v: "i_data_version i' = version" using r(2) by simp
    obtain i1 where l: "load_data (inst_codec (inst_env pe w) i) (max_data_bytes (ie_config (inst_env pe w))) data i = (Inr (), i1)"
      "i' = i1\<lparr>i_data_version := version\<rparr>"
      using assms(4) Inr by (auto simp: reload_data_def act_simps split: sum.splits prod.splits)
    have "memory_ok (ab_wasm (i_abi i)) mem" using assms(1,2) by (simp add: carries_document_def)
    from loaded_document [OF this l(1)] show ?thesis using assms(2) a v l(2) by (simp add: carries_document_def)
  qed
qed

lemma policy_carried:
  assumes "memory_ok (pe_wasm pe) mem"
  shows "carried (policy_callbacks pe) (carries_document pe mem) (eval_body pe v ep)"
  unfolding carried_def callbacks_simps
proof (intro conjI allI impI)
  fix w w' and i :: "'a inst"
  assume "build_instance pe w = (Inr i, w')"
  then obtain wo where b: "instance_init (inst_env pe w) (pe_factory pe) True (fst (data_snapshot w)) (snd (data_snapshot w)) (pw_world w)
      = (Inr i, wo)" by (auto simp: build_instance_def split: prod.splits)
  then obtain rt where rt: "assemble (inst_env pe w) True (fst (data_snapshot w)) (snd (data_snapshot w)) rt = Inr i"
    using instance_init_assembles by blast
  have "memory_ok (ie_wasm (inst_env pe w)) mem" using assms by simp
  note d = assemble_document [OF this _ rt] and v = assemble_fields(2) [OF rt]
  then show "carries_document pe mem (data_snapshot w) i" by (simp add: carries_document_def)
next
  fix w q and i i' :: "'a inst"
  assume "carries_document pe mem (data_snapshot w) i" "i_data_version i \<noteq> snd (data_snapshot w)"
    "reload_data (inst_env pe w) (fst (data_snapshot w)) (snd (data_snapshot w)) i = (q, i')"
  then show "carries_document pe mem (data_snapshot w) i'"
    using reload_document [OF assms, of "fst (data_snapshot w)" "snd (data_snapshot w)"] by simp
next
  fix w w' r d and i i' :: "'a inst"
  assume c: "carries_document pe mem (data_snapshot w) i" and b: "eval_body pe v ep i w = ((r, i', d), w')"
  then have e: "inst_evaluate (inst_env pe w) v ep i = (r, i')" and "w' = w"
    by (auto simp: eval_body_def split: prod.splits)
  note s = inst_evaluate_spec [OF e]
  then have "i_abi i' = i_abi i" "data_addr i' = data_addr i" "i_data_version i' = i_data_version i"
    by (simp_all add: same_id_def same_doc_def)
  then show "carries_document pe mem (data_snapshot w) i'" using c by (simp add: carries_document_def)
  show "w' = w" by fact
qed

section \<open>Over the life of a policy\<close>

definition documents_inv :: "'s penv \<Rightarrow> ('s \<Rightarrow> bytes) \<Rightarrow> 's policy \<Rightarrow> bool" where
  "documents_inv pe mem p \<longleftrightarrow> all_idle (policy_callbacks pe) (carries_document pe mem) (po_state p)"

text \<open>An update of the world that leaves the snapshot, or replaces it by one with a later version.\<close>

lemma documents_inv_world:
  assumes "documents_inv pe mem p"
    and "data_snapshot (f (ps_world (po_state p))) = data_snapshot (ps_world (po_state p))
      \<or> pw_data_version (ps_world (po_state p)) < pw_data_version (f (ps_world (po_state p)))"
  shows "documents_inv pe mem (on_world f p)"
proof -
  have "carries_document pe mem (data_snapshot (f (ps_world (po_state p)))) i"
    if "carries_document pe mem (data_snapshot (ps_world (po_state p))) i" for i
    using that assms(2) by (auto simp: carries_document_def data_snapshot_def)
  then show ?thesis using assms(1) by (auto simp: documents_inv_def all_idle_def on_world_def)
qed

lemma documents_stop_ticker: "documents_inv pe mem p \<Longrightarrow> documents_inv pe mem (stop_ticker p)"
  unfolding stop_ticker_def by (rule documents_inv_world) (simp_all add: data_snapshot_def)

lemma documents_set_data: "documents_inv pe mem p \<Longrightarrow> documents_inv pe mem (snd (set_data pe data p))"
  by (auto simp: set_data_def raise_if_closed_def act_simps split: sum.splits intro!: documents_inv_world)

lemma documents_register: "documents_inv pe mem p \<Longrightarrow> documents_inv pe mem (snd (register_builtin name fn rep p))"
  by (auto simp: register_builtin_def raise_if_closed_def act_simps data_snapshot_def
      split: sum.splits prod.splits intro!: documents_inv_world)

lemma documents_exit: "documents_inv pe mem (p\<lparr>po_active_evals := n\<rparr>) = documents_inv pe mem p"
  by (simp add: documents_inv_def)

lemma documents_evaluate:
  assumes "memory_ok (pe_wasm pe) mem" and "documents_inv pe mem p"
  shows "documents_inv pe mem (snd (evaluate_raw pe v entry p))"
proof (cases "resolve_entrypoint (pe_config pe) (po_entrypoints p) entry")
  case (Inr ep)
  obtain r st where b: "borrow (policy_callbacks pe) (eval_body pe v ep) (po_state p) = (r, st)" by fastforce
  have "all_idle (policy_callbacks pe) (carries_document pe mem) st"
    by (rule pol.borrow_all(1) [OF policy_carried [OF assms(1)] _ b]) (use assms(2) in \<open>simp add: documents_inv_def\<close>)
  then have "documents_inv pe mem ((enter_eval p)\<lparr>po_state := st\<rparr>)" by (simp add: documents_inv_def)
  then have "documents_inv pe mem (exit_eval ((enter_eval p)\<lparr>po_state := st\<rparr>))"
    unfolding exit_eval_def Let_def by (simp add: documents_stop_ticker documents_exit)
  then show ?thesis using Inr b by (simp add: evaluate_raw_run)
qed (use assms(2) in \<open>simp add: evaluate_raw_run\<close>)

lemma documents_close:
  assumes "documents_inv pe mem p"
  shows "documents_inv pe mem (policy_close pe p)"
proof -
  let ?q = "p\<lparr>po_state := pool_close (policy_callbacks pe) (po_state p), po_closed := True\<rparr>"
  have "documents_inv pe mem ?q" using assms
    by (auto simp: documents_inv_def all_idle_def pool_close_def Let_def put_wake_sentinel_def put_slot_def)
  then show ?thesis unfolding policy_close_def Let_def by (simp add: documents_stop_ticker)
qed

lemma documents_calls:
  assumes "memory_ok (pe_wasm pe) mem" and "documents_inv pe mem p"
  shows "documents_inv pe mem (fold (policy_step pe) calls p)"
  using assms(2)
proof (induction calls arbitrary: p)
  case (Cons c calls)
  have "documents_inv pe mem (policy_step pe c p)"
    using Cons.prems by (cases c) (simp_all add: documents_set_data documents_register documents_close
        policy_evaluate_state documents_evaluate [OF assms(1)])
  from Cons.IH [OF this] show ?case by simp
qed simp

lemma documents_from_wasm_bytes:
  assumes "from_wasm_bytes w pt yaml depth config wasm_bytes nt = (Inr (pe, p), nt')"
  shows "documents_inv pe mem p" and "pe_wasm pe = w"
  using assms
  by (auto simp: from_wasm_bytes_def policy_init_def pool_init_def documents_inv_def all_idle_def Let_def
      split: sum.splits prod.splits if_splits)

section \<open>Which document is published\<close>

text \<open>The last document that \<open>set_data\<close> accepted before the policy was closed.\<close>

fun last_document :: "float_text \<Rightarrow> policy_config \<Rightarrow> policy_call list \<Rightarrow> bytes option \<Rightarrow> bytes option" where
  "last_document ft c [] doc = doc"
| "last_document ft c (Close # calls) doc = doc"
| "last_document ft c (SetData data # calls) doc = last_document ft c calls
     (case serialise_data ft c data of Inl e \<Rightarrow> doc | Inr doc' \<Rightarrow> doc')"
| "last_document ft c (_ # calls) doc = last_document ft c calls doc"

definition published_data :: "'s policy \<Rightarrow> bytes option" where
  "published_data p = pw_data (ps_world (po_state p))"

lemma published_data_snapshot:
  "data_snapshot (ps_world (po_state p)) = data_snapshot (ps_world (po_state q)) \<Longrightarrow> published_data p = published_data q"
  by (auto simp: data_snapshot_def published_data_def split: option.splits)

lemma published_stop_ticker [simp]: "published_data (stop_ticker p) = published_data p"
  by (simp add: published_data_def stop_ticker_def on_world_def)

lemma evaluate_keeps_published:
  "published_data (snd (evaluate_raw pe v entry p)) = published_data p" (is ?data)
  "po_closed (snd (evaluate_raw pe v entry p)) = po_closed p" (is ?closed)
proof -
  have "?data \<and> ?closed"
  proof (cases "resolve_entrypoint (pe_config pe) (po_entrypoints p) entry")
    case (Inr ep)
    obtain r st where b: "borrow (policy_callbacks pe) (eval_body pe v ep) (po_state p) = (r, st)" by fastforce
    have "carried (policy_callbacks pe) (\<lambda>_ _. True) (eval_body pe v ep)"
      by (auto simp: carried_def eval_body_def split: prod.splits)
    from pol.borrow_all(3) [OF this _ b] have "data_snapshot (ps_world st) = data_snapshot (ps_world (po_state p))"
      by (simp add: all_idle_def)
    then have "published_data ((enter_eval p)\<lparr>po_state := st\<rparr>) = published_data p"
      by (intro published_data_snapshot) simp
    then have "published_data (exit_eval ((enter_eval p)\<lparr>po_state := st\<rparr>)) = published_data p"
      unfolding exit_eval_def Let_def by (auto simp: published_data_def stop_ticker_def on_world_def)
    moreover have "po_closed (exit_eval ((enter_eval p)\<lparr>po_state := st\<rparr>)) = po_closed p"
      by (simp add: exit_eval_def enter_eval_def stop_ticker_def on_world_def Let_def)
    ultimately show ?thesis using Inr b by (simp add: evaluate_raw_run)
  qed (simp add: evaluate_raw_run)
  then show ?data ?closed by simp_all
qed

lemma evaluate_keeps_registry:
  "pw_registry (ps_world (po_state (snd (evaluate_raw pe v entry p)))) = pw_registry (ps_world (po_state p))"
proof (cases "resolve_entrypoint (pe_config pe) (po_entrypoints p) entry")
  case (Inr ep)
  obtain r st where b: "borrow (policy_callbacks pe) (eval_body pe v ep) (po_state p) = (r, st)" by fastforce
  have "keeps (\<lambda>st. pw_registry (ps_world st) = pw_registry (ps_world (po_state p))) (borrow (policy_callbacks pe) (eval_body pe v ep))"
    by (rule keeps_borrow) (auto simp: policy_callbacks_def build_instance_def eval_body_def split: prod.splits)
  from keepsD [OF this refl b] Inr b show ?thesis
    by (simp add: evaluate_raw_run exit_eval_def stop_ticker_def on_world_def Let_def)
qed (simp add: evaluate_raw_run)

lemma close_keeps_published:
  "published_data (policy_close pe p) = published_data p" "po_closed (policy_close pe p)"
proof -
  have "data_snapshot (ps_world (pool_close (policy_callbacks pe) (po_state p))) = data_snapshot (ps_world (po_state p))"
    using pol.fold_close [where pe = pe] by (auto simp: pool_close_def Let_def)
  then have "published_data (p\<lparr>po_state := pool_close (policy_callbacks pe) (po_state p), po_closed := True\<rparr>) = published_data p"
    by (intro published_data_snapshot) simp
  then show "published_data (policy_close pe p) = published_data p" unfolding policy_close_def Let_def by simp
  show "po_closed (policy_close pe p)" by (simp add: policy_close_def Let_def stop_ticker_def on_world_def)
qed

lemma set_data_published:
  "published_data (snd (set_data pe data p)) = (if po_closed p then published_data p
     else case serialise_data (pt_float (pe_text pe)) (pe_config pe) data of Inl e \<Rightarrow> published_data p | Inr doc \<Rightarrow> doc)"
  "po_closed (snd (set_data pe data p)) = po_closed p"
  by (auto simp: set_data_def raise_if_closed_def act_simps published_data_def on_world_def split: sum.splits)

lemma register_published:
  "published_data (snd (register_builtin name fn rep p)) = published_data p"
  "po_closed (snd (register_builtin name fn rep p)) = po_closed p"
  by (auto simp: register_builtin_def raise_if_closed_def act_simps published_data_def on_world_def split: sum.splits prod.splits)

lemmas step_published = evaluate_keeps_published close_keeps_published set_data_published register_published

lemma closed_published: "po_closed p \<Longrightarrow> published_data (fold (policy_step pe) calls p) = published_data p"
proof (induction calls arbitrary: p)
  case (Cons c calls)
  have "po_closed (policy_step pe c p)" "published_data (policy_step pe c p) = published_data p"
    using Cons.prems by (cases c; simp add: policy_evaluate_state step_published)+
  with Cons.IH [of "policy_step pe c p"] show ?case by simp
qed simp

lemma calls_published:
  "\<not> po_closed p \<Longrightarrow> published_data (fold (policy_step pe) calls p)
     = last_document (pt_float (pe_text pe)) (pe_config pe) calls (published_data p)"
proof (induction calls arbitrary: p)
  case (Cons c calls)
  show ?case
  proof (cases "c = Close")
    case True
    then show ?thesis by (simp add: closed_published step_published)
  next
    case False
    then have "\<not> po_closed (policy_step pe c p)"
      using Cons.prems by (cases c) (simp_all add: policy_evaluate_state step_published)
    from Cons.IH [OF this] show ?thesis
      using False Cons.prems by (cases c) (simp_all add: policy_evaluate_state step_published)
  qed
qed simp

lemma fresh_policy_published:
  assumes "from_wasm_bytes w pt yaml depth config wasm_bytes nt = (Inr (pe, p), nt')"
  shows "published_data p = None" and "\<not> po_closed p" and "pe_text pe = pt"
proof -
  have b: "pw_data w' = pw_data w0" if "run_probe pe w0 = (r, w')" for w0 w' r and pe :: "'a penv"
    using that by (auto simp: run_probe_def build_instance_def split: prod.splits sum.splits)
  show "published_data p = None" "\<not> po_closed p" "pe_text pe = pt"
    using assms b
    by (auto simp: from_wasm_bytes_def policy_init_def published_data_def initial_world_def Let_def
        split: sum.splits prod.splits if_splits)
qed

section \<open>What an evaluation answers\<close>

text \<open>
  A guest that works: its memory is a byte array, and its heap and allocator do what the SDK
  relies on, whatever host functions they may call.
\<close>

definition working_guest :: "'s wasm \<Rightarrow> ('s \<Rightarrow> bytes) \<Rightarrow> ('s \<Rightarrow> int) \<Rightarrow> bool" where
  "working_guest w mem hp \<longleftrightarrow> memory_ok w mem
     \<and> (\<forall>ab. ab_wasm ab = w \<longrightarrow> callable ab \<longrightarrow> heap_ok ab hp \<and> malloc_ok ab hp)"

text \<open>
  The answer of the guest of one instance of the policy to the input \<open>v\<close> at the entrypoint
  \<open>ep\<close>: it was given the published document and the serialised input.
\<close>

definition guest_answer ::
  "'s penv \<Rightarrow> ('s \<Rightarrow> bytes) \<Rightarrow> 's policy \<Rightarrow> pyval \<Rightarrow> int \<Rightarrow> pyval \<Rightarrow> bool" where
  "guest_answer pe mem p v ep result \<longleftrightarrow> (\<exists>i raw. let ev = inst_evaluator (inst_env pe (ps_world (po_state p))) i in
     ab_wasm (i_abi i) = pe_wasm pe
     \<and> document_at (i_abi i) mem (fst (data_snapshot (ps_world (po_state p)))) (data_addr i)
     \<and> encode_input (ev_codec ev) v (max_input_bytes (pe_config pe)) (parse_raw_json_input (pe_config pe)) = Inr raw
     \<and> faithful_eval ev mem raw ep (data_addr i) result)"

lemma evaluate_raw_answer:
  assumes "working_guest (pe_wasm pe) mem hp" and "documents_inv pe mem p"
    and "evaluate_raw pe v entry p = (Inr result, q)"
  shows "\<exists>ep. resolve_entrypoint (pe_config pe) (po_entrypoints p) entry = Inr ep \<and> guest_answer pe mem p v ep result"
proof -
  have m: "memory_ok (pe_wasm pe) mem" using assms(1) by (simp add: working_guest_def)
  obtain ep st where ep: "resolve_entrypoint (pe_config pe) (po_entrypoints p) entry = Inr ep"
    and b: "borrow (policy_callbacks pe) (eval_body pe v ep) (po_state p) = (Inr result, st)"
    using assms(3) by (auto simp: evaluate_raw_run split: sum.splits prod.splits)
  have "all_idle (policy_callbacks pe) (carries_document pe mem) (po_state p)"
    using assms(2) by (simp add: documents_inv_def)
  from pol.borrow_all(2) [OF policy_carried [OF m] this b] obtain w where
    w: "w = ps_world (po_state p) \<or> (\<exists>f. build_instance pe (ps_world (po_state p)) = (f, w))"
    and ran: "ran_on (policy_callbacks pe) (carries_document pe mem) (eval_body pe v ep) w result" by auto
  have same: "inst_env pe w = inst_env pe (ps_world (po_state p))" "data_snapshot w = data_snapshot (ps_world (po_state p))"
    using w by (auto simp: build_instance_def inst_env_def data_snapshot_def split: prod.splits)
  obtain i i' d where j: "carries_document pe mem (data_snapshot w) i" "i_data_version i = snd (data_snapshot w)"
    "eval_body pe v ep i w = ((Inr result, i', d), w)"
    using ran unfolding ran_on_def callbacks_simps by blast
  then have i: "carries_document pe mem (data_snapshot w) i" "i_data_version i = snd (data_snapshot w)"
    "inst_evaluate (inst_env pe w) v ep i = (Inr result, i')" by (auto simp: eval_body_def split: prod.splits)
  obtain host where host: "cd_abi (inst_codec (inst_env pe w) i) = (i_abi i)\<lparr>ab_host := host\<rparr>" using inst_codec_abi by blast
  have "memory_ok (ab_wasm (cd_abi (inst_codec (inst_env pe w) i))) mem"
    "heap_ok (cd_abi (inst_codec (inst_env pe w) i)) hp" "malloc_ok (cd_abi (inst_codec (inst_env pe w) i)) hp"
    using assms(1) host i(1) by (auto simp: working_guest_def carries_document_def callable_def)
  then obtain raw where "encode_input (inst_codec (inst_env pe w) i) v (max_input_bytes (ie_config (inst_env pe w)))
      (parse_raw_json_input (ie_config (inst_env pe w))) = Inr raw"
    "faithful_eval (inst_evaluator (inst_env pe w) i) mem raw ep (data_addr i) result"
    using i(3) by (rule inst_evaluate_faithful)
  then have "guest_answer pe mem p v ep result" unfolding guest_answer_def Let_def same [symmetric]
    using i by (intro exI [of _ i] exI [of _ raw])
      (simp add: carries_document_def inst_evaluator_def, simp add: inst_env_def)
  with ep show ?thesis by blast
qed

section \<open>Decisions are JSON values\<close>

lemma run_guest_loaded: "run_guest ev on_enter raw ep d = (Inr v, d') \<Longrightarrow> loaded v"
  unfolding run_guest_def
  by (auto simp: ret_run on_store_iff elim!: bnd_InrE dest: read_json_cstring_loaded)

lemma eval_failed_raises: "eval_failed ev entered e d \<noteq> (Inr v, d')"
  by (auto simp: eval_failed_def act_simps split: if_splits sum.splits prod.splits option.splits)

lemma inst_evaluate_loaded:
  assumes "inst_evaluate ie v ep i = (Inr x, i')"
  shows "loaded x"
proof -
  obtain d d' where "evaluate (inst_evaluator ie i) (Some mark_entered_wasm) v ep d = (Inr x, d')"
    using assms by (auto simp: inst_evaluate_def act_simps split: sum.splits prod.splits)
  then show ?thesis
    by (auto simp: evaluate_def act_simps eval_failed_raises split: sum.splits prod.splits dest: run_guest_loaded)
qed

lemma evaluate_raw_loaded:
  assumes "evaluate_raw pe v entry p = (Inr x, q)"
  shows "loaded x"
proof -
  obtain ep st where b: "borrow (policy_callbacks pe) (eval_body pe v ep) (po_state p) = (Inr x, st)"
    using assms by (auto simp: evaluate_raw_run split: sum.splits prod.splits)
  have "carried (policy_callbacks pe) (\<lambda>_ _. True) (eval_body pe v ep)"
    by (auto simp: carried_def eval_body_def split: prod.splits)
  from pol.borrow_all(2) [OF this _ b refl] obtain w i i' d where "eval_body pe v ep i w = ((Inr x, i', d), w)"
    by (auto simp: all_idle_def ran_on_def)
  then show ?thesis using inst_evaluate_loaded by (auto simp: eval_body_def split: prod.splits)
qed

text \<open>Simplification picks a member of the result set.\<close>

lemma simplify_result_loaded:
  assumes "loaded raw" and "simplify_result c raw = Inr (Defined v)"
  shows "loaded v"
proof -
  obtain kvs rest where "raw = PList (PDict kvs # rest)" "map_of kvs (PStr (ustr ''result'')) = Some v"
    using assms(2) unfolding simplify_result_defined by blast
  then show ?thesis using assms(1) map_of_SomeD by fastforce
qed

end
