(* ===== verification/Guest.thy ===== *)
theory Guest
  imports Policy_Data
begin

text \<open>
  A small concrete guest and package, executable, on which the hypotheses that the theorems
  make about guests are shown to hold and the witnesses are evaluated. An OPA value of this
  guest is simply its NUL-terminated JSON text; it allocates by moving the heap pointer, and
  evaluating a policy answers the input document: \<open>[{"result":input}]\<close>.
\<close>

section \<open>Floats\<close>

text \<open>A float text that satisfies the contract: the bit pattern in decimal.\<close>

definition demo_float :: float_text where
  "demo_float = \<lparr>float_repr = (\<lambda>f. dec_digits (unat f) @ [46, 48]),
     float_of = (\<lambda>s. of_nat (digits_val (takeWhile is_digit s)))\<rparr>"

lemma takeWhile_dec_digits: "takeWhile is_digit (dec_digits n @ [46, 48]) = dec_digits n"
  using dec_digits_digits [of n] by (simp add: takeWhile_append list_all_iff is_digit_def)

lemma demo_float_ok: "float_text_ok demo_float"
proof -
  have "float_literal (dec_digits n @ [46, 48])" for n
  proof -
    have "dec_digits n = [48] \<or> dec_digits n \<noteq> [] \<and> hd (dec_digits n) \<noteq> 48 \<and> list_all is_digit (dec_digits n)"
      using dec_digits_digits dec_digits_nonempty hd_dec_digits dec_digits_0 by (cases "n = 0") auto
    then show ?thesis unfolding float_literal_def
      by (intro exI [of _ "[]"] exI [of _ "dec_digits n"] exI [of _ "[46, 48]"])
        (auto simp: is_digit_def)
  qed
  then show ?thesis
    by (simp add: float_text_ok_def demo_float_def takeWhile_dec_digits digits_val_dec)
qed

section \<open>The store and its operations\<close>

record gstore =
  g_mem :: bytes
  g_hp :: int
  g_dl :: int

definition g_heap :: "gstore \<Rightarrow> int" where
  "g_heap s = g_hp s mod 2 ^ 31"

definition g_put :: "int \<Rightarrow> bytes \<Rightarrow> gstore \<Rightarrow> gstore" where
  "g_put a b s = s\<lparr>g_mem := take (nat a) (g_mem s) @ b @ drop (nat a + length b) (g_mem s)\<rparr>"

definition g_trap :: exc where
  "g_trap = new_exc (Trap (Some (OTHER_TRAP_CODE 0))) ''wasm trap: unreachable''"

text \<open>Writes a NUL-terminated text at the heap pointer and moves the pointer past it.\<close>

definition g_alloc :: "bytes \<Rightarrow> gstore \<Rightarrow> (exc + int option) \<times> gstore" where
  "g_alloc b s = (let a = g_heap s; b' = b @ [0] in
     if int (length (g_mem s)) < a + int (length b') then (Inl g_trap, s)
     else (Inr (Some a), (g_put a b' s)\<lparr>g_hp := a + int (length b')\<rparr>))"

fun g_call :: "gstore host \<Rightarrow> string \<Rightarrow> int list \<Rightarrow> gstore \<Rightarrow> (exc + int option) \<times> gstore" where
  "g_call host name args s =
     (if name = ''opa_heap_ptr_get'' then (Inr (Some (g_heap s)), s)
      else if name = ''opa_heap_ptr_set'' then (Inr None, s\<lparr>g_hp := hd args\<rparr>)
      else if name = ''opa_malloc'' then
        (let a = g_heap s; n = hd args in
         if n < 0 \<or> 2 ^ 31 \<le> a + n then (Inl g_trap, s) else (Inr (Some a), s\<lparr>g_hp := a + n\<rparr>))
      else if name = ''opa_json_parse'' then g_alloc (region (g_mem s) (hd args) (nat (args ! 1))) s
      else if name = ''opa_json_dump'' then (Inr (Some (hd args)), s)
      else if name = ''entrypoints'' then g_alloc (map of_char ''{\"authz/allow\":0}'') s
      else if name = ''builtins'' then g_alloc (map of_char ''{\"b\":7}'') s
      else if name = ''opa_eval'' then
        g_alloc (map of_char ''[{\"result\":'' @ region (g_mem s) (args ! 3) (nat (args ! 4)) @ map of_char ''}]'')
          (s\<lparr>g_hp := args ! 5\<rparr>)
      else (Inl g_trap, s))"

definition g_exports :: "string \<Rightarrow> extern option" where
  "g_exports = map_of ([(''opa_wasm_abi_version'', Global), (''opa_wasm_abi_minor_version'', Global)]
     @ map (\<lambda>(name, ps, rs). (name, Func ps rs)) EXPECTED_SIGNATURES)"

definition g_module :: wmodule where
  "g_module = \<lparr>m_imports = [(''env'', ''memory'', Memory), (''env'', ''opa_abort'', Func [I32] [])], m_code = [0]\<rparr>"

text \<open>Instantiation needs \<open>need\<close> initial pages, as a module with large data segments does.\<close>

definition g_wasm :: "int \<Rightarrow> gstore wasm" where
  "g_wasm need = \<lparr>
     wt_compile = (\<lambda>b. Inr g_module),
     wt_store_new = (\<lambda>n. Inr \<lparr>g_mem = [], g_hp = 16, g_dl = 0\<rparr>),
     wt_set_epoch_deadline = (\<lambda>n s. s\<lparr>g_dl := n\<rparr>),
     wt_memory_new = (\<lambda>p mx s. (Inr (), s\<lparr>g_mem := replicate (nat (p * 32)) 0\<rparr>)),
     wt_set_limits = (\<lambda>n s. (Inr (), s)),
     wt_define = (\<lambda>l s. (Inr (), s)),
     wt_instantiate = (\<lambda>h ls m s. if int (length (g_mem s)) < need * 32
        then (Inl (new_exc (Trap (Some MEMORY_OUT_OF_BOUNDS)) ''wasm trap: out of bounds memory access''), s)
        else (Inr (), s)),
     wt_exports = (\<lambda>s. g_exports),
     wt_global_value = (\<lambda>name s. GInt (if name = ''opa_wasm_abi_version'' then 1 else 2)),
     wt_call = g_call,
     wt_memory_read = (\<lambda>i j s. (Inr (take (nat (j - i)) (drop (nat i) (g_mem s))), s)),
     wt_memory_write = (\<lambda>b i s. if i < 0 \<or> int (length (g_mem s)) < i + int (length b)
        then (Inl (new_exc (OtherException ''IndexError'') ''index out of range''), s) else (Inr (), g_put i b s)),
     wt_data_len = (\<lambda>s. int (length (g_mem s)))\<rparr>"

definition g_abi :: "gstore host \<Rightarrow> gstore abi" where
  "g_abi host = \<lparr>ab_wasm = g_wasm 2, ab_host = host, ab_exports = g_exports, ab_version = (1, 2),
     supports_opa_eval = True, supports_eval_context = False, supports_heap_stash = False,
     supports_value_free = False\<rparr>"

definition g_env :: "gstore ienv" where
  "g_env = \<lparr>ie_wasm = g_wasm 2, ie_float = demo_float, ie_config = default_config\<lparr>eval_timeout_seconds := None\<rparr>,
     ie_spec = default_spec, ie_builtins = (\<lambda>n. None), ie_depth = 0\<rparr>"

section \<open>The guest satisfies the contracts\<close>

lemma g_exports_fun:
  "(name, ps, rs) \<in> set EXPECTED_SIGNATURES \<Longrightarrow> get_func g_exports name = Inr (ps, rs)"
  unfolding get_func_Inr g_exports_def EXPECTED_SIGNATURES_def by auto

lemma g_memory_ok: "memory_ok (g_wasm n) g_mem"
  by (auto simp: memory_ok_def g_wasm_def g_put_def)

lemma g_callable: "callable (g_abi host)"
  unfolding callable_def using g_exports_fun by (auto simp: g_abi_def get_func_Inr)

lemma g_call_run:
  assumes "ab_wasm ab = g_wasm n" and "callable ab" and "name \<in> fst ` set EXPECTED_SIGNATURES"
  shows "call_void ab name args s = g_call (ab_host ab) name args s"
proof -
  obtain ps rs where "ab_exports ab name = Some (Func ps rs)" using assms(2,3) unfolding callable_def by fastforce
  then have "get_func (ab_exports ab) name = Inr (ps, rs)" by (simp add: get_func_Inr)
  then show ?thesis using assms(1) by (simp add: call_void_def g_wasm_def act_simps del: g_call.simps)
qed

lemma callable_heap_ok:
  assumes "ab_wasm ab = g_wasm n" and "callable ab"
  shows "heap_ok ab g_heap"
  by (auto simp: heap_ok_def opa_heap_ptr_get_def opa_heap_ptr_set_def abi_call_def act_simps g_call_run [OF assms]
      EXPECTED_SIGNATURES_def g_heap_def)

lemma callable_malloc_run:
  assumes "ab_wasm ab = g_wasm m" and "callable ab"
  shows "opa_malloc ab n s = (let a = g_heap s in
     if n < 0 \<or> 2 ^ 31 \<le> a + n then (Inl g_trap, s) else (Inr a, s\<lparr>g_hp := a + n\<rparr>))"
  by (simp add: opa_malloc_def abi_call_def act_simps g_call_run [OF assms] EXPECTED_SIGNATURES_def Let_def)

lemma callable_malloc_ok:
  assumes "ab_wasm ab = g_wasm m" and "callable ab"
  shows "malloc_ok ab g_heap"
proof -
  have "0 \<le> g_heap s" for s by (simp add: g_heap_def)
  then have "a + n \<le> g_heap s'" if "opa_malloc ab n s = (Inr a, s')" for n a s s'
    using that by (auto simp: callable_malloc_run [OF assms] Let_def g_heap_def [of "_\<lparr>g_hp := _\<rparr>"] split: if_splits)
  moreover have "g_heap s' = g_heap s" if "wt_memory_write (ab_wasm ab) b i s = (r, s')" for b i s r s'
    using that assms(1) by (auto simp: g_wasm_def g_put_def g_heap_def split: if_splits)
  ultimately show ?thesis by (simp add: malloc_ok_def)
qed

lemma g_working: "working_guest (g_wasm n) g_mem g_heap"
  unfolding working_guest_def using g_memory_ok callable_heap_ok callable_malloc_ok by blast

lemma g_wasm_abi: "ab_wasm (g_abi host) = g_wasm 2"
  by (simp add: g_abi_def)

lemmas g_heap_ok = callable_heap_ok [OF g_wasm_abi g_callable]
lemmas g_malloc_run = callable_malloc_run [OF g_wasm_abi g_callable]
lemmas g_malloc_ok = callable_malloc_ok [OF g_wasm_abi g_callable]

lemma g_deadline_ok: "deadline_ok (g_wasm n) g_heap g_dl"
  by (simp add: deadline_ok_def g_wasm_def g_heap_def)

section \<open>An evaluator and an instance on this guest\<close>

definition g_host :: "gstore host" where
  "g_host name args = raise g_trap"

definition g_codec :: "gstore codec" where
  "g_codec = mk_codec g_env (g_abi g_host)"

definition g_store :: gstore where
  "g_store = \<lparr>g_mem = replicate 128 0, g_hp = 16, g_dl = 0\<rparr>"

definition g_ev :: "gstore evaluator" where
  "g_ev = \<lparr>ev_codec = g_codec, ev_max_input_bytes = 1000, ev_max_result_bytes = 1000,
     ev_validate_input = True, ev_deadline_ticks = Some 5\<rparr>"

definition g_dm :: "gstore dm" where
  "g_dm = \<lparr>dm_store = g_store, initial_heap_ptr = 16, data_addr = 0, data_heap_ptr = 16\<rparr>"

definition g_inst :: "gstore inst" where
  "g_inst = \<lparr>dm_store = g_store, initial_heap_ptr = 16, data_addr = 0, data_heap_ptr = 16, i_id = 0,
     i_abi = g_abi g_host, i_builtin_id_to_name = (\<lambda>n. None), i_deadline_ticks = Some 5,
     i_data_version = 0, i_poisoned = False, i_entered_wasm = False\<rparr>"

lemma g_codec_simps [simp]:
  "cd_abi g_codec = g_abi g_host" "cd_float g_codec = demo_float" "ab_wasm (g_abi h) = g_wasm 2"
  "ev_codec g_ev = g_codec" "ie_float g_env = demo_float"
  "cd_abi (inst_codec g_env g_inst) = g_abi (inst_host g_env (g_abi g_host) (\<lambda>n. None) 0)"
  "ev_codec (inst_evaluator ie i) = inst_codec ie i"
  by (simp_all add: g_codec_def mk_codec_def g_abi_def g_ev_def g_env_def inst_codec_def g_inst_def inst_evaluator_def)

lemma g_dm_inv [simp]: "dm_inv g_dm" "dm_inv g_inst"
  by (simp_all add: dm_inv_def g_dm_def g_inst_def)

section \<open>A policy on this guest\<close>

definition demo_text :: py_text where
  "demo_text = \<lparr>pt_float = demo_float, pt_repr = (\<lambda>v. ustr ''<value>''),
     pt_percent = (\<lambda>f v. Inl (new_exc TypeError ''unsupported operand''))\<rparr>"

definition demo_env :: "gstore penv" where
  "demo_env = \<lparr>pe_wasm = g_wasm 2, pe_text = demo_text, pe_config = default_config,
     pe_factory = \<lparr>fa_module = g_module, fa_max_memory_pages = Some 4096\<rparr>, pe_depth = 3\<rparr>"

definition no_stores :: native where
  "no_stores = \<lparr>nt_next = 0, nt_open = {}\<rparr>"

text \<open>As the constructor leaves it, with one slot.\<close>

definition demo_policy :: "gstore policy" where
  "demo_policy = \<lparr>po_state = \<lparr>ps_pool = \<lparr>pl_max_size = 1, pl_idle = [Placeholder], pl_closed = False,
       pl_created = 0, pl_recreated = 0\<rparr>,
       ps_world = initial_world demo_env None \<lparr>wo_native = no_stores, wo_ticker = ticker_init\<rparr>\<rparr>,
     po_closed = False, po_active_evals = 0, po_entrypoints = [(ustr ''authz/allow'', 0)],
     po_builtins = [(ustr ''b'', 7)], po_abi_version = (1, 2)\<rparr>"

lemma demo_simps [simp]:
  "pt_float demo_text = demo_float" "pe_text demo_env = demo_text" "pe_config demo_env = default_config"
  "native_wf no_stores" "nt_open no_stores = {}" "po_closed demo_policy = False"
  "po_entrypoints demo_policy = [(ustr ''authz/allow'', 0)]"
  by (simp_all add: demo_text_def demo_env_def no_stores_def native_wf_def demo_policy_def)

lemma demo_policy_inv: "policy_inv demo_env {} demo_policy"
  by (simp add: policy_inv_def pool_inv_def demo_policy_def initial_world_def no_stores_def native_wf_def)

section \<open>The model runs\<close>

text \<open>
  Both runs are evaluated by rewriting with the definitions: one evaluation on the instance, and
  the whole way from the bytes of a package to a decision.
\<close>

lemma demo_instance_run:
  "case inst_evaluate g_env (PBytes [49]) 0 g_inst of
     (Inr v, i) \<Rightarrow> v = PList [PDict [(PStr (ustr ''result''), PInt 1)]] | (Inl e, i) \<Rightarrow> False"
  by code_simp

definition demo_config :: policy_config where
  "demo_config = default_config\<lparr>eval_timeout_seconds := None\<rparr>"

lemma demo_policy_run:
  "case from_wasm_bytes (g_wasm 2) demo_text None 0 (Some demo_config) [0] no_stores of
     (Inr (pe, p), nt) \<Rightarrow> fst (policy_evaluate pe (PBytes [49]) None p) = Inr (Defined (PInt 1))
   | (Inl e, nt) \<Rightarrow> False"
  by code_simp

end
