(* ===== verification/Policy_Concurrent.thy ===== *)
theory Policy_Concurrent
  imports Pool
begin

text \<open>
  The facade and the pool under several threads: \<open>evaluate_raw\<close>, \<open>set_data\<close> and \<open>close\<close> of
  \<^verbatim>\<open>opapywasm/policy.py\<close> with \<open>borrow\<close>, \<open>_take_slot\<close>, \<open>_release\<close> and \<open>close\<close> of
  \<^verbatim>\<open>opapywasm/pool.py\<close>, cut at every access to shared state: a queue operation, a read
  or write of the closed event, a section under one of the locks, an operation on an instance
  the thread holds. A thread is a program counter; any thread may take the next step.

  Instances are named by the number of their native store; a construction that needs several
  attempts skips numbers. What happens inside an instance is
  nondeterministic: a construction or a reload may fail, an evaluation may leave the instance
  poisoned or not.
\<close>

section \<open>Shared state and program counters\<close>

record shared =
  sh_max :: nat
  sh_idle :: "nat slot list"
  sh_pool_closed :: bool
  sh_close_lock :: bool
  sh_created :: nat
  sh_recreated :: nat
  sh_closed :: bool
  sh_active :: nat
  sh_ticker_stopped :: bool
  sh_version :: nat
  sh_inst_version :: "nat \<Rightarrow> nat"
  sh_poisoned :: "nat \<Rightarrow> bool"
  sh_open :: "nat set"
  sh_next :: nat

text \<open>
  The first argument of an evaluating thread's counters is a history variable: the version of
  the data when its call of \<open>evaluate\<close> began.
\<close>

datatype pc =
    Ready
  | Check nat
  | Get nat
  | Got nat "nat slot"
  | Close_drawn nat
  | Wake
  | Create nat
  | Build nat nat
  | Made nat nat
  | Fresh nat nat
  | Refresh nat nat nat
  | Loan nat nat
  | Rel nat bool
  | Stat nat
  | Put_none nat
  | Close_inst nat
  | Put_back nat
  | Rel_none
  | Exit
  | Stop_ticker
  | Set_data
  | C_lock
  | C_check
  | C_drain
  | C_drain_close nat
  | C_wake
  | C_life

definition put_now :: "nat slot \<Rightarrow> shared \<Rightarrow> shared" where
  "put_now s sh = (if length (sh_idle sh) < sh_max sh then sh\<lparr>sh_idle := sh_idle sh @ [s]\<rparr> else sh)"

definition close_store :: "nat \<Rightarrow> shared \<Rightarrow> shared" where
  "close_store i sh = sh\<lparr>sh_open := sh_open sh - {i}\<rparr>"

section \<open>Steps of one thread\<close>

text \<open>
  A \<open>set_data\<close> that is refused, or whose document cannot be serialised, changes nothing shared and
  is no step; the same holds of \<open>evaluate\<close> with an unknown entrypoint.
\<close>

inductive tstep :: "shared \<Rightarrow> pc \<Rightarrow> shared \<Rightarrow> pc \<Rightarrow> bool" where
  enter: "tstep sh Ready (sh\<lparr>sh_active := Suc (sh_active sh)\<rparr>) (Check (sh_version sh))"
| check_closed: "sh_pool_closed sh \<Longrightarrow> tstep sh (Check v) sh Exit"
| check_open: "\<not> sh_pool_closed sh \<Longrightarrow> tstep sh (Check v) sh (Get v)"
| get: "sh_idle sh = s # rest \<Longrightarrow> tstep sh (Get v) (sh\<lparr>sh_idle := rest\<rparr>) (Got v s)"
| get_timeout: "sh_idle sh = [] \<Longrightarrow> tstep sh (Get v) sh Exit"
| got_closed_instance: "sh_pool_closed sh \<Longrightarrow> tstep sh (Got v (Idle i)) sh (Close_drawn i)"
| got_closed: "s = CloseSentinel \<or> s = Placeholder \<and> sh_pool_closed sh \<Longrightarrow> tstep sh (Got v s) sh Wake"
| got_placeholder: "\<not> sh_pool_closed sh \<Longrightarrow> tstep sh (Got v Placeholder) sh (Create v)"
| got_instance: "\<not> sh_pool_closed sh \<Longrightarrow> tstep sh (Got v (Idle i)) sh (Fresh v i)"
| close_drawn: "tstep sh (Close_drawn i) (close_store i sh) Wake"
| wake: "tstep sh Wake (put_now CloseSentinel sh) Exit"
| create: "tstep sh (Create v) sh (Build v (sh_version sh))"
| build: "sh_next sh \<le> i \<Longrightarrow>
    tstep sh (Build v n) (sh\<lparr>sh_next := Suc i, sh_open := insert i (sh_open sh),
      sh_inst_version := (sh_inst_version sh)(i := n), sh_poisoned := (sh_poisoned sh)(i := False)\<rparr>) (Made v i)"
| build_failed: "tstep sh (Build v n) sh Rel_none"
| made: "tstep sh (Made v i) (sh\<lparr>sh_created := Suc (sh_created sh)\<rparr>) (Fresh v i)"
| fresh: "sh_inst_version sh i = sh_version sh \<Longrightarrow> tstep sh (Fresh v i) sh (Loan v i)"
| stale: "sh_inst_version sh i \<noteq> sh_version sh \<Longrightarrow> tstep sh (Fresh v i) sh (Refresh v i (sh_version sh))"
| refresh: "tstep sh (Refresh v i n) (sh\<lparr>sh_inst_version := (sh_inst_version sh)(i := n)\<rparr>) (Loan v i)"
| refresh_failed: "tstep sh (Refresh v i n) (sh\<lparr>sh_poisoned := (sh_poisoned sh)(i := sh_poisoned sh i \<or> b)\<rparr>) (Rel i False)"
| evaluated: "tstep sh (Loan v i) (sh\<lparr>sh_poisoned := (sh_poisoned sh)(i := sh_poisoned sh i \<or> b)\<rparr>) (Rel i d)"
| rel_closed: "sh_pool_closed sh \<Longrightarrow> tstep sh (Rel i d) sh (Put_none i)"
| rel_discard: "\<not> sh_pool_closed sh \<Longrightarrow> d \<or> sh_poisoned sh i \<Longrightarrow> tstep sh (Rel i d) sh (Stat i)"
| rel_healthy: "\<not> sh_pool_closed sh \<Longrightarrow> \<not> d \<Longrightarrow> \<not> sh_poisoned sh i \<Longrightarrow> tstep sh (Rel i d) sh (Put_back i)"
| stat: "tstep sh (Stat i) (sh\<lparr>sh_recreated := Suc (sh_recreated sh)\<rparr>) (Put_none i)"
| put_none: "tstep sh (Put_none i) (put_now Placeholder sh) (Close_inst i)"
| close_inst: "tstep sh (Close_inst i) (close_store i sh) Exit"
| put_back: "tstep sh (Put_back i) (put_now (Idle i) sh) Exit"
| rel_none: "tstep sh Rel_none (put_now Placeholder sh) Exit"
| exit: "\<not> (sh_closed sh \<and> sh_active sh - 1 = 0) \<Longrightarrow>
    tstep sh Exit (sh\<lparr>sh_active := sh_active sh - 1\<rparr>) Ready"
| exit_last: "sh_closed sh \<Longrightarrow> sh_active sh - 1 = 0 \<Longrightarrow>
    tstep sh Exit (sh\<lparr>sh_active := sh_active sh - 1\<rparr>) Stop_ticker"
| stop_ticker: "tstep sh Stop_ticker (sh\<lparr>sh_ticker_stopped := True\<rparr>) Ready"
| set_open: "\<not> sh_closed sh \<Longrightarrow> tstep sh Ready sh Set_data"
| set_data: "tstep sh Set_data (sh\<lparr>sh_version := Suc (sh_version sh)\<rparr>) Ready"
| start_close: "tstep sh Ready sh C_lock"
| lock: "\<not> sh_close_lock sh \<Longrightarrow> tstep sh C_lock (sh\<lparr>sh_close_lock := True\<rparr>) C_check"
| already_closed: "sh_pool_closed sh \<Longrightarrow> tstep sh C_check (sh\<lparr>sh_close_lock := False\<rparr>) C_life"
| set_closed: "\<not> sh_pool_closed sh \<Longrightarrow> tstep sh C_check (sh\<lparr>sh_pool_closed := True\<rparr>) C_drain"
| drain_instance: "sh_idle sh = Idle i # rest \<Longrightarrow> tstep sh C_drain (sh\<lparr>sh_idle := rest\<rparr>) (C_drain_close i)"
| drain_other: "sh_idle sh = s # rest \<Longrightarrow> s = Placeholder \<or> s = CloseSentinel \<Longrightarrow>
    tstep sh C_drain (sh\<lparr>sh_idle := rest\<rparr>) C_drain"
| drain_close: "tstep sh (C_drain_close i) (close_store i sh) C_drain"
| drained: "sh_idle sh = [] \<Longrightarrow> tstep sh C_drain sh C_wake"
| close_wake: "tstep sh C_wake (put_now CloseSentinel sh\<lparr>sh_close_lock := False\<rparr>) C_life"
| life: "sh_active sh \<noteq> 0 \<Longrightarrow> tstep sh C_life (sh\<lparr>sh_closed := True\<rparr>) Ready"
| life_idle: "sh_active sh = 0 \<Longrightarrow> tstep sh C_life (sh\<lparr>sh_closed := True\<rparr>) Stop_ticker"

inductive_cases tstepE: "tstep sh p sh' p'"

section \<open>The threads together\<close>

inductive cstep :: "shared \<times> pc list \<Rightarrow> shared \<times> pc list \<Rightarrow> bool" where
  thread: "t < length th \<Longrightarrow> tstep sh (th ! t) sh' p \<Longrightarrow> cstep (sh, th) (sh', th[t := p])"

definition initial :: "nat \<Rightarrow> nat \<Rightarrow> shared \<times> pc list" where
  "initial max_size threads = (\<lparr>sh_max = max_size, sh_idle = replicate max_size Placeholder,
     sh_pool_closed = False, sh_close_lock = False, sh_created = 0, sh_recreated = 0, sh_closed = False,
     sh_active = 0, sh_ticker_stopped = False, sh_version = 0, sh_inst_version = (\<lambda>_. 0),
     sh_poisoned = (\<lambda>_. False), sh_open = {}, sh_next = 0\<rparr>, replicate threads Ready)"

definition reachable :: "nat \<Rightarrow> nat \<Rightarrow> shared \<times> pc list \<Rightarrow> bool" where
  "reachable max_size threads st \<longleftrightarrow> 1 \<le> max_size \<and> cstep\<^sup>*\<^sup>* (initial max_size threads) st"

section \<open>What a program counter holds\<close>

text \<open>A slot of the pool.\<close>

fun holds :: "pc \<Rightarrow> bool" where
  "holds (Got v s) = (s \<noteq> CloseSentinel)"
| "holds (Create v) = True" | "holds (Build v n) = True" | "holds (Made v i) = True"
| "holds (Fresh v i) = True" | "holds (Refresh v i n) = True" | "holds (Loan v i) = True"
| "holds (Rel i d) = True" | "holds (Stat i) = True" | "holds (Put_none i) = True"
| "holds (Put_back i) = True" | "holds Rel_none = True"
| "holds _ = False"

text \<open>The instance \<open>i\<close>.\<close>

fun owned :: "pc \<Rightarrow> nat option" where
  "owned (Got v (Idle i)) = Some i"
| "owned (Close_drawn i) = Some i" | "owned (Made v i) = Some i" | "owned (Fresh v i) = Some i"
| "owned (Refresh v i n) = Some i" | "owned (Loan v i) = Some i" | "owned (Rel i d) = Some i"
| "owned (Stat i) = Some i" | "owned (Put_none i) = Some i" | "owned (Close_inst i) = Some i"
| "owned (Put_back i) = Some i" | "owned (C_drain_close i) = Some i"
| "owned _ = None"

text \<open>A put to the queue that it still has to make.\<close>

definition owes :: "pc \<Rightarrow> bool" where
  "owes p \<longleftrightarrow> holds p \<or> p \<in> {Wake, C_drain, C_wake} \<or> (\<exists>v. p = Got v CloseSentinel)
     \<or> (\<exists>i. p = Close_drawn i \<or> p = C_drain_close i)"

text \<open>A place in the count of active evaluations.\<close>

fun counted :: "pc \<Rightarrow> bool" where
  "counted Ready = False" | "counted Stop_ticker = False" | "counted Set_data = False" | "counted C_lock = False"
| "counted C_check = False" | "counted C_drain = False" | "counted (C_drain_close i) = False"
| "counted C_wake = False" | "counted C_life = False"
| "counted _ = True"

abbreviation real_slots :: "nat slot list \<Rightarrow> nat" where
  "real_slots q \<equiv> length (filter (\<lambda>s. s \<noteq> CloseSentinel) q)"

lemma owned_Got [simp]: "owned (Got v s) = Some i \<longleftrightarrow> s = Idle i"
  by (cases s) auto

section \<open>Counting threads\<close>

abbreviation num :: "('a \<Rightarrow> bool) \<Rightarrow> 'a list \<Rightarrow> nat" where
  "num P xs \<equiv> length (filter P xs)"

lemma num_update:
  "t < length xs \<Longrightarrow> num P (xs[t := x]) + of_bool (P (xs ! t)) = num P xs + of_bool (P x)"
proof (induction xs arbitrary: t)
  case (Cons a xs)
  then show ?case by (cases t) (auto split: if_splits simp: less_Suc_eq_0_disj)
qed simp

lemma num_pos: "t < length xs \<Longrightarrow> P (xs ! t) \<Longrightarrow> 1 \<le> num P xs"
  by (metis One_nat_def Suc_leI filter_empty_conv length_greater_0_conv nth_mem)

lemma num_two:
  assumes "t < length xs" "u < length xs" "t \<noteq> u" "P (xs ! t)" "P (xs ! u)"
  shows "2 \<le> num P xs"
proof -
  have "finite {i. i < length xs \<and> P (xs ! i)}" by simp
  moreover have "{t, u} \<subseteq> {i. i < length xs \<and> P (xs ! i)}" using assms by auto
  ultimately have "card {t, u} \<le> card {i. i < length xs \<and> P (xs ! i)}" by (rule card_mono)
  then show ?thesis using assms(3) by (simp add: length_filter_conv_card)
qed

section \<open>Capacity\<close>

text \<open>Program counters that occur only after the closed event is set.\<close>

definition open_pc :: "pc \<Rightarrow> bool" where
  "open_pc p \<longleftrightarrow> \<not> (\<exists>v. p = Got v CloseSentinel) \<and> p \<notin> {Wake, C_drain, C_wake, C_life} \<and> (\<forall>i. p \<noteq> Close_drawn i \<and> p \<noteq> C_drain_close i)"

definition capacity_inv :: "shared \<times> pc list \<Rightarrow> bool" where
  "capacity_inv = (\<lambda>(sh, th). 1 \<le> sh_max sh \<and> length (sh_idle sh) \<le> sh_max sh
     \<and> real_slots (sh_idle sh) + num holds th \<le> sh_max sh
     \<and> (\<not> sh_pool_closed sh \<longrightarrow> CloseSentinel \<notin> set (sh_idle sh) \<and> (\<forall>p \<in> set th. open_pc p)
          \<and> real_slots (sh_idle sh) + num holds th = sh_max sh))"

lemma tstep_max: "tstep sh p sh' p' \<Longrightarrow> sh_max sh' = sh_max sh \<and> (sh_pool_closed sh \<longrightarrow> sh_pool_closed sh')"
  by (induction rule: tstep.induct) (auto simp: put_now_def close_store_def)

lemma tstep_length: "tstep sh p sh' p' \<Longrightarrow> length (sh_idle sh) \<le> sh_max sh \<Longrightarrow> length (sh_idle sh') \<le> sh_max sh"
  by (induction rule: tstep.induct) (auto simp: put_now_def close_store_def)

lemma tstep_slots:
  "tstep sh p sh' p' \<Longrightarrow> real_slots (sh_idle sh') + of_bool (holds p') \<le> real_slots (sh_idle sh) + of_bool (holds p)"
  by (induction rule: tstep.induct) (auto simp: put_now_def close_store_def)

text \<open>While the pool is open a step neither loses a slot nor brings a sentinel into play.\<close>

lemma tstep_open:
  "tstep sh p sh' p' \<Longrightarrow> \<not> sh_pool_closed sh' \<Longrightarrow> CloseSentinel \<notin> set (sh_idle sh) \<Longrightarrow> open_pc p \<Longrightarrow>
   (holds p \<Longrightarrow> length (sh_idle sh) < sh_max sh) \<Longrightarrow>
   open_pc p' \<and> CloseSentinel \<notin> set (sh_idle sh')
   \<and> real_slots (sh_idle sh') + of_bool (holds p') = real_slots (sh_idle sh) + of_bool (holds p)"
  by (induction rule: tstep.induct) (auto simp: put_now_def close_store_def open_pc_def)

lemma capacity_step:
  assumes "cstep st st'" and "capacity_inv st"
  shows "capacity_inv st'"
  using assms
proof (induction rule: cstep.induct)
  case (thread t th sh sh' p)
  note n = num_update [OF thread(1), of holds p] and pos = num_pos [OF thread(1), of holds]
  have c: "1 \<le> sh_max sh" "length (sh_idle sh) \<le> sh_max sh" "real_slots (sh_idle sh) + num holds th \<le> sh_max sh"
    using thread(3) by (auto simp: capacity_inv_def)
  have "real_slots (sh_idle sh') + num holds (th[t := p]) \<le> sh_max sh'"
    using tstep_slots [OF thread(2)] tstep_max [OF thread(2)] n c(3) by linarith
  moreover have "CloseSentinel \<notin> set (sh_idle sh') \<and> (\<forall>q \<in> set (th[t := p]). open_pc q)
      \<and> real_slots (sh_idle sh') + num holds (th[t := p]) = sh_max sh'" if o: "\<not> sh_pool_closed sh'"
  proof -
    have "\<not> sh_pool_closed sh" using tstep_max [OF thread(2)] o by blast
    then have q: "CloseSentinel \<notin> set (sh_idle sh)" "\<forall>q \<in> set th. open_pc q"
      "real_slots (sh_idle sh) + num holds th = sh_max sh"
      using thread(3) by (auto simp: capacity_inv_def)
    have "filter (\<lambda>s. s \<noteq> CloseSentinel) (sh_idle sh) = sh_idle sh"
      using q(1) by (intro filter_True) auto
    then have full: "real_slots (sh_idle sh) = length (sh_idle sh)" by simp
    have "open_pc (th ! t)" using q(2) thread(1) by simp
    note l = tstep_open [OF thread(2) o q(1) this]
    have "holds (th ! t) \<Longrightarrow> length (sh_idle sh) < sh_max sh" using pos q(3) full by linarith
    note l = l [OF this]
    have "\<forall>q \<in> set (th[t := p]). open_pc q"
      using q(2) l set_update_subset_insert [of th t p] by blast
    moreover have "real_slots (sh_idle sh') + num holds (th[t := p]) = sh_max sh'"
      using l n q(3) tstep_max [OF thread(2)] by linarith
    ultimately show ?thesis using l by blast
  qed
  ultimately show ?case using c tstep_max [OF thread(2)] tstep_length [OF thread(2)] by (simp add: capacity_inv_def)
qed

section \<open>Exclusive ownership\<close>

definition owns :: "nat \<Rightarrow> pc \<Rightarrow> bool" where
  "owns i p \<longleftrightarrow> owned p = Some i"

text \<open>The places of the instance \<open>i\<close>: the idle queue and the threads that own it.\<close>

definition places :: "nat \<Rightarrow> shared \<Rightarrow> pc list \<Rightarrow> nat" where
  "places i sh th = num (\<lambda>s. s = Idle i) (sh_idle sh) + num (owns i) th"

text \<open>Every instance is in at most one place, is open, and numbers are not reused.\<close>

definition owner_inv :: "shared \<times> pc list \<Rightarrow> bool" where
  "owner_inv = (\<lambda>(sh, th). (\<forall>i. places i sh th \<le> 1)
     \<and> (\<forall>i. Idle i \<in> set (sh_idle sh) \<or> (\<exists>p \<in> set th. owns i p) \<longrightarrow> i \<in> sh_open sh)
     \<and> (\<forall>i \<in> sh_open sh. i < sh_next sh))"

lemma tstep_places:
  "tstep sh p sh' p' \<Longrightarrow>
   num (\<lambda>s. s = Idle i) (sh_idle sh') + of_bool (owns i p')
     \<le> num (\<lambda>s. s = Idle i) (sh_idle sh) + of_bool (owns i p) + of_bool (sh_next sh \<le> i)"
  by (induction rule: tstep.induct) (auto simp: put_now_def close_store_def owns_def)

lemma places_step:
  assumes "t < length th" and "tstep sh (th ! t) sh' p"
  shows "places i sh' (th[t := p]) \<le> places i sh th + of_bool (sh_next sh \<le> i)"
  using tstep_places [OF assms(2), of i] num_update [OF assms(1), of "owns i" p] unfolding places_def by linarith

text \<open>A store is closed only by the thread that owns its instance, which gives it up.\<close>

lemma tstep_store:
  "tstep sh p sh' p' \<Longrightarrow>
   (sh_open sh' = sh_open sh \<and> sh_next sh' = sh_next sh
      \<and> (\<forall>i. Idle i \<in> set (sh_idle sh') \<or> owns i p' \<longrightarrow> Idle i \<in> set (sh_idle sh) \<or> owns i p))
   \<or> (\<exists>v n j. p = Build v n \<and> p' = Made v j \<and> sh_next sh \<le> j \<and> sh_open sh' = insert j (sh_open sh)
      \<and> sh_next sh' = Suc j \<and> sh_idle sh' = sh_idle sh)
   \<or> (\<exists>i. owns i p \<and> owned p' = None \<and> sh_open sh' = sh_open sh - {i} \<and> sh_next sh' = sh_next sh
      \<and> sh_idle sh' = sh_idle sh)"
  by (induction rule: tstep.induct) (auto simp: put_now_def close_store_def owns_def)

lemma num_zero: "num P xs = 0 \<longleftrightarrow> (\<forall>x \<in> set xs. \<not> P x)"
  by (simp add: filter_empty_conv)

lemma set_updateE:
  assumes "q \<in> set (xs[t := x])"
  obtains "q = x" | "q \<in> set xs"
  using assms set_update_subset_insert [of xs t x] by blast

lemma places_zero: "places i sh th = 0 \<longleftrightarrow> Idle i \<notin> set (sh_idle sh) \<and> (\<forall>q \<in> set th. \<not> owns i q)"
  unfolding places_def add_is_0 num_zero by auto

lemma owner_fresh: "owner_inv (sh, th) \<Longrightarrow> sh_next sh \<le> i \<Longrightarrow> places i sh th = 0"
  unfolding places_zero by (fastforce simp: owner_inv_def)

lemma owner_unique_step:
  assumes "t < length th" and "tstep sh (th ! t) sh' p" and "owner_inv (sh, th)"
  shows "places i sh' (th[t := p]) \<le> 1"
proof (cases "sh_next sh \<le> i")
  case True
  then show ?thesis using places_step [OF assms(1,2), of i] owner_fresh [OF assms(3) True] by simp
next
  case False
  have "places i sh th \<le> 1" using assms(3) by (simp add: owner_inv_def)
  then show ?thesis using places_step [OF assms(1,2), of i] False by simp
qed

text \<open>Once its owner gives it up an instance is nowhere.\<close>

lemma owner_gone:
  assumes "t < length th" and "owner_inv (sh, th)" and "owns i (th ! t)" and "owned p = None" and "sh_idle sh' = sh_idle sh"
  shows "places i sh' (th[t := p]) = 0"
proof -
  have "places i sh th \<le> 1" using assms(2) by (simp add: owner_inv_def)
  then show ?thesis
    using num_update [OF assms(1), of "owns i" p] assms(3-5)
    unfolding places_def by (simp add: owns_def del: length_0_conv)
qed

lemma owner_open_step:
  assumes "t < length th" and "tstep sh (th ! t) sh' p" and "owner_inv (sh, th)"
    and i: "Idle i \<in> set (sh_idle sh') \<or> (\<exists>q \<in> set (th[t := p]). owns i q)"
  shows "i \<in> sh_open sh'"
proof -
  have pl: "i \<in> sh_open sh" if "Idle i \<in> set (sh_idle sh) \<or> (\<exists>q \<in> set th. owns i q)"
    using assms(3) that by (auto simp: owner_inv_def)
  have mem: "th ! t \<in> set th" using assms(1) by simp
  from tstep_store [OF assms(2)] show ?thesis
  proof (elim disjE exE conjE)
    fix j assume j: "owns j (th ! t)" "owned p = None" "sh_open sh' = sh_open sh - {j}" "sh_idle sh' = sh_idle sh"
    have "j \<noteq> i" using owner_gone [OF assms(1,3) j(1,2,4)] i unfolding places_zero by blast
    moreover have "\<not> owns i p" using j(2) by (simp add: owns_def)
    ultimately show ?thesis using i j pl by (auto elim!: set_updateE)
  qed (use i pl mem in \<open>auto simp: owns_def elim!: set_updateE\<close>)
qed

lemma owner_step:
  assumes "cstep st st'" and "owner_inv st"
  shows "owner_inv st'"
  using assms
proof (induction rule: cstep.induct)
  case (thread t th sh sh' p)
  have "i < sh_next sh'" if "i \<in> sh_open sh'" for i
    using tstep_store [OF thread(2)] thread(3) that by (fastforce simp: owner_inv_def less_Suc_eq)
  then show ?case
    using owner_unique_step [OF thread] owner_open_step [OF thread] by (auto simp: owner_inv_def)
qed

section \<open>Fresh data\<close>

text \<open>What a counter knows about versions: a thread never holds data older than its own start.\<close>

fun fresh_pc :: "shared \<Rightarrow> pc \<Rightarrow> bool" where
  "fresh_pc sh (Check v) = (v \<le> sh_version sh)"
| "fresh_pc sh (Get v) = (v \<le> sh_version sh)"
| "fresh_pc sh (Got v s) = (v \<le> sh_version sh)"
| "fresh_pc sh (Create v) = (v \<le> sh_version sh)"
| "fresh_pc sh (Build v n) = (v \<le> sh_version sh)"
| "fresh_pc sh (Made v i) = (v \<le> sh_version sh)"
| "fresh_pc sh (Fresh v i) = (v \<le> sh_version sh)"
| "fresh_pc sh (Refresh v i n) = (v \<le> n)"
| "fresh_pc sh (Loan v i) = (v \<le> sh_inst_version sh i)"
| "fresh_pc sh _ = True"

definition fresh_inv :: "shared \<times> pc list \<Rightarrow> bool" where
  "fresh_inv = (\<lambda>(sh, th). \<forall>p \<in> set th. fresh_pc sh p)"

lemma tstep_fresh: "tstep sh p sh' p' \<Longrightarrow> fresh_pc sh p \<Longrightarrow> fresh_pc sh' p'"
  by (induction rule: tstep.induct) (auto simp: put_now_def close_store_def)

text \<open>The version only grows, and an instance's version changes only at its owner.\<close>

lemma tstep_versions:
  "tstep sh p sh' p' \<Longrightarrow> sh_version sh \<le> sh_version sh'
     \<and> (\<forall>i < sh_next sh. \<not> owns i p \<longrightarrow> sh_inst_version sh' i = sh_inst_version sh i)"
  by (induction rule: tstep.induct) (auto simp: put_now_def close_store_def owns_def)

lemma fresh_pc_other:
  assumes "sh_version sh \<le> sh_version sh'" and "\<And>v i. q = Loan v i \<Longrightarrow> sh_inst_version sh' i = sh_inst_version sh i"
    and "fresh_pc sh q"
  shows "fresh_pc sh' q"
  using assms by (cases q) auto

lemma owner_unique:
  assumes "owner_inv (sh, th)" and "t < length th" "u < length th" "t \<noteq> u"
  shows "\<not> (owns i (th ! t) \<and> owns i (th ! u))"
proof
  assume "owns i (th ! t) \<and> owns i (th ! u)"
  then have "2 \<le> num (owns i) th" using num_two [OF assms(2-4)] by blast
  moreover have "places i sh th \<le> 1" using assms(1) by (simp add: owner_inv_def)
  ultimately show False unfolding places_def by linarith
qed

lemma fresh_step:
  assumes "cstep st st'" and "owner_inv st" and "fresh_inv st"
  shows "fresh_inv st'"
  using assms
proof (induction rule: cstep.induct)
  case (thread t th sh sh' p)
  note vs = tstep_versions [OF thread(2)]
  have "fresh_pc sh' (th[t := p] ! u)" if u: "u < length th" for u
  proof (cases "u = t")
    case True
    then show ?thesis using tstep_fresh [OF thread(2)] thread(1,4) by (simp add: fresh_inv_def)
  next
    case False
    have "sh_inst_version sh' i = sh_inst_version sh i" if q: "th ! u = Loan v i" for v i
    proof -
      have o: "owns i (th ! u)" using q by (simp add: owns_def)
      then have "\<not> owns i (th ! t)" using owner_unique [OF thread(3) u thread(1) False] by blast
      moreover have "i < sh_next sh" using thread(3) o u by (fastforce simp: owner_inv_def)
      ultimately show ?thesis using vs by simp
    qed
    then have "fresh_pc sh' (th ! u)"
      using fresh_pc_other [of sh sh' "th ! u"] vs thread(4) u by (auto simp: fresh_inv_def)
    then show ?thesis using False by simp
  qed
  then show ?case by (auto simp: fresh_inv_def in_set_conv_nth)
qed

section \<open>No lost wake-up\<close>

text \<open>Whenever the queue is empty some thread still owes it a slot or a sentinel.\<close>

definition wake_inv :: "shared \<times> pc list \<Rightarrow> bool" where
  "wake_inv = (\<lambda>(sh, th). sh_pool_closed sh \<longrightarrow> sh_idle sh \<noteq> [] \<or> (\<exists>p \<in> set th. owes p))"

lemma tstep_owes:
  "tstep sh p sh' p' \<Longrightarrow> 1 \<le> sh_max sh \<Longrightarrow> sh_pool_closed sh' \<Longrightarrow>
   owes p' \<or> sh_idle sh' \<noteq> [] \<or> \<not> owes p \<and> sh_idle sh' = sh_idle sh \<and> sh_pool_closed sh"
  by (induction rule: tstep.induct) (auto simp: put_now_def close_store_def owes_def)

lemma wake_step:
  assumes "cstep st st'" and "capacity_inv st" and "wake_inv st"
  shows "wake_inv st'"
  using assms
proof (induction rule: cstep.induct)
  case (thread t th sh sh' p)
  have p: "p \<in> set (th[t := p])" using thread(1) by (simp add: set_update_memI)
  show ?case
  proof (cases "sh_pool_closed sh' \<and> sh_idle sh' = [] \<and> \<not> owes p")
    case True
    then have q: "\<not> owes (th ! t)" "sh_idle sh = []" "sh_pool_closed sh"
      using tstep_owes [OF thread(2)] thread(3) by (auto simp: capacity_inv_def)
    then obtain r where "r \<in> set th" "owes r" using thread(4) by (auto simp: wake_inv_def)
    then obtain u where "u < length th" "th ! u = r" by (auto simp: in_set_conv_nth)
    then have "r \<in> set (th[t := p])"
      using q(1) \<open>owes r\<close> by (metis length_list_update nth_list_update_neq nth_mem)
    then show ?thesis using \<open>owes r\<close> by (auto simp: wake_inv_def)
  qed (use p in \<open>auto simp: wake_inv_def\<close>)
qed

section \<open>The ticker outlives every evaluation\<close>

text \<open>
  \<open>sh_active\<close> counts the evaluations in flight. Once the policy is closed its pool is; once the
  ticker is stopped, or a thread has decided to stop it, no evaluation is past its first check
  of the closed event, and none will get past it.
\<close>

definition lifecycle_inv :: "shared \<times> pc list \<Rightarrow> bool" where
  "lifecycle_inv = (\<lambda>(sh, th). sh_active sh = num counted th
     \<and> (sh_closed sh \<longrightarrow> sh_pool_closed sh)
     \<and> (\<forall>p \<in> set th. p \<in> {C_drain, C_wake, C_life} \<or> (\<exists>i. p = C_drain_close i) \<longrightarrow> sh_pool_closed sh)
     \<and> (sh_ticker_stopped sh \<or> Stop_ticker \<in> set th \<longrightarrow> sh_closed sh
          \<and> (\<forall>p \<in> set th. counted p \<longrightarrow> p = Exit \<or> (\<exists>v. p = Check v))))"

definition closing_pc :: "pc \<Rightarrow> bool" where
  "closing_pc p \<longleftrightarrow> p \<in> {C_drain, C_wake, C_life} \<or> (\<exists>i. p = C_drain_close i)"

definition early_pc :: "pc \<Rightarrow> bool" where
  "early_pc p \<longleftrightarrow> \<not> counted p \<or> p = Exit \<or> (\<exists>v. p = Check v)"

lemma tstep_active:
  "tstep sh p sh' p' \<Longrightarrow> of_bool (counted p) \<le> sh_active sh \<Longrightarrow>
   sh_active sh' + of_bool (counted p) = sh_active sh + of_bool (counted p')"
  by (induction rule: tstep.induct) (auto simp: put_now_def close_store_def)

lemma tstep_closed:
  "tstep sh p sh' p' \<Longrightarrow> (sh_closed sh \<longrightarrow> sh_pool_closed sh) \<Longrightarrow> (closing_pc p \<longrightarrow> sh_pool_closed sh) \<Longrightarrow>
   (sh_closed sh' \<longrightarrow> sh_pool_closed sh') \<and> (closing_pc p' \<longrightarrow> sh_pool_closed sh') \<and> (sh_closed sh \<longrightarrow> sh_closed sh')"
  by (induction rule: tstep.induct) (auto simp: put_now_def close_store_def closing_pc_def)

text \<open>The decision to stop is made only when the count reaches zero on a closed policy.\<close>

lemma tstep_stop:
  "tstep sh p sh' p' \<Longrightarrow> sh_ticker_stopped sh' \<or> p' = Stop_ticker \<Longrightarrow>
   sh_ticker_stopped sh \<or> p = Stop_ticker \<or> sh_closed sh' \<and> sh_active sh' = 0"
  by (induction rule: tstep.induct) (auto simp: put_now_def close_store_def split: if_splits)

lemma tstep_early: "tstep sh p sh' p' \<Longrightarrow> sh_pool_closed sh \<Longrightarrow> early_pc p \<Longrightarrow> early_pc p'"
  by (induction rule: tstep.induct) (auto simp: early_pc_def)

lemma lifecycle_step:
  assumes "cstep st st'" and "lifecycle_inv st"
  shows "lifecycle_inv st'"
  using assms
proof (induction rule: cstep.induct)
  case (thread t th sh sh' p)
  have a: "sh_active sh = num counted th" and c: "sh_closed sh \<longrightarrow> sh_pool_closed sh"
    and cl: "\<And>q. q \<in> set th \<Longrightarrow> closing_pc q \<longrightarrow> sh_pool_closed sh"
    and s: "sh_ticker_stopped sh \<or> Stop_ticker \<in> set th \<Longrightarrow> sh_closed sh \<and> (\<forall>q \<in> set th. early_pc q)"
    using thread(3) unfolding lifecycle_inv_def closing_pc_def early_pc_def by auto
  have mem: "th ! t \<in> set th" using thread(1) by simp
  have "of_bool (counted (th ! t)) \<le> sh_active sh" using num_pos [OF thread(1), of counted] a by (cases "counted (th ! t)") auto
  then have active: "sh_active sh' = num counted (th[t := p])"
    using tstep_active [OF thread(2)] num_update [OF thread(1), of counted p] a by linarith
  note k = tstep_closed [OF thread(2) c cl [OF mem]] and mx = tstep_max [OF thread(2)]
  have closing: "closing_pc q \<longrightarrow> sh_pool_closed sh'" if "q \<in> set (th[t := p])" for q
    using that k cl mx by (elim set_updateE) blast+
  have "sh_closed sh' \<and> (\<forall>q \<in> set (th[t := p]). early_pc q)"
    if st: "sh_ticker_stopped sh' \<or> Stop_ticker \<in> set (th[t := p])"
  proof (cases "sh_ticker_stopped sh \<or> Stop_ticker \<in> set th")
    case True
    with s c have e: "sh_closed sh" "\<forall>q \<in> set th. early_pc q" "sh_pool_closed sh" by auto
    then have "early_pc p" using tstep_early [OF thread(2)] mem by blast
    then show ?thesis using e k by (auto elim!: set_updateE)
  next
    case False
    then have "sh_ticker_stopped sh' \<or> p = Stop_ticker" using st by (auto elim!: set_updateE)
    then have "sh_closed sh'" "sh_active sh' = 0" using tstep_stop [OF thread(2)] False mem by auto
    then show ?thesis using active by (simp add: filter_empty_conv early_pc_def)
  qed
  then show ?case using active k closing unfolding lifecycle_inv_def closing_pc_def early_pc_def by blast
qed

section \<open>A closed policy that is idle has stopped its ticker\<close>

definition quit_inv :: "shared \<times> pc list \<Rightarrow> bool" where
  "quit_inv = (\<lambda>(sh, th). sh_closed sh \<and> sh_active sh = 0 \<longrightarrow> sh_ticker_stopped sh \<or> Stop_ticker \<in> set th)"

lemma tstep_quit:
  "tstep sh p sh' p' \<Longrightarrow> sh_closed sh' \<Longrightarrow> sh_active sh' = 0 \<Longrightarrow> of_bool (counted p) \<le> sh_active sh \<Longrightarrow>
   sh_ticker_stopped sh' \<or> p' = Stop_ticker
   \<or> p \<noteq> Stop_ticker \<and> sh_closed sh \<and> sh_active sh = 0 \<and> sh_ticker_stopped sh' = sh_ticker_stopped sh"
  by (induction rule: tstep.induct) (auto simp: put_now_def close_store_def split: if_splits)

lemma quit_step:
  assumes "cstep st st'" and "lifecycle_inv st" and "quit_inv st"
  shows "quit_inv st'"
  using assms
proof (induction rule: cstep.induct)
  case (thread t th sh sh' p)
  have "of_bool (counted (th ! t)) \<le> sh_active sh"
    using thread(3) num_pos [OF thread(1), of counted] by (cases "counted (th ! t)") (auto simp: lifecycle_inv_def)
  note q = tstep_quit [OF thread(2) _ _ this]
  have "sh_ticker_stopped sh' \<or> Stop_ticker \<in> set (th[t := p])" if c: "sh_closed sh'" "sh_active sh' = 0"
  proof (cases "sh_ticker_stopped sh' \<or> p = Stop_ticker")
    case True
    then show ?thesis using thread(1) by (auto intro: set_update_memI)
  next
    case False
    with q c thread(4) have s: "th ! t \<noteq> Stop_ticker" "Stop_ticker \<in> set th" by (auto simp: quit_inv_def)
    then show ?thesis by (metis in_set_conv_nth length_list_update nth_list_update_neq)
  qed
  then show ?case by (simp add: quit_inv_def)
qed

section \<open>Reachable states\<close>

definition all_inv :: "shared \<times> pc list \<Rightarrow> bool" where
  "all_inv st \<longleftrightarrow> capacity_inv st \<and> owner_inv st \<and> fresh_inv st \<and> wake_inv st \<and> lifecycle_inv st \<and> quit_inv st"

lemma all_inv_initial: "1 \<le> n \<Longrightarrow> all_inv (initial n k)"
proof -
  assume n: "1 \<le> n"
  have f: "num holds (replicate k Ready) = 0" "num (owns i) (replicate k Ready) = 0"
    "num counted (replicate k Ready) = 0" "num (\<lambda>s. s = Idle i) (replicate n (Placeholder :: nat slot)) = 0" for i
    by (auto simp: filter_empty_conv owns_def)
  show "all_inv (initial n k)"
    using n f
    by (auto simp: all_inv_def initial_def capacity_inv_def owner_inv_def fresh_inv_def wake_inv_def lifecycle_inv_def
        quit_inv_def places_def owns_def open_pc_def filter_replicate)
qed

lemma all_inv_step: "cstep st st' \<Longrightarrow> all_inv st \<Longrightarrow> all_inv st'"
  unfolding all_inv_def using capacity_step owner_step fresh_step wake_step lifecycle_step quit_step by blast

lemma cstep_max: "cstep st st' \<Longrightarrow> sh_max (fst st') = sh_max (fst st)"
  by (induction rule: cstep.induct) (simp add: tstep_max)

lemma run_max:
  assumes "cstep\<^sup>*\<^sup>* (initial n k) (sh, th)"
  shows "sh_max sh = n"
proof -
  have "cstep\<^sup>*\<^sup>* st st' \<Longrightarrow> sh_max (fst st') = sh_max (fst st)" for st st'
    by (induction rule: rtranclp_induct) (simp_all add: cstep_max)
  from this [OF assms] show ?thesis by (simp add: initial_def)
qed

lemma reachable_inv: "reachable n k st \<Longrightarrow> all_inv st"
proof -
  assume "reachable n k st"
  then have "1 \<le> n" "cstep\<^sup>*\<^sup>* (initial n k) st" by (auto simp: reachable_def)
  from this(2) show "all_inv st"
    by (induction rule: rtranclp_induct) (use \<open>1 \<le> n\<close> all_inv_initial all_inv_step in blast)+
qed

text \<open>A thread that owes the queue a put can always take its next step.\<close>

lemma owes_enabled:
  assumes "owes p"
  shows "\<exists>sh' p'. tstep sh p sh' p'"
proof (cases p)
  case (Got v s)
  then show ?thesis by (cases s; cases "sh_pool_closed sh") (auto intro: tstep.intros)
next
  case (Fresh v i)
  then show ?thesis by (cases "sh_inst_version sh i = sh_version sh") (auto intro: tstep.intros)
next
  case (Rel i d)
  then show ?thesis by (cases "sh_pool_closed sh"; cases "d \<or> sh_poisoned sh i") (auto intro: tstep.intros)
next
  case C_drain
  show ?thesis
  proof (cases "sh_idle sh")
    case (Cons s rest)
    then show ?thesis using C_drain by (cases s) (blast intro: tstep.intros)+
  qed (use C_drain in \<open>blast intro: tstep.intros\<close>)
qed (use assms in \<open>auto simp: owes_def intro: tstep.intros\<close>)

text \<open>Whenever the queue is empty, open or closed, some thread owes it a put.\<close>

lemma empty_queue_owed:
  assumes "all_inv (sh, th)" and "sh_idle sh = []"
  shows "\<exists>p \<in> set th. owes p"
proof (cases "sh_pool_closed sh")
  case True
  then show ?thesis using assms by (auto simp: all_inv_def wake_inv_def)
next
  case False
  then have "num holds th = sh_max sh" "1 \<le> sh_max sh"
    using assms by (auto simp: all_inv_def capacity_inv_def)
  then have "\<exists>p \<in> set th. holds p" using num_zero [of holds th] by auto
  then show ?thesis by (auto simp: owes_def)
qed

end
