(* ===== verification/Policy_Runs.thy ===== *)
theory Policy_Runs
  imports Policy_Concurrent
begin

text \<open>
  The steps of a thread as a function. What the relation leaves open (how a wait ends, whether a
  construction or a reload fails, what an evaluation does to its instance, which call a ready
  thread makes) is a choice; given the choice a step is computed. The function has exactly the
  steps of the relation, so that interleavings can be replayed by rewriting.
\<close>

section \<open>Choices\<close>

datatype choice = Go | Timeout | Built nat | Fails bool | Evaluated bool bool | Set_call | Close_call

fun exec_got :: "shared \<Rightarrow> nat \<Rightarrow> nat slot \<Rightarrow> pc" where
  "exec_got sh v CloseSentinel = Wake"
| "exec_got sh v Placeholder = (if sh_pool_closed sh then Wake else Create v)"
| "exec_got sh v (Idle i) = (if sh_pool_closed sh then Close_drawn i else Fresh v i)"

fun exec_drain :: "shared \<Rightarrow> nat slot list \<Rightarrow> shared \<times> pc" where
  "exec_drain sh [] = (sh, C_wake)"
| "exec_drain sh (Idle i # rest) = (sh\<lparr>sh_idle := rest\<rparr>, C_drain_close i)"
| "exec_drain sh (_ # rest) = (sh\<lparr>sh_idle := rest\<rparr>, C_drain)"

text \<open>Steps that need no choice.\<close>

fun exec_go :: "shared \<Rightarrow> pc \<Rightarrow> (shared \<times> pc) option" where
  "exec_go sh Ready = Some (sh\<lparr>sh_active := Suc (sh_active sh)\<rparr>, Check (sh_version sh))"
| "exec_go sh (Check v) = Some (sh, if sh_pool_closed sh then Exit else Get v)"
| "exec_go sh (Get v) = (case sh_idle sh of [] \<Rightarrow> None | s # rest \<Rightarrow> Some (sh\<lparr>sh_idle := rest\<rparr>, Got v s))"
| "exec_go sh (Got v s) = Some (sh, exec_got sh v s)"
| "exec_go sh (Close_drawn i) = Some (close_store i sh, Wake)"
| "exec_go sh Wake = Some (put_now CloseSentinel sh, Exit)"
| "exec_go sh (Create v) = Some (sh, Build v (sh_version sh))"
| "exec_go sh (Made v i) = Some (sh\<lparr>sh_created := Suc (sh_created sh)\<rparr>, Fresh v i)"
| "exec_go sh (Fresh v i) = Some (sh,
     if sh_inst_version sh i = sh_version sh then Loan v i else Refresh v i (sh_version sh))"
| "exec_go sh (Refresh v i n) = Some (sh\<lparr>sh_inst_version := (sh_inst_version sh)(i := n)\<rparr>, Loan v i)"
| "exec_go sh (Rel i d) = Some (sh,
     if sh_pool_closed sh then Put_none i else if d \<or> sh_poisoned sh i then Stat i else Put_back i)"
| "exec_go sh (Stat i) = Some (sh\<lparr>sh_recreated := Suc (sh_recreated sh)\<rparr>, Put_none i)"
| "exec_go sh (Put_none i) = Some (put_now Placeholder sh, Close_inst i)"
| "exec_go sh (Close_inst i) = Some (close_store i sh, Exit)"
| "exec_go sh (Put_back i) = Some (put_now (Idle i) sh, Exit)"
| "exec_go sh Rel_none = Some (put_now Placeholder sh, Exit)"
| "exec_go sh Exit = Some (sh\<lparr>sh_active := sh_active sh - 1\<rparr>,
     if sh_closed sh \<and> sh_active sh - 1 = 0 then Stop_ticker else Ready)"
| "exec_go sh Stop_ticker = Some (sh\<lparr>sh_ticker_stopped := True\<rparr>, Ready)"
| "exec_go sh Set_data = Some (sh\<lparr>sh_version := Suc (sh_version sh)\<rparr>, Ready)"
| "exec_go sh C_lock = (if sh_close_lock sh then None else Some (sh\<lparr>sh_close_lock := True\<rparr>, C_check))"
| "exec_go sh C_check = Some (if sh_pool_closed sh then (sh\<lparr>sh_close_lock := False\<rparr>, C_life)
     else (sh\<lparr>sh_pool_closed := True\<rparr>, C_drain))"
| "exec_go sh C_drain = Some (exec_drain sh (sh_idle sh))"
| "exec_go sh (C_drain_close i) = Some (close_store i sh, C_drain)"
| "exec_go sh C_wake = Some (put_now CloseSentinel sh\<lparr>sh_close_lock := False\<rparr>, C_life)"
| "exec_go sh C_life = Some (sh\<lparr>sh_closed := True\<rparr>, if sh_active sh = 0 then Stop_ticker else Ready)"
| "exec_go sh (Build v n) = None"
| "exec_go sh (Loan v i) = None"

fun exec :: "choice \<Rightarrow> shared \<Rightarrow> pc \<Rightarrow> (shared \<times> pc) option" where
  "exec Go sh p = exec_go sh p"
| "exec Timeout sh p = (case p of Get v \<Rightarrow> if sh_idle sh = [] then Some (sh, Exit) else None | _ \<Rightarrow> None)"
| "exec (Built i) sh p = (case p of
       Build v n \<Rightarrow> if sh_next sh \<le> i
         then Some (sh\<lparr>sh_next := Suc i, sh_open := insert i (sh_open sh),
           sh_inst_version := (sh_inst_version sh)(i := n), sh_poisoned := (sh_poisoned sh)(i := False)\<rparr>, Made v i)
         else None
     | _ \<Rightarrow> None)"
| "exec (Fails b) sh p = (case p of
       Build v n \<Rightarrow> Some (sh, Rel_none)
     | Refresh v i n \<Rightarrow> Some (sh\<lparr>sh_poisoned := (sh_poisoned sh)(i := sh_poisoned sh i \<or> b)\<rparr>, Rel i False)
     | _ \<Rightarrow> None)"
| "exec (Evaluated b d) sh p = (case p of
       Loan v i \<Rightarrow> Some (sh\<lparr>sh_poisoned := (sh_poisoned sh)(i := sh_poisoned sh i \<or> b)\<rparr>, Rel i d)
     | _ \<Rightarrow> None)"
| "exec Set_call sh p = (if p = Ready \<and> \<not> sh_closed sh then Some (sh, Set_data) else None)"
| "exec Close_call sh p = (if p = Ready then Some (sh, C_lock) else None)"

section \<open>The function has the steps of the relation\<close>

lemma exec_go_sound: "exec_go sh p = Some (sh', p') \<Longrightarrow> tstep sh p sh' p'"
proof (cases p)
  case (Got v s)
  then show "exec_go sh p = Some (sh', p') \<Longrightarrow> tstep sh p sh' p'"
    by (cases s) (auto intro: tstep.intros)
next
  case C_drain
  then show "exec_go sh p = Some (sh', p') \<Longrightarrow> tstep sh p sh' p'"
    by (cases "(sh, sh_idle sh)" rule: exec_drain.cases) (auto intro: tstep.intros)
next
  case Exit
  then show "exec_go sh p = Some (sh', p') \<Longrightarrow> tstep sh p sh' p'"
    using tstep.exit [of sh] tstep.exit_last [of sh] by (auto split: if_splits)
qed (auto split: list.splits if_splits intro: tstep.intros)

lemma exec_sound: "exec c sh p = Some (sh', p') \<Longrightarrow> tstep sh p sh' p'"
  by (cases c) (auto simp: exec_go_sound split: pc.splits if_splits intro: tstep.intros)

lemma exec_complete: "tstep sh p sh' p' \<Longrightarrow> \<exists>c. exec c sh p = Some (sh', p')"
proof (induction rule: tstep.induct)
  case (got_closed s sh v)
  then show ?case by (intro exI [of _ Go]) auto
next
  case (drain_other sh s rest)
  then show ?case by (intro exI [of _ Go]) auto
next
  case (build sh i v n)
  then show ?case by (intro exI [of _ "Built i"]) simp
next
  case (refresh_failed sh v i n b)
  then show ?case by (intro exI [of _ "Fails b"]) simp
next
  case (build_failed sh v n)
  then show ?case by (intro exI [of _ "Fails False"]) simp
next
  case (evaluated sh v i b d)
  then show ?case by (intro exI [of _ "Evaluated b d"]) simp
next
  case (get_timeout sh v)
  then show ?case by (intro exI [of _ Timeout]) simp
next
  case (set_open sh)
  then show ?case by (intro exI [of _ Set_call]) simp
next
  case (start_close sh)
  then show ?case by (intro exI [of _ Close_call]) simp
qed (rule exI [of _ Go], simp; fail)+

text \<open>A schedule names the thread that moves and its choice.\<close>

fun replay :: "(nat \<times> choice) list \<Rightarrow> shared \<times> pc list \<Rightarrow> (shared \<times> pc list) option" where
  "replay [] st = Some st"
| "replay ((t, c) # r) (sh, th) = (if t < length th
     then (case exec c sh (th ! t) of None \<Rightarrow> None | Some (sh', p) \<Rightarrow> replay r (sh', th[t := p]))
     else None)"

lemma replay_run: "replay r st = Some st' \<Longrightarrow> cstep\<^sup>*\<^sup>* st st'"
proof (induction r st rule: replay.induct)
  case (2 t c r sh th)
  then obtain sh1 p where s: "t < length th" "exec c sh (th ! t) = Some (sh1, p)" "replay r (sh1, th[t := p]) = Some st'"
    by (auto split: if_splits option.splits)
  from cstep.thread [OF s(1) exec_sound [OF s(2)]] 2(1) [OF s(1,2) refl s(3)]
  show ?case by (rule converse_rtranclp_into_rtranclp)
qed simp

section \<open>Interleavings\<close>

text \<open>A thread borrows the only slot of a pool that another thread shares.\<close>

abbreviation lent :: shared where
  "lent \<equiv> \<lparr>sh_max = 1, sh_idle = [], sh_pool_closed = False, sh_close_lock = False, sh_created = 1,
     sh_recreated = 0, sh_closed = False, sh_active = 1, sh_ticker_stopped = False, sh_version = 0,
     sh_inst_version = (\<lambda>_. 0)(0 := 0), sh_poisoned = (\<lambda>_. False)(0 := False), sh_open = {0}, sh_next = 1\<rparr>"

abbreviation borrow_schedule :: "(nat \<times> choice) list" where
  "borrow_schedule \<equiv> [(0, Go), (0, Go), (0, Go), (0, Go), (0, Go), (0, Built 0), (0, Go), (0, Go)]"

lemmas replay_simps = initial_def put_now_def close_store_def numeral_2_eq_2

lemma loan_run: "cstep\<^sup>*\<^sup>* (initial 1 2) (lent, [Loan 0 0, Ready])"
  by (rule replay_run [of borrow_schedule]) (simp add: replay_simps)

lemma after_loan: "cstep\<^sup>*\<^sup>* (lent, [Loan 0 0, Ready]) st \<Longrightarrow> cstep\<^sup>*\<^sup>* (initial 1 2) st"
  using loan_run by (rule rtranclp_trans)

lemma lent_replay: "replay r (lent, [Loan 0 0, Ready]) = Some st \<Longrightarrow> cstep\<^sup>*\<^sup>* (initial 1 2) st"
  by (rule after_loan, rule replay_run)

text \<open>
  A release that read the closed event before \<open>close\<close> set it puts its instance back after the
  drain: here into a queue the sentinel has filled, so that the instance is dropped while its
  store is open. At the end every call has returned and the policy is closed.
\<close>

lemma release_race_run:
  "\<exists>sh. cstep\<^sup>*\<^sup>* (initial 1 2) (sh, [Ready, Ready]) \<and> sh_closed sh \<and> sh_open sh = {0}
     \<and> idle_instances (sh_idle sh) = []"
proof -
  let ?s = "[(0, Evaluated False False), (0, Go), (1, Close_call), (1, Go), (1, Go), (1, Go), (1, Go), (1, Go),
    (0, Go), (0, Go), (0, Go)]"
  have "\<exists>sh. replay ?s (lent, [Loan 0 0, Ready]) = Some (sh, [Ready, Ready]) \<and> sh_closed sh \<and> sh_open sh = {0}
    \<and> idle_instances (sh_idle sh) = []" by (simp add: replay_simps)
  then show ?thesis by (elim exE conjE) (intro exI conjI lent_replay)
qed

text \<open>
  A discarded instance gives its slot back before its store is closed, so that another thread
  may build a new one meanwhile: more stores than slots are open.
\<close>

lemma replacement_run: "\<exists>sh th. cstep\<^sup>*\<^sup>* (initial 1 2) (sh, th) \<and> sh_open sh = {0, 1}"
proof -
  let ?s = "[(0, Evaluated True False), (0, Go), (0, Go), (0, Go), (1, Go), (1, Go), (1, Go), (1, Go), (1, Go), (1, Built 1)]"
  have "\<exists>sh th. replay ?s (lent, [Loan 0 0, Ready]) = Some (sh, th) \<and> sh_open sh = {0, 1}"
    by (simp add: replay_simps insert_commute)
  then show ?thesis by (elim exE conjE) (intro exI conjI lent_replay)
qed

lemma stores_exceed_slots:
  "\<exists>sh th. reachable 1 2 (sh, th) \<and> sh_max sh = 1 \<and> card (sh_open sh) = 2"
proof -
  obtain sh th where "cstep\<^sup>*\<^sup>* (initial 1 2) (sh, th)" "sh_open sh = {0, 1}" using replacement_run by blast
  then show ?thesis using run_max [of 1 2 sh th] by (intro exI [of _ sh] exI [of _ th]) (simp add: reachable_def)
qed

end
