(* ===== verification/Policy_Progress.thy ===== *)
theory Policy_Progress
  imports Policy_Runs
begin

text \<open>
  Calls on a shared policy finish. A measure on states falls with every step of a call that is
  under way, whichever thread takes it, and as long as a call is under way some such call can
  take a step that is not a timeout: neither the queue nor the lock of \<open>close\<close> ever leaves all of
  them waiting.
\<close>

section \<open>The work that is left\<close>

text \<open>Steps of the calls under way; a thread that is \<open>Ready\<close> is in no call.\<close>

inductive call_step :: "shared \<times> pc list \<Rightarrow> shared \<times> pc list \<Rightarrow> bool" where
  call: "t < length th \<Longrightarrow> th ! t \<noteq> Ready \<Longrightarrow> tstep sh (th ! t) sh' p \<Longrightarrow> call_step (sh, th) (sh', th[t := p])"

text \<open>A bound on the steps of one thread to the end of its call, a put into the queue counting three.\<close>

fun weight :: "pc \<Rightarrow> nat" where
  "weight Ready = 0" | "weight Stop_ticker = 1" | "weight Set_data = 1" | "weight Exit = 2"
| "weight (Close_inst i) = 3" | "weight Wake = 6" | "weight Rel_none = 6" | "weight (Put_back i) = 6"
| "weight (Put_none i) = 7" | "weight (Close_drawn i) = 7" | "weight (Stat i) = 8" | "weight (Rel i d) = 9"
| "weight (Loan v i) = 10" | "weight (Refresh v i n) = 11" | "weight (Fresh v i) = 12"
| "weight (Made v i) = 13" | "weight (Build v n) = 14" | "weight (Create v) = 15" | "weight (Got v s) = 16"
| "weight (Get v) = 17" | "weight (Check v) = 18"
| "weight C_life = 2" | "weight C_wake = 6" | "weight C_drain = 7" | "weight (C_drain_close i) = 8"
| "weight C_check = 9" | "weight C_lock = 10"

definition work :: "shared \<times> pc list \<Rightarrow> nat" where
  "work = (\<lambda>(sh, th). 3 * length (sh_idle sh) + sum_list (map weight th))"

lemma tstep_weight:
  "tstep sh p sh' p' \<Longrightarrow> p \<noteq> Ready \<Longrightarrow>
   3 * length (sh_idle sh') + weight p' < 3 * length (sh_idle sh) + weight p"
  by (induction rule: tstep.induct) (auto simp: put_now_def close_store_def)

lemma sum_list_map_update:
  fixes f :: "'a \<Rightarrow> nat"
  shows "t < length xs \<Longrightarrow> sum_list (map f (xs[t := x])) + f (xs ! t) = sum_list (map f xs) + f x"
proof (induction xs arbitrary: t)
  case (Cons a xs)
  then show ?case by (cases t) (simp_all add: add.commute add.left_commute)
qed simp

lemma call_step_work: "call_step st st' \<Longrightarrow> work st' < work st"
proof (induction rule: call_step.induct)
  case (call t th sh sh' p)
  show ?case using tstep_weight [OF call(3,2)] sum_list_map_update [OF call(1), of weight p]
    by (simp add: work_def)
qed

lemma call_steps_work: "(call_step ^^ m) st st' \<Longrightarrow> work st' + m \<le> work st"
proof (induction m arbitrary: st')
  case (Suc m)
  then obtain st1 where "(call_step ^^ m) st st1" "call_step st1 st'" by auto
  with Suc.IH [of st1] call_step_work [of st1 st'] show ?case by linarith
qed simp

lemma run_threads:
  assumes "cstep\<^sup>*\<^sup>* (initial n k) (sh, th)"
  shows "length th = k"
proof -
  have step: "cstep st st' \<Longrightarrow> length (snd st') = length (snd st)" for st st'
    by (induction rule: cstep.induct) simp
  have "cstep\<^sup>*\<^sup>* st st' \<Longrightarrow> length (snd st') = length (snd st)" for st st'
    by (induction rule: rtranclp_induct) (simp_all add: step)
  from this [OF assms] show ?thesis by (simp add: initial_def)
qed

lemma weight_bound: "weight p \<le> 18"
  by (cases p) simp_all

lemma work_bound: "length (sh_idle sh) \<le> sh_max sh \<Longrightarrow> work (sh, th) \<le> 3 * sh_max sh + 18 * length th"
proof -
  assume i: "length (sh_idle sh) \<le> sh_max sh"
  have "sum_list (map weight th) \<le> 18 * length th"
    by (induction th) (auto intro: add_mono weight_bound)
  with i show ?thesis by (simp add: work_def)
qed

section \<open>The lock of close\<close>

definition locked :: "pc \<Rightarrow> bool" where
  "locked p \<longleftrightarrow> p \<in> {C_check, C_drain, C_wake} \<or> (\<exists>i. p = C_drain_close i)"

definition lock_inv :: "shared \<times> pc list \<Rightarrow> bool" where
  "lock_inv = (\<lambda>(sh, th). num locked th = of_bool (sh_close_lock sh))"

lemma tstep_lock:
  "tstep sh p sh' p' \<Longrightarrow> locked p \<longrightarrow> sh_close_lock sh \<Longrightarrow>
   of_bool (sh_close_lock sh') + of_bool (locked p) = of_bool (sh_close_lock sh) + (of_bool (locked p') :: nat)"
  by (induction rule: tstep.induct) (auto simp: put_now_def close_store_def locked_def)

lemma lock_step: "cstep st st' \<Longrightarrow> lock_inv st \<Longrightarrow> lock_inv st'"
proof (induction rule: cstep.induct)
  case (thread t th sh sh' p)
  have "locked (th ! t) \<longrightarrow> sh_close_lock sh"
    using num_pos [OF thread(1), of locked] thread(3) by (cases "sh_close_lock sh") (auto simp: lock_inv_def)
  from tstep_lock [OF thread(2) this] num_update [OF thread(1), of locked p] thread(3)
  show ?case by (auto simp: lock_inv_def)
qed

lemma reachable_lock: "reachable n k st \<Longrightarrow> lock_inv st"
proof -
  assume "reachable n k st"
  then have "cstep\<^sup>*\<^sup>* (initial n k) st" by (simp add: reachable_def)
  then show "lock_inv st"
  proof (induction rule: rtranclp_induct)
    case base
    have "num locked (replicate k Ready) = 0" unfolding num_zero by (auto simp: locked_def)
    then show ?case by (simp add: lock_inv_def initial_def)
  qed (rule lock_step)
qed

section \<open>No deadlock\<close>

text \<open>Only a wait for the queue or for the lock can hold a call up.\<close>

lemma call_enabled:
  assumes "p \<noteq> Ready" and "\<And>v. p \<noteq> Get v" and "p \<noteq> C_lock"
  shows "\<exists>sh' p'. tstep sh p sh' p'"
proof (cases "owes p")
  case False
  then show ?thesis
  proof (cases p)
    case (Check v)
    then show ?thesis by (cases "sh_pool_closed sh") (auto intro: tstep.intros)
  next
    case Exit
    then show ?thesis using tstep.exit [of sh] tstep.exit_last [of sh] by blast
  next
    case C_check
    then show ?thesis by (cases "sh_pool_closed sh") (auto intro: tstep.intros)
  next
    case C_life
    then show ?thesis by (cases "sh_active sh = 0") (auto intro: tstep.intros)
  qed (use assms in \<open>auto simp: owes_def intro: tstep.intros\<close>)
qed (rule owes_enabled)

lemma call_progress:
  assumes "all_inv (sh, th)" and "lock_inv (sh, th)" and "p \<in> set th" and "p \<noteq> Ready"
  shows "\<exists>t < length th. th ! t \<noteq> Ready
    \<and> (\<exists>sh' p'. tstep sh (th ! t) sh' p' \<and> \<not> (p' = Exit \<and> (\<exists>v. th ! t = Get v)))"
proof -
  have free: ?thesis if "q \<in> set th" "q \<noteq> Ready" "\<And>v. q \<noteq> Get v" "q \<noteq> C_lock" for q
    using call_enabled [OF that(2-4), of sh] that by (metis in_set_conv_nth)
  show ?thesis
  proof (cases p)
    case (Get v)
    show ?thesis
    proof (cases "sh_idle sh")
      case Nil
      then obtain q where q: "q \<in> set th" "owes q" using empty_queue_owed [OF assms(1)] by blast
      show ?thesis by (rule free [OF q(1)]) (use q(2) in \<open>auto simp: owes_def\<close>)
    next
      case (Cons s rest)
      from tstep.get [OF this, of v] Get assms(3) show ?thesis by (metis in_set_conv_nth pc.distinct(1) pc.simps)
    qed
  next
    case C_lock
    show ?thesis
    proof (cases "sh_close_lock sh")
      case True
      then have "num locked th \<noteq> 0" using assms(2) by (simp add: lock_inv_def)
      then obtain q where q: "q \<in> set th" "locked q" unfolding num_zero by blast
      show ?thesis by (rule free [OF q(1)]) (use q(2) in \<open>auto simp: locked_def\<close>)
    next
      case False
      from tstep.lock [OF this] C_lock assms(3) show ?thesis by (metis in_set_conv_nth pc.simps)
    qed
  qed (use free [OF assms(3,4)] in auto)
qed

end
