(* ===== verification/Policy_Counters.thy ===== *)
theory Policy_Counters
  imports Policy_Concurrent
begin

text \<open>
  The pool's counters \<open>instances_created\<close> and \<open>instances_recreated\<close> under several threads: while the
  pool is open, what was created and not recreated is idle or in the hands of a thread.
\<close>

section \<open>Instances that are counted as created and not yet as recreated\<close>

fun live :: "pc \<Rightarrow> bool" where
  "live (Got v (Idle i)) = True"
| "live (Fresh v i) = True" | "live (Refresh v i n) = True" | "live (Loan v i) = True"
| "live (Rel i d) = True" | "live (Stat i) = True" | "live (Put_back i) = True"
| "live _ = False"

fun is_instance :: "'i slot \<Rightarrow> bool" where
  "is_instance (Idle i) = True"
| "is_instance _ = False"

lemma live_Got [simp]: "live (Got v s) = is_instance s"
  by (cases s) simp_all

lemma live_holds: "live p \<Longrightarrow> holds p"
  by (cases p rule: live.cases) auto

lemma tstep_counts:
  "tstep sh p sh' p' \<Longrightarrow> \<not> sh_pool_closed sh' \<Longrightarrow> open_pc p \<Longrightarrow> (holds p \<Longrightarrow> length (sh_idle sh) < sh_max sh) \<Longrightarrow>
   num is_instance (sh_idle sh') + of_bool (live p') + sh_recreated sh' + sh_created sh
     = num is_instance (sh_idle sh) + of_bool (live p) + sh_recreated sh + sh_created sh'"
  by (induction rule: tstep.induct) (auto simp: put_now_def close_store_def open_pc_def)

definition count_inv :: "shared \<times> pc list \<Rightarrow> bool" where
  "count_inv = (\<lambda>(sh, th). \<not> sh_pool_closed sh \<longrightarrow>
     sh_created sh = num is_instance (sh_idle sh) + num live th + sh_recreated sh)"

lemma count_step:
  assumes "cstep st st'" and "capacity_inv st" and "count_inv st"
  shows "count_inv st'"
  using assms
proof (induction rule: cstep.induct)
  case (thread t th sh sh' p)
  have "sh_created sh' = num is_instance (sh_idle sh') + num live (th[t := p]) + sh_recreated sh'"
    if o: "\<not> sh_pool_closed sh'"
  proof -
    have open': "\<not> sh_pool_closed sh" using tstep_max [OF thread(2)] o by blast
    then have c: "CloseSentinel \<notin> set (sh_idle sh)" "open_pc (th ! t)" "real_slots (sh_idle sh) + num holds th = sh_max sh"
      using thread(1,3) by (auto simp: capacity_inv_def)
    have "filter (\<lambda>s. s \<noteq> CloseSentinel) (sh_idle sh) = sh_idle sh" using c(1) by (intro filter_True) auto
    then have "holds (th ! t) \<Longrightarrow> length (sh_idle sh) < sh_max sh" using num_pos [OF thread(1), of holds] c(3) by simp
    from tstep_counts [OF thread(2) o c(2) this] num_update [OF thread(1), of live p] thread(4) open'
    show ?thesis by (simp add: count_inv_def)
  qed
  then show ?case by (simp add: count_inv_def)
qed

lemma num_mono: "(\<And>x. P x \<Longrightarrow> Q x) \<Longrightarrow> num P xs \<le> num Q xs"
  by (induction xs) auto

lemma reachable_counts:
  assumes "reachable n k (sh, th)" and "\<not> sh_pool_closed sh"
  shows "sh_created sh = num is_instance (sh_idle sh) + num live th + sh_recreated sh"
    and "num is_instance (sh_idle sh) + num live th \<le> sh_max sh"
proof -
  have "1 \<le> n" and run: "cstep\<^sup>*\<^sup>* (initial n k) (sh, th)" using assms(1) by (auto simp: reachable_def)
  have "count_inv (initial n k)" by (simp add: count_inv_def initial_def filter_replicate)
  with run have "count_inv (sh, th)"
  proof (induction rule: rtranclp_induct)
    case (step y z)
    obtain a q where y: "y = (a, q)" by fastforce
    have "reachable n k (a, q)" using step(1) \<open>1 \<le> n\<close> by (simp add: reachable_def y)
    then have "capacity_inv (a, q)" using reachable_inv by (fastforce simp: all_inv_def)
    then show ?case using count_step [OF step(2)] step.IH step.prems y by simp
  qed
  then show "sh_created sh = num is_instance (sh_idle sh) + num live th + sh_recreated sh"
    using assms(2) by (simp add: count_inv_def)
  have "capacity_inv (sh, th)" using reachable_inv [OF assms(1)] by (simp add: all_inv_def)
  then have "num is_instance (sh_idle sh) + num holds th \<le> sh_max sh"
    using num_mono [of is_instance "\<lambda>s. s \<noteq> CloseSentinel" "sh_idle sh"] by (fastforce simp: capacity_inv_def)
  then show "num is_instance (sh_idle sh) + num live th \<le> sh_max sh"
    using num_mono [of live holds th] live_holds by fastforce
qed

end
