(* ===== verification/Policy_Refinement.thy ===== *)
theory Policy_Refinement
  imports Policy_Data Policy_Progress Policy_Counters
begin

text \<open>
  The facade as one caller sees it (theories \<open>Pool\<close> and \<open>Policy\<close>, every instance in full detail)
  refines the model of many threads (theory \<open>Policy_Concurrent\<close>, where an instance is a number):
  each call is a run of one thread that leads from a matching state to a matching state. What is
  shown of all interleavings there therefore holds of the detailed facade too.
\<close>

section \<open>Runs of one thread\<close>

definition solo :: "shared \<times> pc \<Rightarrow> shared \<times> pc \<Rightarrow> bool" where
  "solo = (\<lambda>(sh, p) (sh', p'). tstep sh p sh' p')\<^sup>*\<^sup>*"

lemma solo_refl [simp]: "solo s s"
  by (simp add: solo_def)

lemma solo_step: "tstep sh p sh' p' \<Longrightarrow> solo (sh', p') s \<Longrightarrow> solo (sh, p) s"
  unfolding solo_def by (rule converse_rtranclp_into_rtranclp) simp_all

lemma solo_trans: "solo s s' \<Longrightarrow> solo s' s'' \<Longrightarrow> solo s s''"
  unfolding solo_def by (rule rtranclp_trans)

lemma solo_run:
  assumes "solo (sh, p) (sh', p')" and "t < length th"
  shows "cstep\<^sup>*\<^sup>* (sh, th[t := p]) (sh', th[t := p'])"
proof -
  have "cstep\<^sup>*\<^sup>* (fst s, th[t := snd s]) (fst s', th[t := snd s'])" if "solo s s'" for s s'
    using that unfolding solo_def
  proof (induction rule: rtranclp_induct)
    case (step y z)
    obtain a q b r where yz: "y = (a, q)" "z = (b, r)" by fastforce
    then have "tstep a ((th[t := q]) ! t) b r" using step(2) assms(2) by simp
    from cstep.thread [OF _ this] assms(2) have "cstep (a, th[t := q]) (b, th[t := r])" by simp
    with step(3) yz show ?case by simp
  qed simp
  from this [OF assms(1)] show ?thesis by simp
qed

section \<open>Matching states\<close>

fun slot_id :: "('i \<Rightarrow> nat) \<Rightarrow> 'i slot \<Rightarrow> nat slot" where
  "slot_id iid Placeholder = Placeholder"
| "slot_id iid (Idle i) = Idle (iid i)"
| "slot_id iid CloseSentinel = CloseSentinel"

text \<open>What the thread model knows of one instance.\<close>

definition agrees :: "('i, 'w) callbacks \<Rightarrow> ('i \<Rightarrow> nat) \<Rightarrow> shared \<Rightarrow> 'i \<Rightarrow> bool" where
  "agrees cb iid sh i \<longleftrightarrow> cb_version cb i = int (sh_inst_version sh (iid i)) \<and> sh_poisoned sh (iid i) = cb_poisoned cb i"

text \<open>The pool, its idle instances and the world; \<open>others\<close> are the stores that are not the pool's.\<close>

definition matches ::
  "('i, 'w) callbacks \<Rightarrow> ('i \<Rightarrow> nat) \<Rightarrow> ('w \<Rightarrow> nat set) \<Rightarrow> ('w \<Rightarrow> nat) \<Rightarrow> ('w \<Rightarrow> bool)
     \<Rightarrow> nat set \<Rightarrow> ('i, 'w) pstate \<Rightarrow> shared \<Rightarrow> bool" where
  "matches cb iid open_ids next_id stopped others st sh \<longleftrightarrow>
     sh_max sh = pl_max_size (ps_pool st) \<and> sh_idle sh = map (slot_id iid) (pl_idle (ps_pool st))
   \<and> sh_pool_closed sh = pl_closed (ps_pool st)
   \<and> sh_created sh = pl_created (ps_pool st) \<and> sh_recreated sh = pl_recreated (ps_pool st)
   \<and> int (sh_version sh) = snd (cb_snapshot cb (ps_world st))
   \<and> sh_open sh = open_ids (ps_world st) - others \<and> sh_next sh \<le> next_id (ps_world st)
   \<and> sh_ticker_stopped sh = stopped (ps_world st)
   \<and> (\<forall>i \<in> set (idle_instances (pl_idle (ps_pool st))). agrees cb iid sh i)"

text \<open>What the steps of a borrow leave alone.\<close>

definition same_frame :: "shared \<Rightarrow> shared \<Rightarrow> bool" where
  "same_frame sh sh' \<longleftrightarrow> sh_closed sh' = sh_closed sh \<and> sh_active sh' = sh_active sh
     \<and> sh_ticker_stopped sh' = sh_ticker_stopped sh \<and> sh_version sh' = sh_version sh
     \<and> sh_close_lock sh' = sh_close_lock sh"

lemma same_frame_refl [simp]: "same_frame sh sh"
  by (simp add: same_frame_def)

lemma same_frame_trans: "same_frame sh sh' \<Longrightarrow> same_frame sh' sh'' \<Longrightarrow> same_frame sh sh''"
  by (simp add: same_frame_def)

lemma idle_id_mem: "Idle n \<in> set (map (slot_id iid) xs) \<longleftrightarrow> n \<in> iid ` set (idle_instances xs)"
  by (induction xs rule: idle_instances.induct) auto

text \<open>What a body may do to its instance.\<close>

definition body_steps :: "('i, 'w) callbacks \<Rightarrow> ('i \<Rightarrow> nat) \<Rightarrow> ('i, 'w, 'r) body \<Rightarrow> bool" where
  "body_steps cb iid body \<longleftrightarrow> (\<forall>i w r i' d w'. body i w = ((r, i', d), w') \<longrightarrow>
     iid i' = iid i \<and> w' = w \<and> cb_version cb i' = cb_version cb i \<and> (cb_poisoned cb i \<longrightarrow> cb_poisoned cb i'))"

section \<open>Borrowing\<close>

text \<open>
  A provider whose resources are numbered upwards, whose failing refresh keeps the version, and
  which never heals a poisoned instance.
\<close>

locale numbered_provider = instance_provider +
  fixes next_id :: "'b \<Rightarrow> nat" and stopped :: "'b \<Rightarrow> bool"
  assumes next_built: "world_ok w \<Longrightarrow> cb_factory cb w = (Inr i, w') \<Longrightarrow> next_id w \<le> iid i \<and> iid i < next_id w'"
    and next_failed: "world_ok w \<Longrightarrow> cb_factory cb w = (Inl e, w') \<Longrightarrow> next_id w \<le> next_id w'"
    and next_closed: "next_id (cb_close cb i w) = next_id w"
    and stopped_factory: "world_ok w \<Longrightarrow> cb_factory cb w = (r, w') \<Longrightarrow> stopped w' = stopped w"
    and stopped_close: "stopped (cb_close cb i w) = stopped w"
    and refresh_Inl_version: "cb_refresh cb w d v i = (Inl e, i') \<Longrightarrow>
        cb_version cb i' = cb_version cb i \<and> (cb_poisoned cb i \<longrightarrow> cb_poisoned cb i')"
begin

abbreviation match :: "nat set \<Rightarrow> ('a, 'b) pstate \<Rightarrow> shared \<Rightarrow> bool" where
  "match \<equiv> matches cb iid open_ids next_id stopped"

abbreviation pinv :: "nat set \<Rightarrow> ('a, 'b) pstate \<Rightarrow> bool" where
  "pinv \<equiv> pool_inv cb iid open_ids world_ok"

abbreviation linv :: "nat set \<Rightarrow> 'a \<Rightarrow> ('a, 'b) pstate \<Rightarrow> bool" where
  "linv \<equiv> loan_inv cb iid open_ids world_ok"

lemma release_match:
  assumes "match others st sh" and "agrees cb iid sh i" and "linv others i st"
  shows "\<exists>sh'. solo (sh, Rel (iid i) d) (sh', Exit) \<and> match others (snd (release cb d (Some i) st)) sh' \<and> same_frame sh sh'"
proof -
  have c: "\<not> sh_pool_closed sh" "\<not> pl_closed (ps_pool st)" "length (sh_idle sh) < sh_max sh"
    "length (pl_idle (ps_pool st)) < pl_max_size (ps_pool st)"
    using assms(1,3) by (auto simp: matches_def loan_inv_def Let_def)
  have p: "sh_poisoned sh (iid i) = cb_poisoned cb i" using assms(2) by (simp add: agrees_def)
  show ?thesis
  proof (cases "d \<or> cb_poisoned cb i")
    case True
    let ?sh = "close_store (iid i) (put_now Placeholder (sh\<lparr>sh_recreated := Suc (sh_recreated sh)\<rparr>))"
    have "tstep sh (Rel (iid i) d) sh (Stat (iid i))" by (rule tstep.rel_discard) (use c p True in auto)
    then have "solo (sh, Rel (iid i) d) (?sh, Exit)"
      by (intro solo_step [OF _ solo_step [OF tstep.stat solo_step [OF tstep.put_none
            solo_step [OF tstep.close_inst solo_refl]]]])
    moreover have "match others (snd (release cb d (Some i) st)) ?sh"
      using assms(1) c True
      by (auto simp: matches_def release_def on_pool_def close_instance_def act_simps put_slot_def put_now_def
          close_store_def idle_instances_append close_snapshot close_open next_closed stopped_close
          agrees_def)
    moreover have "same_frame sh ?sh" by (simp add: same_frame_def put_now_def close_store_def)
    ultimately show ?thesis by blast
  next
    case False
    let ?sh = "put_now (Idle (iid i)) sh"
    have "tstep sh (Rel (iid i) d) sh (Put_back (iid i))" by (rule tstep.rel_healthy) (use c p False in auto)
    then have "solo (sh, Rel (iid i) d) (?sh, Exit)"
      by (intro solo_step [OF _ solo_step [OF tstep.put_back solo_refl]])
    moreover have "match others (snd (release cb d (Some i) st)) ?sh"
      using assms(1,2) c False
      by (auto simp: matches_def release_def on_pool_def act_simps put_slot_def put_now_def idle_instances_append agrees_def)
    moreover have "same_frame sh ?sh" by (simp add: same_frame_def put_now_def)
    ultimately show ?thesis by blast
  qed
qed

text \<open>The instance on loan is not idle: what happens to it does not disturb the match.\<close>

lemma match_loaned:
  assumes "match others st sh" and "linv others i st"
  shows "match others st (sh\<lparr>sh_poisoned := (sh_poisoned sh)(iid i := b)\<rparr>)"
    and "match others st (sh\<lparr>sh_inst_version := (sh_inst_version sh)(iid i := n)\<rparr>)"
proof -
  have "iid j \<noteq> iid i" if "j \<in> set (idle_instances (pl_idle (ps_pool st)))" for j
  proof -
    have "iid i \<notin> iid ` set (idle_instances (pl_idle (ps_pool st)))" using assms(2) by (simp add: loan_inv_def Let_def)
    with imageI [OF that, of iid] show ?thesis by metis
  qed
  then show "match others st (sh\<lparr>sh_poisoned := (sh_poisoned sh)(iid i := b)\<rparr>)"
    and "match others st (sh\<lparr>sh_inst_version := (sh_inst_version sh)(iid i := n)\<rparr>)"
    using assms(1) by (simp_all add: matches_def agrees_def)
qed

lemma loan_match:
  assumes "match others st sh" and "agrees cb iid sh i" and "linv others i st"
    and "iid i2 = iid i" and "cb_version cb i2 = cb_version cb i" and "cb_poisoned cb i \<Longrightarrow> cb_poisoned cb i2"
  shows "\<exists>sh'. solo (sh, Loan v (iid i)) (sh', Exit) \<and> match others (snd (release cb d (Some i2) st)) sh' \<and> same_frame sh sh'"
proof -
  let ?sh = "sh\<lparr>sh_poisoned := (sh_poisoned sh)(iid i := sh_poisoned sh (iid i) \<or> cb_poisoned cb i2)\<rparr>"
  have "match others st ?sh" by (rule match_loaned(1) [OF assms(1,3)])
  moreover have "agrees cb iid ?sh i2" using assms(2,4-6) by (auto simp: agrees_def)
  moreover have "linv others i2 st" by (rule loan_inv_iid [OF assms(3,4)])
  ultimately obtain sh' where r: "solo (?sh, Rel (iid i2) d) (sh', Exit)"
    "match others (snd (release cb d (Some i2) st)) sh'" "same_frame ?sh sh'"
    using release_match by blast
  have "solo (sh, Loan v (iid i)) (sh', Exit)"
    using solo_step [OF tstep.evaluated, of sh "iid i" "cb_poisoned cb i2" d "(sh', Exit)" v] r(1) assms(4) by simp
  moreover have "same_frame sh sh'" using r(3) by (simp add: same_frame_def)
  ultimately show ?thesis using r(2) by blast
qed

lemma with_instance_match:
  assumes "match others st sh" and "agrees cb iid sh i" and "linv others i st" and "body_steps cb iid body"
  shows "\<exists>sh'. solo (sh, Fresh v (iid i)) (sh', Exit) \<and> match others (snd (with_instance cb body i st)) sh' \<and> same_frame sh sh'"
proof -
  obtain q i1 where ref: "refresh_if_stale cb i st = (q, i1)" by fastforce
  obtain r2 i2 d w where "body i1 (ps_world st) = ((r2, i2, d), w)" by (metis prod_cases3 surj_pair)
  then have b: "body i1 (ps_world st) = ((r2, i2, d), ps_world st)"
    and i2: "iid i2 = iid i1" "cb_version cb i2 = cb_version cb i1" "cb_poisoned cb i1 \<Longrightarrow> cb_poisoned cb i2"
    using assms(4) unfolding body_steps_def by blast+
  note run = with_instance_run [where body = body, OF ref b]
  have ver: "int (sh_version sh) = snd (cb_snapshot cb (ps_world st))" using assms(1) by (simp add: matches_def)
  have iver: "cb_version cb i = int (sh_inst_version sh (iid i))" using assms(2) by (simp add: agrees_def)
  show ?thesis
  proof (cases "sh_inst_version sh (iid i) = sh_version sh")
    case True
    then have "i1 = i" "q = Inr ()" using ref ver iver by (auto simp: refresh_if_stale_def split: prod.splits)
    with loan_match [OF assms(1-3), of i2 v d] i2 obtain sh' where s: "solo (sh, Loan v (iid i)) (sh', Exit)"
      "match others (snd (release cb d (Some i2) st)) sh'" "same_frame sh sh'" by blast
    have "solo (sh, Fresh v (iid i)) (sh', Exit)" by (rule solo_step [OF tstep.fresh [OF True] s(1)])
    then show ?thesis using s(2,3) run \<open>q = Inr ()\<close> by auto
  next
    case False
    let ?cur = "cb_snapshot cb (ps_world st)"
    have rf: "cb_refresh cb (ps_world st) (fst ?cur) (snd ?cur) i = (q, i1)"
      using ref ver iver False by (auto simp: refresh_if_stale_def split: prod.splits if_splits)
    have stale: "tstep sh (Fresh v (iid i)) sh (Refresh v (iid i) (sh_version sh))" by (rule tstep.stale [OF False])
    have id1: "iid i1 = iid i" by (rule refresh_iid [OF rf])
    have l1: "linv others i1 st" by (rule loan_inv_iid [OF assms(3) id1])
    show ?thesis
    proof (cases q)
      case (Inr u)
      let ?sh = "sh\<lparr>sh_inst_version := (sh_inst_version sh)(iid i := sh_version sh)\<rparr>"
      have "agrees cb iid ?sh i1" using refresh_Inr [OF rf [unfolded Inr]] ver id1 assms(2) by (simp add: agrees_def)
      from loan_match [OF match_loaned(2) [OF assms(1,3)] this l1 i2, of v d] obtain sh' where
        s: "solo (?sh, Loan v (iid i)) (sh', Exit)" "match others (snd (release cb d (Some i2) st)) sh'" "same_frame ?sh sh'"
        using id1 by auto
      have "solo (sh, Fresh v (iid i)) (sh', Exit)"
        by (rule solo_step [OF stale solo_step [OF tstep.refresh s(1)]])
      moreover have "same_frame sh sh'" using s(3) by (simp add: same_frame_def)
      ultimately show ?thesis using s(2) run Inr by auto
    next
      case (Inl e)
      let ?sh = "sh\<lparr>sh_poisoned := (sh_poisoned sh)(iid i := sh_poisoned sh (iid i) \<or> cb_poisoned cb i1)\<rparr>"
      have "agrees cb iid ?sh i1" using refresh_Inl_version [OF rf [unfolded Inl]] id1 assms(2) by (auto simp: agrees_def)
      from release_match [OF match_loaned(1) [OF assms(1,3)] this l1, of False] obtain sh' where
        s: "solo (?sh, Rel (iid i) False) (sh', Exit)" "match others (snd (release cb False (Some i1) st)) sh'" "same_frame ?sh sh'"
        using id1 by auto
      have "solo (sh, Fresh v (iid i)) (sh', Exit)"
        by (rule solo_step [OF stale solo_step [OF tstep.refresh_failed s(1)]])
      moreover have "same_frame sh sh'" using s(3) by (simp add: same_frame_def)
      ultimately show ?thesis using s(2) run Inl by auto
    qed
  qed
qed

text \<open>Serving a caller from an open pool, with the first idle slot or an instance built for it.\<close>

lemma idle_match:
  assumes "match others st sh" and "pinv others st" and "\<not> pl_closed (ps_pool st)"
    and "pl_idle (ps_pool st) = Idle i # rest" and "body_steps cb iid body"
  shows "\<exists>sh'. solo (sh, Check v) (sh', Exit) \<and> same_frame sh sh'
    \<and> match others (snd (with_instance cb body i (st\<lparr>ps_pool := (ps_pool st)\<lparr>pl_idle := rest\<rparr>\<rparr>))) sh'"
proof -
  let ?st = "st\<lparr>ps_pool := (ps_pool st)\<lparr>pl_idle := rest\<rparr>\<rparr>" and ?sh = "sh\<lparr>sh_idle := map (slot_id iid) rest\<rparr>"
  have m: "match others ?st ?sh" and a: "agrees cb iid ?sh i" using assms(1,4) by (simp_all add: matches_def agrees_def)
  obtain sh' where s: "solo (?sh, Fresh v (iid i)) (sh', Exit)" "match others (snd (with_instance cb body i ?st)) sh'"
    "same_frame ?sh sh'"
    using with_instance_match [OF m a loan_of_idle [OF assms(2-4)] assms(5)] by blast
  have c: "\<not> sh_pool_closed sh" "\<not> sh_pool_closed ?sh" "sh_idle sh = Idle (iid i) # map (slot_id iid) rest"
    using assms(1,3,4) by (simp_all add: matches_def)
  have "solo (sh, Check v) (sh', Exit)"
    by (rule solo_step [OF tstep.check_open [OF c(1)] solo_step [OF tstep.get [OF c(3)]
          solo_step [OF tstep.got_instance [OF c(2)] s(1)]]])
  moreover have "same_frame sh sh'" using s(3) by (simp add: same_frame_def)
  ultimately show ?thesis using s(2) by blast
qed

lemma failed_match:
  assumes "match others st sh" and "pinv others st" and "\<not> pl_closed (ps_pool st)"
    and "pl_idle (ps_pool st) = Placeholder # rest" and "cb_factory cb (ps_world st) = (Inl e, w)"
  shows "\<exists>sh'. solo (sh, Check v) (sh', Exit) \<and> same_frame sh sh'
    \<and> match others (st\<lparr>ps_world := w, ps_pool := put_slot Placeholder ((ps_pool st)\<lparr>pl_idle := rest\<rparr>)\<rparr>) sh'"
proof -
  let ?sh = "sh\<lparr>sh_idle := map (slot_id iid) rest\<rparr>"
  have w: "world_ok (ps_world st)" "Suc (length rest) = pl_max_size (ps_pool st)"
    using assms(2-4) by (simp_all add: pool_inv_def Let_def)
  note f = factory_Inl [OF w(1) assms(5)] factory_snapshot [OF assms(5)] next_failed [OF w(1) assms(5)]
    stopped_factory [OF w(1) assms(5)]
  have c: "\<not> sh_pool_closed sh" "\<not> sh_pool_closed ?sh" "sh_idle sh = Placeholder # map (slot_id iid) rest"
    using assms(1,3,4) by (simp_all add: matches_def)
  have "solo (sh, Check v) (put_now Placeholder ?sh, Exit)"
    by (rule solo_step [OF tstep.check_open [OF c(1)] solo_step [OF tstep.get [OF c(3)]
          solo_step [OF tstep.got_placeholder [OF c(2)] solo_step [OF tstep.create
          solo_step [OF tstep.build_failed solo_step [OF tstep.rel_none solo_refl]]]]]])
  moreover have "match others (st\<lparr>ps_world := w, ps_pool := put_slot Placeholder ((ps_pool st)\<lparr>pl_idle := rest\<rparr>)\<rparr>)
      (put_now Placeholder ?sh)"
    using assms(1,4) f w(2) by (auto simp: matches_def put_slot_def put_now_def idle_instances_append agrees_def)
  moreover have "same_frame sh (put_now Placeholder ?sh)" by (simp add: same_frame_def put_now_def)
  ultimately show ?thesis by blast
qed

lemma built_match:
  assumes "match others st sh" and "pinv others st" and "\<not> pl_closed (ps_pool st)"
    and "pl_idle (ps_pool st) = Placeholder # rest" and "cb_factory cb (ps_world st) = (Inr i, w)"
    and "linv others i st'" and "body_steps cb iid body"
    and "st' = \<lparr>ps_pool = (ps_pool st)\<lparr>pl_idle := rest, pl_created := Suc (pl_created (ps_pool st))\<rparr>, ps_world = w\<rparr>"
  shows "\<exists>sh'. solo (sh, Check v) (sh', Exit) \<and> same_frame sh sh' \<and> match others (snd (with_instance cb body i st')) sh'"
proof -
  let ?sh1 = "sh\<lparr>sh_idle := map (slot_id iid) rest\<rparr>" and ?n = "sh_version sh"
  let ?sh2 = "?sh1\<lparr>sh_next := Suc (iid i), sh_open := insert (iid i) (sh_open ?sh1),
    sh_inst_version := (sh_inst_version ?sh1)(iid i := ?n), sh_poisoned := (sh_poisoned ?sh1)(iid i := False)\<rparr>"
  let ?sh = "?sh2\<lparr>sh_created := Suc (sh_created ?sh2)\<rparr>"
  have w: "world_ok (ps_world st)" "set (map iid (idle_instances rest)) \<union> others \<subseteq> open_ids (ps_world st)"
    using assms(2,4) by (simp_all add: pool_inv_def Let_def)
  note f = factory_Inr [OF w(1) assms(5)] factory_snapshot [OF assms(5)] next_built [OF w(1) assms(5)]
    stopped_factory [OF w(1) assms(5)]
  have other: "iid i \<notin> others" "iid j \<noteq> iid i" if "j \<in> set (idle_instances rest)" for j
    using f(1) w(2) that by fastforce+
  have iid_others: "iid i \<notin> others" using f(1) w(2) by blast
  have c: "\<not> sh_pool_closed sh" "\<not> sh_pool_closed ?sh1" "sh_idle sh = Placeholder # map (slot_id iid) rest"
    using assms(1,3,4) by (simp_all add: matches_def)
  have nx: "sh_next ?sh1 \<le> iid i" using assms(1) f(3) by (simp add: matches_def)
  have m: "match others st' ?sh"
    using assms(1,4) f other iid_others unfolding assms(8) by (auto simp: matches_def agrees_def)
  have a: "agrees cb iid ?sh i" using assms(1) f(1) by (simp add: agrees_def matches_def)
  obtain sh' where s: "solo (?sh, Fresh v (iid i)) (sh', Exit)" "match others (snd (with_instance cb body i st')) sh'"
    "same_frame ?sh sh'"
    using with_instance_match [OF m a assms(6,7)] by blast
  have "solo (?sh1, Create v) (?sh1, Build v ?n)" using solo_step [OF tstep.create solo_refl, of ?sh1 v] by simp
  from solo_trans [OF this solo_step [OF tstep.build [OF nx] solo_step [OF tstep.made s(1)]]]
  have "solo (sh, Check v) (sh', Exit)"
    by (rule solo_step [OF tstep.check_open [OF c(1)] solo_step [OF tstep.get [OF c(3)]
          solo_step [OF tstep.got_placeholder [OF c(2)]]]])
  moreover have "same_frame sh sh'" using s(3) by (simp add: same_frame_def)
  ultimately show ?thesis using s(2) by blast
qed

lemma borrow_match:
  assumes "match others st sh" and "pinv others st" and "body_steps cb iid body"
  shows "\<exists>sh'. solo (sh, Check v) (sh', Exit) \<and> same_frame sh sh' \<and> match others (snd (borrow cb body st)) sh'"
proof (cases "pl_closed (ps_pool st)")
  case True
  then have "borrow cb body st = (Inl (new_exc OpaPolicyClosedError ''policy is closed''), st)"
    by (simp add: borrow_def act_simps)
  moreover have "sh_pool_closed sh" using True assms(1) by (simp add: matches_def)
  ultimately show ?thesis using assms(1) solo_step [OF tstep.check_closed solo_refl] same_frame_refl by (metis snd_conv)
next
  case False
  obtain s rest where s: "pl_idle (ps_pool st) = s # rest" "s \<noteq> CloseSentinel"
    "take_slot cb st = (Inr (case s of Idle i \<Rightarrow> Some i | _ \<Rightarrow> None), st\<lparr>ps_pool := (ps_pool st)\<lparr>pl_idle := rest\<rparr>\<rparr>)"
    using take_slot_open [OF assms(2) False] .
  show ?thesis
  proof (cases s)
    case (Idle i)
    then have "borrow cb body st = with_instance cb body i (st\<lparr>ps_pool := (ps_pool st)\<lparr>pl_idle := rest\<rparr>\<rparr>)"
      using s(3) False by (simp add: borrow_def act_simps)
    then show ?thesis using idle_match [OF assms(1,2) False _ assms(3)] s(1) Idle by metis
  next
    case Placeholder
    then have idle: "pl_idle (ps_pool st) = Placeholder # rest" using s(1) by simp
    let ?st = "st\<lparr>ps_pool := (ps_pool st)\<lparr>pl_idle := rest\<rparr>\<rparr>"
    obtain q w where f: "cb_factory cb (ps_world st) = (q, w)" by fastforce
    note c = create_for_placeholder [OF assms(2) False idle]
    show ?thesis
    proof (cases q)
      case (Inl e)
      have "snd (borrow cb body st) = st\<lparr>ps_world := w, ps_pool := put_slot Placeholder ((ps_pool st)\<lparr>pl_idle := rest\<rparr>)\<rparr>"
        using s(3) False Placeholder f Inl by (simp add: borrow_def create_instance_def release_def on_pool_def act_simps)
      then show ?thesis using failed_match [OF assms(1,2) False idle] f Inl by metis
    next
      case (Inr i)
      let ?st' = "\<lparr>ps_pool = (ps_pool st)\<lparr>pl_idle := rest, pl_created := Suc (pl_created (ps_pool st))\<rparr>, ps_world = w\<rparr>"
      have t: "try_except (create_instance cb) (\<lambda>e. bnd (release cb False None) (\<lambda>_. raise e)) ?st = (Inr i, ?st')"
        using f Inr by (cases st) (simp add: create_instance_def on_pool_def act_simps)
      have "borrow cb body st = with_instance cb body i ?st'"
        using s(3) False Placeholder t by (simp add: borrow_def act_simps)
      moreover have "linv others i ?st'" using c [OF t] by simp
      ultimately show ?thesis using built_match [OF assms(1,2) False idle _ _ assms(3)] f Inr by metis
    qed
  qed (use s(2) in simp)
qed

text \<open>Closing: the thread that sets the event drains the queue slot by slot.\<close>

lemma drain_solo:
  "sh_idle sh = map (slot_id iid) xs \<Longrightarrow>
   solo (sh, C_drain) (sh\<lparr>sh_idle := [], sh_open := sh_open sh - iid ` set (idle_instances xs)\<rparr>, C_wake)"
proof (induction xs arbitrary: sh)
  case Nil
  then have eq: "sh\<lparr>sh_idle := [], sh_open := sh_open sh - iid ` set (idle_instances [])\<rparr> = sh" by (cases sh) simp
  show ?case unfolding eq using Nil by (intro solo_step [OF tstep.drained solo_refl]) simp
next
  case (Cons s xs)
  let ?sh = "sh\<lparr>sh_idle := map (slot_id iid) xs\<rparr>"
  show ?case
  proof (cases s)
    case (Idle i)
    then have "sh_idle sh = Idle (iid i) # map (slot_id iid) xs" using Cons.prems by simp
    note d = tstep.drain_instance [OF this]
    let ?sh2 = "close_store (iid i) ?sh"
    have "sh_idle ?sh2 = map (slot_id iid) xs" by (simp add: close_store_def)
    from solo_step [OF d solo_step [OF tstep.drain_close Cons.IH [OF this]]] show ?thesis
      using Idle by (simp add: close_store_def Diff_insert2 [symmetric])
  next
    case Placeholder
    then have "sh_idle sh = Placeholder # map (slot_id iid) xs" using Cons.prems by simp
    from solo_step [OF tstep.drain_other [OF this] Cons.IH] show ?thesis using Placeholder by simp
  next
    case CloseSentinel
    then have "sh_idle sh = CloseSentinel # map (slot_id iid) xs" using Cons.prems by simp
    from solo_step [OF tstep.drain_other [OF this] Cons.IH] show ?thesis using CloseSentinel by simp
  qed
qed

lemma fold_close_next:
  "next_id (fold (cb_close cb) xs w) = next_id w" "stopped (fold (cb_close cb) xs w) = stopped w"
  by (induction xs arbitrary: w) (simp_all add: next_closed stopped_close)

lemma close_match:
  assumes "match others st sh" and "pinv others st" and "\<not> sh_close_lock sh"
  shows "\<exists>sh'. solo (sh, C_lock) (sh', C_life) \<and> match others (pool_close cb st) sh' \<and> same_frame sh sh'"
proof (cases "pl_closed (ps_pool st)")
  case True
  let ?sh = "sh\<lparr>sh_close_lock := True\<rparr>"
  have c: "sh_pool_closed ?sh" using assms(1) True by (simp add: matches_def)
  have "solo (sh, C_lock) (?sh\<lparr>sh_close_lock := False\<rparr>, C_life)"
    by (rule solo_step [OF tstep.lock [OF assms(3)] solo_step [OF tstep.already_closed [OF c] solo_refl]])
  moreover have "match others (pool_close cb st) (?sh\<lparr>sh_close_lock := False\<rparr>)"
    using assms(1) True by (auto simp: pool_close_def matches_def agrees_def)
  moreover have "same_frame sh (?sh\<lparr>sh_close_lock := False\<rparr>)" using assms(3) by (simp add: same_frame_def)
  ultimately show ?thesis by blast
next
  case False
  let ?xs = "pl_idle (ps_pool st)"
  let ?sh1 = "sh\<lparr>sh_close_lock := True, sh_pool_closed := True\<rparr>"
  let ?sh2 = "?sh1\<lparr>sh_idle := [], sh_open := sh_open ?sh1 - iid ` set (idle_instances ?xs)\<rparr>"
  let ?sh = "put_now CloseSentinel ?sh2\<lparr>sh_close_lock := False\<rparr>"
  have c: "\<not> sh_pool_closed (sh\<lparr>sh_close_lock := True\<rparr>)" "sh_idle ?sh1 = map (slot_id iid) ?xs"
    using assms(1) False by (simp_all add: matches_def)
  have i: "1 \<le> pl_max_size (ps_pool st)" "iid ` set (idle_instances ?xs) \<inter> others = {}"
    using assms(2) by (simp_all add: pool_inv_def Let_def)
  have "solo (?sh1, C_drain) (?sh2, C_wake)" by (rule drain_solo [OF c(2)])
  from solo_trans [OF this solo_step [OF tstep.close_wake solo_refl]]
  have "solo (?sh1, C_drain) (?sh, C_life)" .
  with solo_step [OF tstep.lock [OF assms(3)] solo_step [OF tstep.set_closed [OF c(1)]]]
  have "solo (sh, C_lock) (?sh, C_life)" by simp
  moreover have "match others (pool_close cb st) ?sh"
    using assms(1) False i fold_close [of "idle_instances ?xs" "ps_world st"] fold_close_next [of "idle_instances ?xs"]
    by (auto simp: pool_close_def matches_def put_wake_sentinel_def put_slot_def put_now_def Let_def)
  moreover have "same_frame sh ?sh" using assms(3) by (simp add: same_frame_def put_now_def)
  ultimately show ?thesis by blast
qed

end

section \<open>The policy\<close>

abbreviation next_store :: "pworld \<Rightarrow> nat" where
  "next_store w \<equiv> nt_next (wo_native (pw_world w))"

abbreviation ticker_stopped :: "pworld \<Rightarrow> bool" where
  "ticker_stopped w \<equiv> tk_stop (wo_ticker (pw_world w))"

lemma build_instance_next:
  assumes "native_ok w" and "build_instance pe w = (r, w')"
  shows "ticker_stopped w' = ticker_stopped w" and "pw_data_version w' = pw_data_version w"
    and "case r of Inl e \<Rightarrow> next_store w \<le> next_store w' | Inr i \<Rightarrow> next_store w \<le> i_id i \<and> i_id i < next_store w'"
proof -
  obtain wo where wo: "w' = w\<lparr>pw_world := wo\<rparr>" "instance_post (pw_data_version w) (pw_world w) r wo"
    using build_instance_run [OF assms(2)] assms(1) by blast
  have "i_id i < nt_next (wo_native wo)" if "r = Inr i" for i
    using wo(2) that by (auto simp: instance_post_def native_wf_def)
  then show "case r of Inl e \<Rightarrow> next_store w \<le> next_store w' | Inr i \<Rightarrow> next_store w \<le> i_id i \<and> i_id i < next_store w'"
    using wo by (auto simp: instance_post_def split: sum.splits)
  show "ticker_stopped w' = ticker_stopped w" "pw_data_version w' = pw_data_version w"
    using wo by (auto simp: instance_post_def ensure_running_def split: sum.splits)
qed

interpretation npol: numbered_provider "policy_callbacks pe" i_id stores_of native_ok next_store ticker_stopped for pe :: "'s penv"
proof
  fix w w' :: pworld and i :: "'s inst"
  assume "native_ok w" and "cb_factory (policy_callbacks pe) w = (Inr i, w')"
  then show "next_store w \<le> i_id i \<and> i_id i < next_store w'" using build_instance_next(3) [of w pe] by fastforce
next
  fix w w' :: pworld and e
  assume "native_ok w" and "cb_factory (policy_callbacks pe) w = (Inl e, w')"
  then show "next_store w \<le> next_store w'" using build_instance_next(3) [of w pe] by fastforce
next
  fix w w' :: pworld and r :: "exc + 's inst"
  assume "native_ok w" and "cb_factory (policy_callbacks pe) w = (r, w')"
  then show "ticker_stopped w' = ticker_stopped w" using build_instance_next(1) by simp
next
  fix w :: pworld and d v e and i i' :: "'s inst"
  assume "cb_refresh (policy_callbacks pe) w d v i = (Inl e, i')"
  then show "cb_version (policy_callbacks pe) i' = cb_version (policy_callbacks pe) i
      \<and> (cb_poisoned (policy_callbacks pe) i \<longrightarrow> cb_poisoned (policy_callbacks pe) i')"
    using reload_data_spec(2) [of "inst_env pe w" d v i "Inl e" i'] by simp
qed (simp_all add: inst_close_def)

lemma eval_body_steps: "body_steps (policy_callbacks pe) i_id (eval_body pe v ep)"
  unfolding body_steps_def
proof (intro allI impI)
  fix i w r i' d w'
  assume "eval_body pe v ep i w = ((r, i', d), w')"
  then have ev: "inst_evaluate (inst_env pe w) v ep i = (r, i')" and "w' = w"
    by (auto simp: eval_body_def split: prod.splits)
  then show "i_id i' = i_id i \<and> w' = w \<and> cb_version (policy_callbacks pe) i' = cb_version (policy_callbacks pe) i
      \<and> (cb_poisoned (policy_callbacks pe) i \<longrightarrow> cb_poisoned (policy_callbacks pe) i')"
    using inst_evaluate_spec(1,2,4) [OF ev] by (simp add: same_id_def)
qed

text \<open>The facade and the shared state of the thread model.\<close>

definition mirrors :: "'s penv \<Rightarrow> nat set \<Rightarrow> 's policy \<Rightarrow> shared \<Rightarrow> bool" where
  "mirrors pe others p sh \<longleftrightarrow>
     matches (policy_callbacks pe) i_id stores_of next_store ticker_stopped others (po_state p) sh
   \<and> sh_closed sh = po_closed p \<and> int (sh_active sh) = po_active_evals p \<and> \<not> sh_close_lock sh"

text \<open>A part of the world that the thread model does not see may change.\<close>

lemma matches_world:
  assumes "stores_of w = stores_of (ps_world st)" and "next_store w = next_store (ps_world st)"
    and "pw_data_version w = pw_data_version (ps_world st)"
    and "matches (policy_callbacks pe) i_id stores_of next_store ticker_stopped others st sh"
  shows "matches (policy_callbacks pe) i_id stores_of next_store ticker_stopped others (st\<lparr>ps_world := w\<rparr>)
    (sh\<lparr>sh_ticker_stopped := ticker_stopped w\<rparr>)"
  using assms by (simp add: matches_def data_snapshot_def agrees_def)

lemma stop_ticker_mirrors:
  assumes "mirrors pe others p sh"
  shows "mirrors pe others (stop_ticker p) (sh\<lparr>sh_ticker_stopped := True\<rparr>)"
  using matches_world [of "(ps_world (po_state p))\<lparr>pw_world := (pw_world (ps_world (po_state p)))
      \<lparr>wo_ticker := ticker_close (wo_ticker (pw_world (ps_world (po_state p))))\<rparr>\<rparr>" "po_state p" pe others sh] assms
  by (simp add: mirrors_def stop_ticker_def on_world_def ticker_close_def close_take_thread_def close_set_stop_def)

text \<open>A call that changes nothing is no step; a call is a run of one thread.\<close>

lemma mirrors_stay: "mirrors pe others p sh \<Longrightarrow> \<exists>sh'. solo (sh, Ready) (sh', Ready) \<and> mirrors pe others p sh'"
  by (blast intro: solo_refl)

lemma set_data_mirrors:
  assumes "mirrors pe others p sh"
  shows "\<exists>sh'. solo (sh, Ready) (sh', Ready) \<and> mirrors pe others (snd (set_data pe data p)) sh'"
proof (cases "po_closed p")
  case True
  then show ?thesis using mirrors_stay [OF assms] by (simp add: set_data_def raise_if_closed_def act_simps)
next
  case False
  show ?thesis
  proof (cases "serialise_data (pt_float (pe_text pe)) (pe_config pe) data")
    case (Inl e)
    then show ?thesis using False mirrors_stay [OF assms] by (simp add: set_data_def raise_if_closed_def act_simps)
  next
    case (Inr doc)
    have "solo (sh, Ready) (sh\<lparr>sh_version := Suc (sh_version sh)\<rparr>, Ready)"
      using False assms by (intro solo_step [OF tstep.set_open solo_step [OF tstep.set_data solo_refl]]) (simp add: mirrors_def)
    moreover have "mirrors pe others (snd (set_data pe data p)) (sh\<lparr>sh_version := Suc (sh_version sh)\<rparr>)"
      using False Inr assms
      by (auto simp: set_data_def raise_if_closed_def act_simps mirrors_def matches_def on_world_def agrees_def data_snapshot_def)
    ultimately show ?thesis by blast
  qed
qed

lemma register_mirrors:
  assumes "mirrors pe others p sh"
  shows "mirrors pe others (snd (register_builtin name fn rep p)) sh"
  using assms matches_world [of "(ps_world (po_state p))\<lparr>pw_registry := _\<rparr>" "po_state p" pe others sh]
  by (auto simp: register_builtin_def raise_if_closed_def act_simps mirrors_def matches_def on_world_def agrees_def
      data_snapshot_def split: sum.splits prod.splits)

lemma exit_solo:
  assumes "mirrors pe others p (sh\<lparr>sh_active := 0\<rparr>)" and "sh_active sh = 1"
  shows "\<exists>sh'. solo (sh, Exit) (sh', Ready) \<and> mirrors pe others (if po_closed p then stop_ticker p else p) sh'"
proof (cases "po_closed p")
  case True
  then have "sh_closed sh" using assms(1) by (simp add: mirrors_def)
  then have "solo (sh, Exit) (sh\<lparr>sh_active := 0, sh_ticker_stopped := True\<rparr>, Ready)"
    using solo_step [OF tstep.exit_last solo_step [OF tstep.stop_ticker solo_refl], of sh] assms(2) by simp
  then show ?thesis using stop_ticker_mirrors [OF assms(1)] True by auto
next
  case False
  then have "\<not> sh_closed sh" using assms(1) by (simp add: mirrors_def)
  then have "solo (sh, Exit) (sh\<lparr>sh_active := 0\<rparr>, Ready)"
    using solo_step [OF tstep.exit solo_refl, of sh] assms(2) by simp
  then show ?thesis using assms(1) False by auto
qed

lemma evaluate_mirrors:
  assumes "mirrors pe others p sh" and "policy_inv pe others p"
  shows "\<exists>sh'. solo (sh, Ready) (sh', Ready) \<and> mirrors pe others (snd (evaluate_raw pe v entry p)) sh'"
proof (cases "resolve_entrypoint (pe_config pe) (po_entrypoints p) entry")
  case (Inl e)
  then show ?thesis using mirrors_stay [OF assms(1)] by (simp add: evaluate_raw_run)
next
  case (Inr ep)
  obtain r st where b: "borrow (policy_callbacks pe) (eval_body pe v ep) (po_state p) = (r, st)" by fastforce
  have inv: "pool_inv (policy_callbacks pe) i_id stores_of native_ok others (po_state p)" "po_active_evals p = 0"
    using assms(2) by (simp_all add: policy_inv_def)
  let ?sh = "sh\<lparr>sh_active := Suc 0\<rparr>"
  have a: "sh_active sh = 0" using assms(1) inv(2) by (simp add: mirrors_def)
  have "matches (policy_callbacks pe) i_id stores_of next_store ticker_stopped others (po_state p) ?sh"
    using assms(1) by (simp add: mirrors_def matches_def agrees_def)
  from npol.borrow_match [OF this inv(1) eval_body_steps [of pe v ep], of "sh_version sh"] obtain sh' where
    s: "solo (?sh, Check (sh_version sh)) (sh', Exit)" "same_frame ?sh sh'"
      "matches (policy_callbacks pe) i_id stores_of next_store ticker_stopped others st sh'"
    using b by auto
  have "mirrors pe others (p\<lparr>po_state := st\<rparr>) (sh'\<lparr>sh_active := 0\<rparr>)"
    using s(2,3) assms(1) inv(2) by (simp add: mirrors_def matches_def agrees_def same_frame_def)
  from exit_solo [OF this] s(2) obtain sh2 where
    e: "solo (sh', Exit) (sh2, Ready)" "mirrors pe others (snd (evaluate_raw pe v entry p)) sh2"
    using exit_enter [OF inv(2), of st] by (auto simp: same_frame_def evaluate_raw_run Inr b)
  have "tstep sh Ready ?sh (Check (sh_version sh))" using tstep.enter [of sh] a by simp
  from solo_step [OF this solo_trans [OF s(1) e(1)]] e(2) show ?thesis by blast
qed

lemma close_mirrors:
  assumes "mirrors pe others p sh" and "policy_inv pe others p"
  shows "\<exists>sh'. solo (sh, Ready) (sh', Ready) \<and> mirrors pe others (policy_close pe p) sh'"
proof -
  have inv: "pool_inv (policy_callbacks pe) i_id stores_of native_ok others (po_state p)" "po_active_evals p = 0"
    using assms(2) by (simp_all add: policy_inv_def)
  have m: "matches (policy_callbacks pe) i_id stores_of next_store ticker_stopped others (po_state p) sh" "\<not> sh_close_lock sh"
    using assms(1) by (simp_all add: mirrors_def)
  from npol.close_match [OF m(1) inv(1) m(2)] obtain sh' where s: "solo (sh, C_lock) (sh', C_life)"
    "matches (policy_callbacks pe) i_id stores_of next_store ticker_stopped others (pool_close (policy_callbacks pe) (po_state p)) sh'"
    "same_frame sh sh'" by blast
  have a: "sh_active sh' = 0" using assms(1) inv(2) s(3) by (simp add: mirrors_def same_frame_def)
  let ?p = "p\<lparr>po_state := pool_close (policy_callbacks pe) (po_state p), po_closed := True\<rparr>"
  have "mirrors pe others ?p (sh'\<lparr>sh_closed := True\<rparr>)"
    using s(2,3) assms(1) by (simp add: mirrors_def matches_def agrees_def same_frame_def)
  from stop_ticker_mirrors [OF this] have "mirrors pe others (policy_close pe p) (sh'\<lparr>sh_closed := True, sh_ticker_stopped := True\<rparr>)"
    using inv(2) by (simp add: policy_close_def)
  moreover have "solo (sh, Ready) (sh'\<lparr>sh_closed := True, sh_ticker_stopped := True\<rparr>, Ready)"
    using solo_step [OF tstep.start_close solo_trans [OF s(1) solo_step [OF tstep.life_idle [OF a]
          solo_step [OF tstep.stop_ticker solo_refl]]]] by simp
  ultimately show ?thesis by blast
qed

text \<open>One call of a client, and any number of them by any of the threads.\<close>

lemma call_mirrors:
  assumes "mirrors pe others p sh" and "policy_inv pe others p"
  shows "\<exists>sh'. solo (sh, Ready) (sh', Ready) \<and> mirrors pe others (policy_step pe call p) sh'"
proof (cases call)
  case (RegisterBuiltin name fn rep)
  then show ?thesis using mirrors_stay [OF register_mirrors [OF assms(1)]] by simp
qed (use set_data_mirrors [OF assms(1)] evaluate_mirrors [OF assms] close_mirrors [OF assms] in
    \<open>simp_all add: policy_evaluate_state\<close>)

lemma calls_mirror:
  assumes "mirrors pe others p sh" and "policy_inv pe others p"
  shows "\<exists>sh'. cstep\<^sup>*\<^sup>* (sh, replicate (Suc k) Ready) (sh', replicate (Suc k) Ready)
    \<and> mirrors pe others (fold (policy_step pe) calls p) sh'"
  using assms
proof (induction calls arbitrary: p sh)
  case (Cons c calls)
  obtain sh1 where s: "solo (sh, Ready) (sh1, Ready)" "mirrors pe others (policy_step pe c p) sh1"
    using call_mirrors [OF Cons.prems] by blast
  obtain sh' where "cstep\<^sup>*\<^sup>* (sh1, replicate (Suc k) Ready) (sh', replicate (Suc k) Ready)"
    "mirrors pe others (fold (policy_step pe) (c # calls) p) sh'"
    using Cons.IH [OF s(2) policy_inv_step [OF Cons.prems(2)]] by auto
  moreover have "cstep\<^sup>*\<^sup>* (sh, replicate (Suc k) Ready) (sh1, replicate (Suc k) Ready)"
    using solo_run [OF s(1), of 0 "replicate (Suc k) Ready"] by simp
  ultimately show ?case by (blast intro: rtranclp_trans)
qed auto

section \<open>The constructed policy\<close>

lemma run_probe_frame:
  assumes "run_probe pe w0 = (r, w)" and "native_ok w0"
  shows "ticker_stopped w = ticker_stopped w0" and "pw_data_version w = pw_data_version w0"
proof -
  obtain b w1 where b: "build_instance pe w0 = (b, w1)" by fastforce
  note n = build_instance_next(1,2) [OF assms(2) b]
  show "ticker_stopped w = ticker_stopped w0" "pw_data_version w = pw_data_version w0"
    using assms(1) b n by (auto simp: run_probe_def inst_close_def split: sum.splits prod.splits)
qed

lemma pool_init_mirrors:
  assumes "pool_init n = Inr pl"
  shows "1 \<le> nat n" and "pl = \<lparr>pl_max_size = nat n, pl_idle = replicate (nat n) Placeholder,
    pl_closed = False, pl_created = 0, pl_recreated = 0\<rparr>"
  using assms by (auto simp: pool_init_def split: if_splits)

lemma policy_init_mirrors:
  fixes pe :: "'s penv"
  assumes "native_wf (wo_native wo)" and "\<not> tk_stop (wo_ticker wo)" and "policy_init pe yaml wo = (Inr p, wo')"
  shows "1 \<le> nat (pool_size (pe_config pe))"
    and "mirrors pe (nt_open (wo_native wo)) p (fst (initial (nat (pool_size (pe_config pe))) k))"
proof -
  obtain pl eps bs ver w where pl: "pool_init (pool_size (pe_config pe)) = (Inr pl :: exc + 's inst pool)"
    and q: "run_probe pe (initial_world pe yaml wo) = (Inr (eps, bs, ver), w)"
    and p: "p = \<lparr>po_state = \<lparr>ps_pool = pl, ps_world = w\<rparr>, po_closed = False, po_active_evals = 0,
        po_entrypoints = eps, po_builtins = bs, po_abi_version = ver\<rparr>"
    using assms(3) by (auto simp: policy_init_def Let_def split: sum.splits prod.splits)
  have ok: "native_ok (initial_world pe yaml wo)" using assms(1) by (simp add: initial_world_def)
  show "1 \<le> nat (pool_size (pe_config pe))" by (rule pool_init_mirrors(1) [OF pl])
  show "mirrors pe (nt_open (wo_native wo)) p (fst (initial (nat (pool_size (pe_config pe))) k))"
    using run_probe_spec(2) [OF q ok] run_probe_frame [OF q ok] assms(2)
    unfolding p pool_init_mirrors(2) [OF pl]
    by (simp add: mirrors_def matches_def initial_def initial_world_def data_snapshot_def map_replicate_const)
qed

lemma from_wasm_bytes_mirrors:
  assumes "native_wf nt" and "from_wasm_bytes w pt yaml depth config wasm_bytes nt = (Inr (pe, p), nt')"
  shows "1 \<le> nat (pool_size (pe_config pe))"
    and "mirrors pe (nt_open nt) p (fst (initial (nat (pool_size (pe_config pe))) k))"
proof -
  obtain fac where f: "factory_init w wasm_bytes (max_memory_pages (case config of None \<Rightarrow> default_config | Some c \<Rightarrow> c)) = Inr fac"
    using assms(2) by (auto simp: from_wasm_bytes_def Let_def split: sum.splits)
  obtain wo where "policy_init pe yaml \<lparr>wo_native = nt, wo_ticker = ticker_init\<rparr> = (Inr p, wo)"
    using assms(2) f by (auto simp: from_wasm_bytes_def Let_def split: sum.splits prod.splits)
  from policy_init_mirrors [OF _ _ this] assms(1) show "1 \<le> nat (pool_size (pe_config pe))"
    and "mirrors pe (nt_open nt) p (fst (initial (nat (pool_size (pe_config pe))) k))"
    by (simp_all add: ticker_init_def)
qed

text \<open>The counters of the facade, from those of the threads.\<close>

lemma num_slot_id: "num (is_instance \<circ> slot_id iid) xs = length (idle_instances xs)"
  by (induction xs rule: idle_instances.induct) auto

lemma mirrors_counters:
  assumes "reachable n (Suc k) (sh, replicate (Suc k) Ready)" and "mirrors pe others p sh" and "policy_inv pe others p"
    and "\<not> po_closed p"
  shows "instances_created p = length (policy_idle p) + instances_recreated p"
proof -
  have "\<not> sh_pool_closed sh" using assms(2-4) by (simp add: mirrors_def matches_def policy_inv_def)
  from reachable_counts(1) [OF assms(1) this] have "sh_created sh = num is_instance (sh_idle sh) + sh_recreated sh" by simp
  moreover have "sh_idle sh = map (slot_id i_id) (pl_idle (ps_pool (po_state p)))"
    "sh_created sh = instances_created p" "sh_recreated sh = instances_recreated p"
    using assms(2) by (simp_all add: mirrors_def matches_def instances_created_def instances_recreated_def
        pool_instances_created_def pool_instances_recreated_def)
  ultimately show ?thesis by (simp add: num_slot_id policy_idle_def)
qed

lemma client_run:
  assumes "native_wf nt" and "from_wasm_bytes w pt yaml depth config wasm_bytes nt = (Inr (pe, p), nt')"
  shows "\<exists>sh. reachable (nat (pool_size (pe_config pe))) (Suc k) (sh, replicate (Suc k) Ready)
    \<and> mirrors pe (nt_open nt) (fold (policy_step pe) calls p) sh"
    and "\<not> po_closed (fold (policy_step pe) calls p) \<Longrightarrow>
      instances_created (fold (policy_step pe) calls p)
        = length (policy_idle (fold (policy_step pe) calls p)) + instances_recreated (fold (policy_step pe) calls p)"
proof -
  let ?q = "fold (policy_step pe) calls p"
  note m = from_wasm_bytes_mirrors [OF assms]
  have inv: "policy_inv pe (nt_open nt) p" using from_wasm_bytes_inv(3) [OF assms] by simp
  have run: "\<exists>sh. reachable (nat (pool_size (pe_config pe))) (Suc k) (sh, replicate (Suc k) Ready)
      \<and> mirrors pe (nt_open nt) ?q sh" for k
    using calls_mirror [OF m(2) [of k] inv, of k calls] m(1) by (auto simp: reachable_def initial_def)
  then show "\<exists>sh. reachable (nat (pool_size (pe_config pe))) (Suc k) (sh, replicate (Suc k) Ready)
      \<and> mirrors pe (nt_open nt) ?q sh" .
  show "instances_created ?q = length (policy_idle ?q) + instances_recreated ?q" if "\<not> po_closed ?q"
    using run [of 0] mirrors_counters [OF _ _ policy_inv_calls [OF inv] that] by blast
qed

end
