(* ===== verification/Policy_Metadata.thy ===== *)
theory Policy_Metadata
  imports Policy_Data
begin

text \<open>
  The metadata of a policy: what \<open>entrypoints\<close>, \<open>builtins\<close> and \<open>abi_version\<close> of
  \<^verbatim>\<open>opapywasm/policy.py\<close> show is what the guest of the constructor's probe declared.
\<close>

text \<open>
  The mapping \<open>m\<close> is the JSON object that the guest dumped for the value its metadata export
  returned, member by member.
\<close>

definition declared ::
  "'s codec \<Rightarrow> ('s \<Rightarrow> bytes) \<Rightarrow> ('s abi \<Rightarrow> ('s, exc, int) act) \<Rightarrow> (pystr \<times> int) list \<Rightarrow> bool" where
  "declared cd mem export m \<longleftrightarrow> (\<exists>s a s1 str s2 raw. export (cd_abi cd) s = (Inr a, s1)
     \<and> opa_json_dump (cd_abi cd) a s1 = (Inr str, s2)
     \<and> cstring_at (mem s2) str (cd_max_cstring_scan_bytes cd) = Some raw
     \<and> int (length raw) \<le> cd_max_result_bytes cd
     \<and> json_loads_bytes (cd_float cd) raw = Inr (PDict (map (\<lambda>(name, ident). (PStr name, PInt ident)) m)))"

lemma decode_str_int_map_Inr:
  assumes "memory_ok (ab_wasm (cd_abi cd)) mem" and "bnd (export (cd_abi cd)) (decode_str_int_map cd) s = (Inr m, t)"
  shows "declared cd mem export m"
proof -
  obtain a s1 str s2 v where e: "export (cd_abi cd) s = (Inr a, s1)" and d: "opa_json_dump (cd_abi cd) a s1 = (Inr str, s2)"
    and r: "read_json_cstring cd str None s2 = (Inr v, t)"
    and v: "(case v of PDict kvs \<Rightarrow> str_int_items kvs | _ \<Rightarrow> Inl (memory_error ''metadata did not decode to an object'')) = Inr m"
    using assms(2) unfolding decode_str_int_map_def opa_value_to_python_def
    by (auto simp: check_pointer_run of_result_run elim!: bnd_InrE split: if_splits)
  have "read_json_cstring cd str (Some (cd_max_result_bytes cd)) s2 = (Inr v, t)"
    using r by (simp add: read_json_cstring_def)
  then obtain raw where "cstring_at (mem s2) str (cd_max_cstring_scan_bytes cd) = Some raw"
    "int (length raw) \<le> cd_max_result_bytes cd" "json_loads_bytes (cd_float cd) raw = Inr v"
    using read_json_cstring_Inr [OF assms(1)] by metis
  moreover have "v = PDict (map (\<lambda>(name, ident). (PStr name, PInt ident)) m)"
    using v by (auto simp: str_int_items_Inr split: pyval.splits)
  ultimately show ?thesis unfolding declared_def using e d by blast
qed

text \<open>A JSON object has each name once.\<close>

lemma declared_distinct:
  assumes "declared cd mem export m"
  shows "distinct (map fst m)"
proof -
  obtain raw where "json_loads_bytes (cd_float cd) raw = Inr (PDict (map (\<lambda>(name, ident). (PStr name, PInt ident)) m))"
    using assms unfolding declared_def by blast
  then have "loaded (PDict (map (\<lambda>(name, ident). (PStr name, PInt ident)) m))"
    using loads_bytes_loaded by metis
  then have "distinct (map PStr (map fst m))" by (simp add: comp_def case_prod_beta')
  then show ?thesis by (rule distinct_map [THEN iffD1, THEN conjunct1])
qed

definition metadata_of :: "'s penv \<Rightarrow> ('s \<Rightarrow> bytes) \<Rightarrow> 's policy \<Rightarrow> bool" where
  "metadata_of pe mem p \<longleftrightarrow> (\<exists>cd. ab_wasm (cd_abi cd) = pe_wasm pe \<and> callable (cd_abi cd)
     \<and> cd_float cd = pt_float (pe_text pe) \<and> ab_version (cd_abi cd) = policy_abi_version p
     \<and> declared cd mem abi_entrypoints (policy_entrypoints p) \<and> declared cd mem abi_builtins (policy_builtins p))"

lemma run_probe_metadata:
  assumes "memory_ok (pe_wasm pe) mem" and "run_probe pe w0 = (Inr (eps, bs, ver), w')"
  shows "\<exists>cd. ab_wasm (cd_abi cd) = pe_wasm pe \<and> callable (cd_abi cd) \<and> cd_float cd = pt_float (pe_text pe)
    \<and> ab_version (cd_abi cd) = ver \<and> declared cd mem abi_entrypoints eps \<and> declared cd mem abi_builtins bs"
proof -
  obtain i w i' where b: "build_instance pe w0 = (Inr i, w)" and m: "probe_metadata (inst_env pe w) i = (Inr (eps, bs), i')"
    and ver: "ver = ab_version (i_abi i')"
    using assms(2) by (auto simp: run_probe_def rbind_eq_Inr split: sum.splits prod.splits)
  have c: "carries_document pe mem (data_snapshot w0) i"
    using policy_carried [OF assms(1), of PNone 0] b unfolding carried_def callbacks_simps by blast
  let ?cd = "inst_codec (inst_env pe w)"
  obtain i1 where e: "inst_entrypoints (inst_env pe w) i = (Inr eps, i1)" and bi: "inst_builtins (inst_env pe w) i1 = (Inr bs, i')"
    using m unfolding probe_metadata_def by (auto simp: ret_run elim!: bnd_InrE)
  have same: "?cd i1 = ?cd i" "i_abi i' = i_abi i"
    using e bi by (auto simp: inst_entrypoints_def inst_builtins_def on_store_def zoom_run inst_codec_def split: prod.splits)
  have wasm: "ab_wasm (cd_abi (?cd i)) = pe_wasm pe" "callable (cd_abi (?cd i))" "ab_version (cd_abi (?cd i)) = ver"
    using c same ver by (auto simp: carries_document_def inst_codec_def mk_codec_def callable_def)
  have ok: "memory_ok (ab_wasm (cd_abi (?cd i))) mem" using assms(1) wasm(1) by simp
  have "declared (?cd i) mem abi_entrypoints eps"
    using e decode_str_int_map_Inr [OF ok, of abi_entrypoints]
    by (auto simp: inst_entrypoints_def on_store_def zoom_run decode_entrypoints_def split: prod.splits)
  moreover have "declared (?cd i) mem abi_builtins bs"
    using bi decode_str_int_map_Inr [OF ok, of abi_builtins] unfolding inst_builtins_def same(1)
    by (auto simp: on_store_def zoom_run decode_builtins_def split: prod.splits)
  moreover have "cd_float (?cd i) = pt_float (pe_text pe)" by (simp add: inst_codec_def mk_codec_def inst_env_def)
  ultimately show ?thesis using wasm by blast
qed

lemma from_wasm_bytes_metadata:
  assumes "memory_ok w mem" and "from_wasm_bytes w pt yaml depth config wasm_bytes nt = (Inr (pe, p), nt')"
  shows "metadata_of pe mem p"
proof -
  have "memory_ok (pe_wasm pe) mem" using assms(1) documents_from_wasm_bytes(2) [OF assms(2)] by simp
  note probe = run_probe_metadata [OF this]
  obtain w0 eps bs ver w' where "run_probe pe w0 = (Inr (eps, bs, ver), w')" "po_entrypoints p = eps" "po_builtins p = bs"
    "po_abi_version p = ver"
    using assms(2) by (auto simp: from_wasm_bytes_def policy_init_def Let_def split: sum.splits prod.splits)
  from probe [OF this(1)] this(2-4) show ?thesis
    by (simp add: metadata_of_def policy_entrypoints_def policy_builtins_def policy_abi_version_def)
qed

lemma metadata_calls: "metadata_of pe mem p \<Longrightarrow> metadata_of pe mem (fold (policy_step pe) calls p)"
  by (simp add: metadata_of_def policy_entrypoints_def policy_builtins_def policy_abi_version_def calls_metadata)

section \<open>Resolution\<close>

lemma resolve_entrypoint_spec:
  "resolve_entrypoint c eps entry = Inr i \<longleftrightarrow>
     (case (case entry of Some e \<Rightarrow> Some e | None \<Rightarrow> default_entrypoint c) of
        None \<Rightarrow> i = 0 \<and> 0 \<in> snd ` set eps
      | Some (EpInt n) \<Rightarrow> i = n \<and> n \<in> snd ` set eps
      | Some (EpStr s) \<Rightarrow> map_of eps s = Some i
      | Some (EpBool b) \<Rightarrow> False)"
  by (auto simp: resolve_entrypoint_def Let_def split: entrypoint.splits option.splits if_splits
      intro: rev_image_eqI)

end
