(* ===== verification/Fixtures.thy ===== *)
theory Fixtures
  imports Json_Accept "HOL-Library.List_Lexorder"
begin

text \<open>
  \<^verbatim>\<open>scripts/build_fixtures.py\<close>, the development script that compiles the Rego sources of the
  test-suite with the OPA command line tool. The tool, the environment, the temporary directory and
  the tar reader are parameters (\<open>fixture_env\<close>); the file system is a map from paths to contents.
  What the script prints and the commands it runs are kept in its state.
\<close>

section \<open>State and parameters\<close>

type_synonym files = "pystr \<Rightarrow> bytes option"

record build_state =
  bs_files :: files
  bs_wasm_dir :: bool
  bs_printed :: "pystr list"
  bs_runs :: "pystr list list"

text \<open>
  \<open>fe_run\<close> is \<open>subprocess.run(cmd, check=True)\<close>: what the command printed, or the
  \<open>CalledProcessError\<close>, and the files it left. \<open>fe_members\<close> lists the names in a compressed tar
  file with what \<open>extractfile\<close> gives for each.
\<close>

record fixture_env =
  fe_root :: pystr
  fe_opa_var :: "pystr option"
  fe_which :: "pystr \<Rightarrow> pystr option"
  fe_run :: "pystr list \<Rightarrow> files \<Rightarrow> (exc + pystr) \<times> files"
  fe_tmp :: "files \<Rightarrow> pystr"
  fe_members :: "bytes \<Rightarrow> exc + (pystr \<times> bytes option) list"
  fe_float :: float_text

type_synonym 'a script = "(build_state, exc, 'a) act"

definition SystemExit :: "string \<Rightarrow> exc" where
  "SystemExit t = new_exc (OtherBaseException ''SystemExit'') t"

definition path_join :: "pystr \<Rightarrow> pystr \<Rightarrow> pystr" where
  "path_join d n = d @ 47 # n"

definition REGO_DIR :: "fixture_env \<Rightarrow> pystr" where
  "REGO_DIR fe = path_join (fe_root fe) (ustr ''tests/fixtures/rego'')"

definition WASM_DIR :: "fixture_env \<Rightarrow> pystr" where
  "WASM_DIR fe = path_join (fe_root fe) (ustr ''tests/fixtures/wasm'')"

definition rego_path :: "fixture_env \<Rightarrow> pystr \<Rightarrow> pystr" where
  "rego_path fe stem = path_join (REGO_DIR fe) (stem @ ustr ''.rego'')"

definition wasm_name :: "pystr \<Rightarrow> pystr" where
  "wasm_name stem = path_join (ustr ''tests/fixtures/wasm'') (stem @ ustr ''.wasm'')"

definition wasm_path :: "fixture_env \<Rightarrow> pystr \<Rightarrow> pystr" where
  "wasm_path fe stem = path_join (WASM_DIR fe) (stem @ ustr ''.wasm'')"

definition FIXTURE_ENTRYPOINTS :: "(pystr \<times> pystr list) list" where
  "FIXTURE_ENTRYPOINTS = map (\<lambda>(stem, eps). (ustr stem, map ustr eps))
    [(''allow_true'', [''authz/allow'']),
     (''allow_false'', [''authz/allow'']),
     (''input_based'', [''authz/allow'']),
     (''data_based'', [''authz/allow'']),
     (''multi_entrypoint'', [''authz/allow'', ''authz/deny'', ''authz/roles'']),
     (''return_object'', [''authz/result'']),
     (''return_array'', [''authz/items'']),
     (''return_scalar'', [''authz/message'']),
     (''undefined_result'', [''authz/allow'']),
     (''null_result'', [''authz/result'']),
     (''slow_loop'', [''authz/result'']),
     (''default_builtins'', [''authz/result'']),
     (''unsupported_builtin'', [''authz/result'']),
     (''custom_builtin'', [''authz/result''])]"

definition CUSTOM_BUILTIN_FIXTURES :: "(pystr \<times> pystr) list" where
  "CUSTOM_BUILTIN_FIXTURES = [(ustr ''custom_builtin'', ustr ''my.custom_builtin'')]"

section \<open>Steps\<close>

definition say :: "pystr \<Rightarrow> unit script" where
  "say line = updating (\<lambda>st. st\<lparr>bs_printed := bs_printed st @ [line]\<rparr>)"

definition write_file :: "pystr \<Rightarrow> bytes \<Rightarrow> unit script" where
  "write_file p b = updating (\<lambda>st. st\<lparr>bs_files := (bs_files st)(p \<mapsto> b)\<rparr>)"

definition run_cmd :: "fixture_env \<Rightarrow> pystr list \<Rightarrow> pystr script" where
  "run_cmd fe cmd st = (case fe_run fe cmd (bs_files st) of
     (r, fs) \<Rightarrow> (r, st\<lparr>bs_files := fs, bs_runs := bs_runs st @ [cmd]\<rparr>))"

text \<open>\<open>with tempfile.TemporaryDirectory()\<close>: what is in the directory goes when the body is left.\<close>

definition in_tempdir :: "fixture_env \<Rightarrow> (pystr \<Rightarrow> 'a script) \<Rightarrow> 'a script" where
  "in_tempdir fe body st = (let tmp = fe_tmp fe (bs_files st) in
     case body tmp st of (r, st') \<Rightarrow>
       (r, st'\<lparr>bs_files := (\<lambda>p. if prefix (path_join tmp []) p then None else bs_files st' p)\<rparr>))"

section \<open>The OPA command\<close>

definition opa_bin :: "fixture_env \<Rightarrow> exc + pystr" where
  "opa_bin fe = (case fe_which fe (case fe_opa_var fe of None \<Rightarrow> ustr ''opa'' | Some v \<Rightarrow> v) of
     None \<Rightarrow> Inl (SystemExit ''OPA CLI not found'') | Some resolved \<Rightarrow> Inr resolved)"

text \<open>\<open>str.strip\<close> and \<open>splitlines()[0]\<close>: the code points of \<open>isspace\<close> and of the line boundaries.\<close>

definition is_space :: "nat \<Rightarrow> bool" where
  "is_space c \<longleftrightarrow> 9 \<le> c \<and> c \<le> 13 \<or> 28 \<le> c \<and> c \<le> 32 \<or> c \<in> {133, 160, 5760, 8232, 8233, 8239, 8287, 12288}
     \<or> 8192 \<le> c \<and> c \<le> 8202"

definition is_line_end :: "nat \<Rightarrow> bool" where
  "is_line_end c \<longleftrightarrow> 10 \<le> c \<and> c \<le> 13 \<or> 28 \<le> c \<and> c \<le> 30 \<or> c \<in> {133, 8232, 8233}"

definition strip :: "pystr \<Rightarrow> pystr" where
  "strip s = rev (dropWhile is_space (rev (dropWhile is_space s)))"

definition first_line :: "pystr \<Rightarrow> exc + pystr" where
  "first_line s = (if s = [] then Inl (new_exc (OtherException ''IndexError'') ''list index out of range'')
     else Inr (takeWhile (\<lambda>c. \<not> is_line_end c) s))"

definition opa_version :: "fixture_env \<Rightarrow> pystr \<Rightarrow> pystr script" where
  "opa_version fe opa = bnd (run_cmd fe [opa, ustr ''version'']) (\<lambda>out.
     if out \<noteq> [] then of_result (first_line (strip out)) else ret (ustr ''unknown''))"

definition builtin_decl :: "pystr \<Rightarrow> pyval" where
  "builtin_decl name = (let key = (\<lambda>k. PStr (ustr k)) in PDict
     [(key ''name'', PStr name),
      (key ''description'', PStr (ustr ''Test-only custom host builtin ('' @ name @ ustr '').'')),
      (key ''decl'', PDict
         [(key ''type'', key ''function''),
          (key ''args'', PList [PDict [(key ''type'', key ''any''), (key ''name'', key ''value'')]]),
          (key ''result'', PDict [(key ''type'', key ''any''), (key ''name'', key ''result'')])])])"

text \<open>\<open>caps.setdefault("builtins", []).append(decl)\<close>.\<close>

definition append_builtin :: "pyval \<Rightarrow> pyval \<Rightarrow> exc + pyval" where
  "append_builtin caps decl = (let k = PStr (ustr ''builtins'');
       no_attr = new_exc (OtherException ''AttributeError'') ''object has no such attribute'' in
     case caps of
       PDict kvs \<Rightarrow> (case (case map_of kvs k of None \<Rightarrow> PList [] | Some v \<Rightarrow> v) of
           PList xs \<Rightarrow> Inr (PDict (dict_set k (PList (xs @ [decl])) kvs))
         | _ \<Rightarrow> Inl no_attr)
     | _ \<Rightarrow> Inl no_attr)"

definition write_custom_capabilities :: "fixture_env \<Rightarrow> pystr \<Rightarrow> pystr \<Rightarrow> pystr \<Rightarrow> pystr script" where
  "write_custom_capabilities fe opa builtin_name dest =
     bnd (run_cmd fe [opa, ustr ''capabilities'', ustr ''--current'']) (\<lambda>caps_json.
     bnd (of_result (json_loads_str (fe_float fe) caps_json)) (\<lambda>caps.
     bnd (of_result (append_builtin caps (builtin_decl builtin_name))) (\<lambda>caps'.
     bnd (of_result (rbind (json_dumps (fe_float fe) spaced caps') utf8_encode)) (\<lambda>text.
     bnd (write_file dest text) (\<lambda>_. ret dest)))))"

section \<open>Building\<close>

definition build_command :: "pystr \<Rightarrow> pystr list \<Rightarrow> pystr option \<Rightarrow> pystr \<Rightarrow> pystr \<Rightarrow> pystr list" where
  "build_command opa entrypoints caps tarball rego =
     [opa, ustr ''build'', ustr ''-t'', ustr ''wasm'']
     @ concat (map (\<lambda>ep. [ustr ''-e'', ep]) entrypoints)
     @ (case caps of None \<Rightarrow> [] | Some c \<Rightarrow> [ustr ''--capabilities'', c])
     @ [ustr ''-o'', tarball, rego]"

text \<open>The first member that is named so, and its bytes.\<close>

definition policy_member :: "(pystr \<times> bytes option) list \<Rightarrow> exc + bytes" where
  "policy_member members = (case find (\<lambda>m. suffix (ustr ''policy.wasm'') (fst m)) members of
     None \<Rightarrow> Inl (SystemExit ''bundle did not contain policy.wasm'')
   | Some (_, None) \<Rightarrow> Inl (new_exc (OtherException ''AssertionError'') [])
   | Some (_, Some content) \<Rightarrow> Inr content)"

definition read_bundle :: "fixture_env \<Rightarrow> pystr \<Rightarrow> files \<Rightarrow> exc + bytes" where
  "read_bundle fe tarball fs = (case fs tarball of
     None \<Rightarrow> Inl (new_exc (OtherException ''FileNotFoundError'') [])
   | Some b \<Rightarrow> rbind (fe_members fe b) policy_member)"

definition compile_in :: "fixture_env \<Rightarrow> pystr \<Rightarrow> pystr \<Rightarrow> pystr list \<Rightarrow> pystr \<Rightarrow> unit script" where
  "compile_in fe opa stem entrypoints tmp =
     (let tarball = path_join tmp (ustr ''bundle.tar.gz'') in
      bnd (case map_of CUSTOM_BUILTIN_FIXTURES stem of
             None \<Rightarrow> ret None
           | Some b \<Rightarrow> bnd (write_custom_capabilities fe opa b (path_join tmp (ustr ''capabilities.json'')))
               (\<lambda>caps. ret (Some caps))) (\<lambda>caps.
      bnd (run_cmd fe (build_command opa entrypoints caps tarball (rego_path fe stem))) (\<lambda>_.
      bnd (reading bs_files) (\<lambda>fs.
      bnd (of_result (read_bundle fe tarball fs)) (write_file (wasm_path fe stem))))))"

definition pad20 :: "pystr \<Rightarrow> pystr" where
  "pad20 s = s @ replicate (20 - length s) 32"

definition build_one :: "fixture_env \<Rightarrow> pystr \<Rightarrow> pystr \<Rightarrow> pystr script" where
  "build_one fe opa stem =
     bnd (reading bs_files) (\<lambda>fs.
     bnd (raise_if (fs (rego_path fe stem) = None) (SystemExit ''no such rego source'')) (\<lambda>_.
     bnd (of_result (case map_of FIXTURE_ENTRYPOINTS stem of
            None \<Rightarrow> Inl (new_exc (OtherException ''KeyError'') []) | Some eps \<Rightarrow> Inr eps)) (\<lambda>entrypoints.
     bnd (updating (\<lambda>st. st\<lparr>bs_wasm_dir := True\<rparr>)) (\<lambda>_.
     bnd (in_tempdir fe (compile_in fe opa stem entrypoints)) (\<lambda>_.
     bnd (reading bs_files) (\<lambda>fs'.
     bnd (of_result (case fs' (wasm_path fe stem) of
            None \<Rightarrow> Inl (new_exc (OtherException ''FileNotFoundError'') []) | Some b \<Rightarrow> Inr (length b))) (\<lambda>size.
     bnd (say (ustr ''  '' @ pad20 stem @ ustr '' -> '' @ wasm_name stem @ ustr '' ('' @ int_repr (int size) @ ustr '' bytes)'')) (\<lambda>_.
     ret (wasm_path fe stem)))))))))"

fun build_all :: "fixture_env \<Rightarrow> pystr \<Rightarrow> pystr list \<Rightarrow> unit script" where
  "build_all fe opa [] = ret ()"
| "build_all fe opa (stem # stems) = bnd (build_one fe opa stem) (\<lambda>_. build_all fe opa stems)"

definition requested :: "pystr list \<Rightarrow> pystr list" where
  "requested argv = (if 1 < length argv then tl argv else sort (map fst FIXTURE_ENTRYPOINTS))"

definition script_main :: "fixture_env \<Rightarrow> pystr list \<Rightarrow> int script" where
  "script_main fe argv =
     bnd (of_result (opa_bin fe)) (\<lambda>opa.
     bnd (opa_version fe opa) (\<lambda>version.
     bnd (say (ustr ''Using '' @ opa @ ustr '' ('' @ version @ ustr '')'')) (\<lambda>_.
     (let stems = requested argv;
          unknown = filter (\<lambda>s. map_of FIXTURE_ENTRYPOINTS s = None) stems in
      bnd (raise_if (unknown \<noteq> []) (SystemExit ''unknown fixture(s)'')) (\<lambda>_.
      bnd (say (ustr ''Building '' @ int_repr (int (length stems)) @ ustr '' fixture(s) into tests/fixtures/wasm:'')) (\<lambda>_.
      bnd (build_all fe opa stems) (\<lambda>_.
      bnd (say (ustr ''Done. Remember to commit the generated .wasm files.'')) (\<lambda>_. ret 0))))))))"

section \<open>What the script relies on\<close>

text \<open>
  The OPA tool writes no file but the bundle it is told to write, and a temporary directory is new:
  nothing is in it, and the directory of the modules, which exists by then, is not.
\<close>

definition opa_writes :: "fixture_env \<Rightarrow> pystr \<Rightarrow> bool" where
  "opa_writes fe opa \<longleftrightarrow>
     (\<forall>args fs r fs'. args = [ustr ''version''] \<or> args = [ustr ''capabilities'', ustr ''--current''] \<longrightarrow>
        fe_run fe (opa # args) fs = (r, fs') \<longrightarrow> fs' = fs)
   \<and> (\<forall>stem eps caps tarball fs r fs'. (stem, eps) \<in> set FIXTURE_ENTRYPOINTS \<longrightarrow>
        fe_run fe (build_command opa eps caps tarball (rego_path fe stem)) fs = (r, fs') \<longrightarrow>
        (\<forall>p. p \<noteq> tarball \<longrightarrow> fs' p = fs p))"

definition in_dir :: "pystr \<Rightarrow> pystr \<Rightarrow> bool" where
  "in_dir d p \<longleftrightarrow> prefix (path_join d []) p"

definition tmp_new :: "fixture_env \<Rightarrow> bool" where
  "tmp_new fe \<longleftrightarrow> (\<forall>fs p. finite (dom fs) \<longrightarrow> in_dir (fe_tmp fe fs) p \<longrightarrow>
     fs p = None \<and> (\<forall>stem. p \<noteq> wasm_path fe stem))"

lemma in_dir_join [simp]: "in_dir d (path_join d n)"
  by (simp add: in_dir_def path_join_def)

section \<open>What is built\<close>

definition declares :: "pyval \<Rightarrow> pyval \<Rightarrow> bool" where
  "declares caps decl \<longleftrightarrow> (\<exists>kvs xs. caps = PDict kvs \<and> map_of kvs (PStr (ustr ''builtins'')) = Some (PList (xs @ [decl])))"

text \<open>The capabilities a fixture is compiled with: a file only for a custom builtin, which it declares.\<close>

definition right_capabilities :: "fixture_env \<Rightarrow> pystr \<Rightarrow> files \<Rightarrow> pystr option \<Rightarrow> bool" where
  "right_capabilities fe stem fs caps \<longleftrightarrow> (case map_of CUSTOM_BUILTIN_FIXTURES stem of
       None \<Rightarrow> caps = None
     | Some b \<Rightarrow> \<exists>c v text. caps = Some c \<and> declares v (builtin_decl b) \<and> fs c = Some text
         \<and> rbind (json_dumps (fe_float fe) spaced v) utf8_encode = Inr text)"

text \<open>
  \<open>content\<close> is the \<open>policy.wasm\<close> of a bundle that the tool built from the source \<open>src\<close> with all
  the entrypoints of the fixture.
\<close>

definition compiled :: "fixture_env \<Rightarrow> pystr \<Rightarrow> pystr \<Rightarrow> bytes \<Rightarrow> bytes \<Rightarrow> bool" where
  "compiled fe opa stem src content \<longleftrightarrow> (\<exists>eps caps tarball fs out fs'.
     map_of FIXTURE_ENTRYPOINTS stem = Some eps \<and> right_capabilities fe stem fs caps
     \<and> fs (rego_path fe stem) = Some src
     \<and> fe_run fe (build_command opa eps caps tarball (rego_path fe stem)) fs = (Inr out, fs')
     \<and> read_bundle fe tarball fs' = Inr content)"

lemma map_of_dict_set: "map_of (dict_set k v kvs) k = Some v"
  by (induction kvs) auto

lemma append_builtin_declares: "append_builtin caps decl = Inr caps' \<Longrightarrow> declares caps' decl"
  by (auto simp: append_builtin_def declares_def Let_def map_of_dict_set split: pyval.splits option.splits)

lemma run_cmd_Inr:
  "run_cmd fe cmd st = (Inr out, st') \<longleftrightarrow>
     (\<exists>fs. fe_run fe cmd (bs_files st) = (Inr out, fs) \<and> st' = st\<lparr>bs_files := fs, bs_runs := bs_runs st @ [cmd]\<rparr>)"
  by (auto simp: run_cmd_def split: prod.splits)

lemma write_custom_capabilities_spec:
  assumes "opa_writes fe opa" and "write_custom_capabilities fe opa b dest st = (Inr d, st')"
  shows "d = dest" and "\<exists>v text. declares v (builtin_decl b) \<and> rbind (json_dumps (fe_float fe) spaced v) utf8_encode = Inr text
    \<and> bs_files st' = (bs_files st)(dest \<mapsto> text)"
proof -
  obtain out st1 v v' enc where r: "run_cmd fe [opa, ustr ''capabilities'', ustr ''--current''] st = (Inr out, st1)"
    and a: "append_builtin v (builtin_decl b) = Inr v'"
    and e: "rbind (json_dumps (fe_float fe) spaced v') utf8_encode = Inr enc"
    and d: "d = dest" "st' = st1\<lparr>bs_files := (bs_files st1)(dest \<mapsto> enc)\<rparr>"
    using assms(2) unfolding write_custom_capabilities_def
    by (auto simp: ret_run of_result_run write_file_def updating_run elim!: bnd_InrE)
  have "bs_files st1 = bs_files st" using r assms(1) by (auto simp: run_cmd_Inr opa_writes_def)
  then show "d = dest" "\<exists>v text. declares v (builtin_decl b) \<and> rbind (json_dumps (fe_float fe) spaced v) utf8_encode = Inr text
    \<and> bs_files st' = (bs_files st)(dest \<mapsto> text)"
    using d e append_builtin_declares [OF a] by auto
qed

text \<open>The capabilities step changes nothing outside the temporary directory.\<close>

lemma capabilities_step:
  assumes "opa_writes fe opa"
    and "(case map_of CUSTOM_BUILTIN_FIXTURES stem of
             None \<Rightarrow> ret None
           | Some b \<Rightarrow> bnd (write_custom_capabilities fe opa b (path_join tmp (ustr ''capabilities.json'')))
               (\<lambda>caps. ret (Some caps))) st = (Inr caps, st1)"
  shows "right_capabilities fe stem (bs_files st1) caps" and "\<not> in_dir tmp p \<Longrightarrow> bs_files st1 p = bs_files st p"
proof -
  have "right_capabilities fe stem (bs_files st1) caps \<and> (\<forall>p. \<not> in_dir tmp p \<longrightarrow> bs_files st1 p = bs_files st p)"
  proof (cases "map_of CUSTOM_BUILTIN_FIXTURES stem")
    case None
    then show ?thesis using assms(2) by (simp add: right_capabilities_def ret_run)
  next
    case (Some b)
    then obtain c where c: "write_custom_capabilities fe opa b (path_join tmp (ustr ''capabilities.json'')) st = (Inr c, st1)"
      "caps = Some c"
      using assms(2) by (auto simp: ret_run elim!: bnd_InrE)
    from write_custom_capabilities_spec [OF assms(1) c(1)] show ?thesis using Some c(2)
      by (auto simp: right_capabilities_def)
  qed
  then show "right_capabilities fe stem (bs_files st1) caps" and "\<not> in_dir tmp p \<Longrightarrow> bs_files st1 p = bs_files st p"
    by blast+
qed

lemma compile_in_spec:
  assumes "opa_writes fe opa" and "map_of FIXTURE_ENTRYPOINTS stem = Some eps"
    and "bs_files st (rego_path fe stem) = Some src" and "\<not> in_dir tmp (rego_path fe stem)"
    and "compile_in fe opa stem eps tmp st = (Inr u, st')"
  shows "\<exists>content. compiled fe opa stem src content \<and> bs_files st' (wasm_path fe stem) = Some content
    \<and> (\<forall>p. \<not> in_dir tmp p \<longrightarrow> p \<noteq> wasm_path fe stem \<longrightarrow> bs_files st' p = bs_files st p)"
proof -
  let ?tarball = "path_join tmp (ustr ''bundle.tar.gz'')"
  obtain caps st1 out fs content where c: "(case map_of CUSTOM_BUILTIN_FIXTURES stem of
             None \<Rightarrow> ret None
           | Some b \<Rightarrow> bnd (write_custom_capabilities fe opa b (path_join tmp (ustr ''capabilities.json'')))
               (\<lambda>caps. ret (Some caps))) st = (Inr caps, st1)"
    and r: "fe_run fe (build_command opa eps caps ?tarball (rego_path fe stem)) (bs_files st1) = (Inr out, fs)"
    and b: "read_bundle fe ?tarball fs = Inr content" and f: "bs_files st' = fs(wasm_path fe stem \<mapsto> content)"
    using assms(5) unfolding compile_in_def Let_def
    by (auto simp: run_cmd_Inr of_result_run reading_run write_file_def updating_run elim!: bnd_InrE)
  note s = capabilities_step [OF assms(1) c]
  have "(stem, eps) \<in> set FIXTURE_ENTRYPOINTS" using assms(2) by (rule map_of_SomeD)
  then have w: "fs p = bs_files st1 p" if "p \<noteq> ?tarball" for p using assms(1) r that by (auto simp: opa_writes_def)
  have "bs_files st1 (rego_path fe stem) = Some src" using s(2) [OF assms(4)] assms(3) by simp
  then have "compiled fe opa stem src content"
    unfolding compiled_def using assms(2) s(1) r b by blast
  moreover have "bs_files st' p = bs_files st p" if "\<not> in_dir tmp p" "p \<noteq> wasm_path fe stem" for p
  proof -
    have "p \<noteq> ?tarball" using that(1) in_dir_join by metis
    then show ?thesis using f w [of p] s(2) [OF that(1)] that by simp
  qed
  ultimately show ?thesis using f by auto
qed

lemma wasm_path_inj: "wasm_path fe s = wasm_path fe s' \<longleftrightarrow> s = s'"
  by (simp add: wasm_path_def path_join_def)

lemma rego_not_wasm: "rego_path fe s \<noteq> wasm_path fe s'"
proof
  assume "rego_path fe s = wasm_path fe s'"
  then have "last (rego_path fe s) = last (wasm_path fe s')" by simp
  then show False by (simp add: rego_path_def wasm_path_def path_join_def)
qed

lemma build_one_spec:
  assumes "opa_writes fe opa" and "tmp_new fe" and "finite (dom (bs_files st))"
    and "build_one fe opa stem st = (Inr out, st')"
  shows "\<exists>src content. bs_files st (rego_path fe stem) = Some src \<and> compiled fe opa stem src content
    \<and> bs_files st' = (bs_files st)(wasm_path fe stem \<mapsto> content)"
proof -
  let ?tmp = "fe_tmp fe (bs_files st)"
  have new: "bs_files st p = None" "p \<noteq> wasm_path fe s" if "in_dir ?tmp p" for p s
    using assms(2,3) that by (auto simp: tmp_new_def)
  obtain src eps st1 st2 where src: "bs_files st (rego_path fe stem) = Some src"
    and eps: "map_of FIXTURE_ENTRYPOINTS stem = Some eps"
    and c: "compile_in fe opa stem eps ?tmp (st\<lparr>bs_wasm_dir := True\<rparr>) = (Inr (), st1)"
    and f: "bs_files st' = (\<lambda>p. if in_dir ?tmp p then None else bs_files st1 p)"
    using assms(4) unfolding build_one_def
    by (auto simp: act_simps in_tempdir_def say_def in_dir_def Let_def split: if_splits sum.splits option.splits prod.splits)
  have n: "\<not> in_dir ?tmp (rego_path fe stem)" using new(1) src by auto
  have "bs_files (st\<lparr>bs_wasm_dir := True\<rparr>) (rego_path fe stem) = Some src" using src by simp
  from compile_in_spec [OF assms(1) eps this n c] obtain content where content: "compiled fe opa stem src content"
    "bs_files st1 (wasm_path fe stem) = Some content"
    "\<And>p. \<not> in_dir ?tmp p \<Longrightarrow> p \<noteq> wasm_path fe stem \<Longrightarrow> bs_files st1 p = bs_files st p" by auto
  have "bs_files st' = (bs_files st)(wasm_path fe stem \<mapsto> content)"
    unfolding f using new content(2,3) by (auto simp: fun_eq_iff)
  with src content(1) show ?thesis by blast
qed

lemma build_all_spec:
  assumes "opa_writes fe opa" and "tmp_new fe" and "finite (dom (bs_files st))"
    and "build_all fe opa stems st = (Inr u, st')"
  shows "(\<forall>s \<in> set stems. \<exists>src content. bs_files st (rego_path fe s) = Some src \<and> compiled fe opa s src content
      \<and> bs_files st' (wasm_path fe s) = Some content)
    \<and> (\<forall>p. p \<notin> wasm_path fe ` set stems \<longrightarrow> bs_files st' p = bs_files st p)"
  using assms(3,4)
proof (induction stems arbitrary: st)
  case (Cons s stems)
  obtain out st1 where s: "build_one fe opa s st = (Inr out, st1)" and r: "build_all fe opa stems st1 = (Inr u, st')"
    using Cons.prems(2) by (auto elim!: bnd_InrE)
  from build_one_spec [OF assms(1,2) Cons.prems(1) s] obtain src content where b: "bs_files st (rego_path fe s) = Some src"
    "compiled fe opa s src content" "bs_files st1 = (bs_files st)(wasm_path fe s \<mapsto> content)" by blast
  have "finite (dom (bs_files st1))" using Cons.prems(1) b(3) by simp
  note ih = Cons.IH [OF this r]
  have same: "bs_files st1 (rego_path fe x) = bs_files st (rego_path fe x)" for x using b(3) rego_not_wasm by simp
  have "\<exists>src content. bs_files st (rego_path fe x) = Some src \<and> compiled fe opa x src content
      \<and> bs_files st' (wasm_path fe x) = Some content" if "x \<in> set (s # stems)" for x
  proof (cases "x \<in> set stems")
    case True
    then show ?thesis using ih same by metis
  next
    case False
    then have "x = s" "wasm_path fe x \<notin> wasm_path fe ` set stems" using that by (auto simp: wasm_path_inj)
    then have "bs_files st' (wasm_path fe x) = Some content" using ih b(3) by simp
    then show ?thesis using b \<open>x = s\<close> by blast
  qed
  moreover have "bs_files st' p = bs_files st p" if "p \<notin> wasm_path fe ` set (s # stems)" for p
    using that ih b(3) by auto
  ultimately show ?case by blast
qed (simp add: ret_run)

text \<open>The tool can read the capabilities back, if they hold nothing but JSON.\<close>

lemma capabilities_readable:
  assumes "float_text_ok (fe_float fe)" and "json_value v"
    and "rbind (json_dumps (fe_float fe) spaced v) utf8_encode = Inr enc"
  shows "json_loads_bytes (fe_float fe) enc = Inr v"
  by (rule dumps_loads_bytes [OF assms(1,2) separators_simps(2) ascii_opts_simps(2) assms(3)])

section \<open>The whole script\<close>

lemma opa_version_runs:
  assumes "opa_version fe opa st = (r, st')" and "opa_writes fe opa"
  shows "bs_files st' = bs_files st" and "bs_runs st' = bs_runs st @ [[opa, ustr ''version'']]"
  using assms by (auto simp: opa_version_def run_cmd_def opa_writes_def act_simps split: prod.splits sum.splits if_splits)

text \<open>A tool that prints only blank space ends the script with an \<open>IndexError\<close>.\<close>

lemma opa_version_blank:
  assumes "fe_run fe [opa, ustr ''version''] (bs_files st) = (Inr out, fs)" and "out \<noteq> []" and "list_all is_space out"
  shows "\<exists>e. fst (opa_version fe opa st) = Inl e \<and> exc_class_of e = OtherException ''IndexError''"
proof -
  have "dropWhile is_space out = []" using assms(3) by (simp add: list_all_iff)
  then have "strip out = []" by (simp add: strip_def del: dropWhile_eq_Nil_conv)
  then show ?thesis using assms(1,2)
    by (simp add: opa_version_def run_cmd_def act_simps first_line_def)
qed

section \<open>A run\<close>

text \<open>A tool that writes one byte, and temporary directories with names longer than any in use.\<close>

definition demo_fixture_env :: fixture_env where
  "demo_fixture_env = \<lparr>fe_root = ustr ''/repo'', fe_opa_var = None, fe_which = (\<lambda>n. Some n),
     fe_run = (\<lambda>cmd fs. if cmd ! 1 = ustr ''build'' then (Inr [], fs(cmd ! (length cmd - 2) \<mapsto> [1])) else (Inr (ustr ''1.0''), fs)),
     fe_tmp = (\<lambda>fs. ustr ''/tmp/'' @ replicate (Max (insert 0 (length ` dom fs))) 97),
     fe_members = (\<lambda>tar. Inr [(ustr ''/policy.wasm'', Some [0, 97, 115, 109])]),
     fe_float = \<lparr>float_repr = (\<lambda>_. []), float_of = (\<lambda>_. 0)\<rparr>\<rparr>"

definition demo_files :: build_state where
  "demo_files = \<lparr>bs_files = [rego_path demo_fixture_env (ustr ''allow_true'') \<mapsto> []], bs_wasm_dir = False,
     bs_printed = [], bs_runs = []\<rparr>"

lemma demo_opa_writes: "opa_writes demo_fixture_env opa"
  by (auto simp: opa_writes_def demo_fixture_env_def build_command_def nth_append)

lemma demo_tmp_new: "tmp_new demo_fixture_env"
  unfolding tmp_new_def
proof (intro allI impI conjI)
  fix fs :: files and p
  assume fin: "finite (dom fs)" and d: "in_dir (fe_tmp demo_fixture_env fs) p"
  let ?m = "Max (insert 0 (length ` dom fs))"
  have "?m < length p" using d by (auto simp: in_dir_def path_join_def demo_fixture_env_def dest!: prefix_length_le)
  moreover have "length p \<le> ?m" if "p \<in> dom fs" using that fin by (intro Max_ge) auto
  ultimately show "fs p = None" by (cases "fs p") auto
  show "p \<noteq> wasm_path demo_fixture_env stem" for stem
    using d by (auto simp: in_dir_def path_join_def demo_fixture_env_def wasm_path_def WASM_DIR_def)
qed

lemma demo_script_run:
  "\<exists>st'. script_main demo_fixture_env [ustr ''build_fixtures.py'', ustr ''allow_true''] demo_files = (Inr 0, st')"
proof -
  let ?fe = "demo_fixture_env" and ?s = "ustr ''allow_true''"
  have n: "\<not> prefix (path_join (fe_tmp ?fe fs) []) (wasm_path ?fe ?s)" for fs
    by (auto simp: path_join_def demo_fixture_env_def wasm_path_def WASM_DIR_def)
  have m: "map_of FIXTURE_ENTRYPOINTS ?s = Some [ustr ''authz/allow'']" "map_of CUSTOM_BUILTIN_FIXTURES ?s = None"
    by (simp_all add: FIXTURE_ENTRYPOINTS_def CUSTOM_BUILTIN_FIXTURES_def)
  have r: "run_cmd ?fe (build_command opa eps caps b q) st
      = (Inr [], st\<lparr>bs_files := (bs_files st)(b \<mapsto> [1]), bs_runs := bs_runs st @ [build_command opa eps caps b q]\<rparr>)" for opa eps caps b q st
    by (simp add: run_cmd_def demo_fixture_env_def build_command_def nth_append)
  have p: "rbind (fe_members ?fe [1]) policy_member = Inr [0, 97, 115, 109]"
    by (simp add: demo_fixture_env_def policy_member_def suffix_def)
  have b: "\<exists>st'. build_one ?fe opa ?s st = (Inr (wasm_path ?fe ?s), st')"
    if "bs_files st (rego_path ?fe ?s) = Some src" for opa st src
    using that m n r p by (auto simp: build_one_def act_simps in_tempdir_def compile_in_def Let_def say_def read_bundle_def write_file_def)
  have v: "opa_version ?fe opa st = (Inr (ustr ''1.0''), st\<lparr>bs_runs := bs_runs st @ [[opa, ustr ''version'']]\<rparr>)" for opa st
    by (simp add: opa_version_def run_cmd_def act_simps demo_fixture_env_def strip_def first_line_def is_space_def is_line_end_def)
  let ?st = "demo_files\<lparr>bs_runs := [[ustr ''opa'', ustr ''version'']],
      bs_printed := [ustr ''Using '' @ ustr ''opa'' @ ustr '' ('' @ ustr ''1.0'' @ ustr '')'',
        ustr ''Building '' @ int_repr 1 @ ustr '' fixture(s) into tests/fixtures/wasm:'']\<rparr>"
  have "bs_files ?st (rego_path ?fe ?s) = Some []" by (simp add: demo_files_def)
  from b [OF this, of "ustr ''opa''"] obtain st1 where s: "build_one ?fe (ustr ''opa'') ?s ?st = (Inr (wasm_path ?fe ?s), st1)" ..
  have o: "opa_bin ?fe = Inr (ustr ''opa'')" by (simp add: opa_bin_def demo_fixture_env_def)
  have q: "requested [ustr ''build_fixtures.py'', ?s] = [?s]" by (simp add: requested_def)
  show ?thesis using s m(1) unfolding script_main_def o q
    by (simp add: act_simps v say_def Let_def demo_files_def)
qed

end
