(* ===== verification/Package.thy ===== *)
theory Package
  imports Errors
begin

text \<open>
  \<^verbatim>\<open>opapywasm/__init__.py\<close>: the version string, read from the metadata of the installed package.
  \<open>importlib.metadata\<close> is a parameter: the exception its import raised, or its function \<open>version\<close>.
\<close>

definition PackageNotFoundError :: exc_class where
  "PackageNotFoundError = OtherException ''PackageNotFoundError''"

text \<open>\<open>PackageNotFoundError\<close> is a subclass of \<open>ImportError\<close>.\<close>

definition is_import_error :: "exc_class \<Rightarrow> bool" where
  "is_import_error c \<longleftrightarrow> c \<in> {ImportError, OtherException ''ModuleNotFoundError'', PackageNotFoundError}"

definition unknown_version :: pystr where
  "unknown_version = ustr ''0.0.0+unknown''"

definition package_version :: "exc + (pystr \<Rightarrow> exc + pystr) \<Rightarrow> exc + pystr" where
  "package_version metadata =
     (case rbind metadata (\<lambda>version. case version (ustr ''opa-py-wasm'') of
             Inl e \<Rightarrow> if exc_class_of e = PackageNotFoundError then Inr unknown_version else Inl e
           | Inr v \<Rightarrow> Inr v) of
        Inl e \<Rightarrow> if is_import_error (exc_class_of e) then Inr unknown_version else Inl e
      | Inr v \<Rightarrow> Inr v)"

text \<open>Importing the package fails for no missing module and no missing metadata.\<close>

lemma package_version_found: "version (ustr ''opa-py-wasm'') = Inr v \<Longrightarrow> package_version (Inr version) = Inr v"
  by (simp add: package_version_def)

lemma package_version_raises:
  "package_version metadata = Inl e \<Longrightarrow> \<not> is_import_error (exc_class_of e)"
  by (auto simp: package_version_def is_import_error_def split: sum.splits if_splits)

end
