(* ===== verification/Examples.thy ===== *)
theory Examples
  imports Policy_Metadata Fixtures
begin

text \<open>
  The client programs of \<^verbatim>\<open>src/examples/\<close>: \<^verbatim>\<open>basic_authz.py\<close>, \<^verbatim>\<open>custom_builtin.py\<close> and
  \<^verbatim>\<open>yaml_builtin.py\<close>, each from the package it reads to the lines it prints, and the part of
  \<^verbatim>\<open>pooled_eval.py\<close> that has one thread. A program is an action on its policy and the lines
  printed so far.
\<close>

section \<open>Programs\<close>

record 's session =
  se_policy :: "'s policy"
  se_lines :: "pystr list"

text \<open>
  The world of a program: the interpreter and the packages it uses, \<open>Path.read_bytes\<close>, and the
  directory above that of the program.
\<close>

record 's example_env =
  xe_wasm :: "'s wasm"
  xe_text :: py_text
  xe_yaml :: "yaml_lib option"
  xe_depth :: nat
  xe_read :: "pystr \<Rightarrow> exc + bytes"
  xe_root :: pystr

type_synonym ('s, 'a) program = "('s session, exc, 'a) act"

definition print_line :: "pystr \<Rightarrow> ('s, unit) program" where
  "print_line line = updating (\<lambda>s. s\<lparr>se_lines := se_lines s @ [line]\<rparr>)"

definition on_policy :: "('s policy, exc, 'a) act \<Rightarrow> ('s, 'a) program" where
  "on_policy m = zoom se_policy (\<lambda>p s. s\<lparr>se_policy := p\<rparr>) m"

text \<open>\<open>WASM\<close>: the path of a committed fixture.\<close>

definition fixture_file :: "pystr \<Rightarrow> string \<Rightarrow> pystr" where
  "fixture_file repo name =
     path_join (path_join (path_join (path_join repo (ustr ''tests'')) (ustr ''fixtures'')) (ustr ''wasm'')) (ustr name)"

text \<open>
  Construction of the policy and the rest of the program. The result keeps the session, since
  the programs leave their policy open.
\<close>

definition run_program ::
  "'s example_env \<Rightarrow> policy_config option \<Rightarrow> string \<Rightarrow> ('s penv \<Rightarrow> ('s, unit) program) \<Rightarrow> native
     \<Rightarrow> (exc + unit) \<times> ('s penv \<times> 's session) option" where
  "run_program xe config name body nt =
     (case from_wasm_file (xe_read xe) (xe_wasm xe) (xe_text xe) (xe_yaml xe) (xe_depth xe) config
        (fixture_file (xe_root xe) name) nt of
        (Inl e, nt') \<Rightarrow> (Inl e, None)
      | (Inr (pe, p), nt') \<Rightarrow> (case body pe \<lparr>se_policy = p, se_lines = []\<rparr> of (r, s) \<Rightarrow> (r, Some (pe, s))))"

section \<open>Text and values\<close>

abbreviation text_of :: "string \<Rightarrow> pyval" where
  "text_of s \<equiv> PStr (ustr s)"

text \<open>\<open>str\<close> of a decision: the sentinel is an \<open>Enum\<close>, whose \<open>str\<close> names class and member.\<close>

definition decision_str :: "py_text \<Rightarrow> pyval decision \<Rightarrow> pystr" where
  "decision_str pt d = (case d of UNDEFINED \<Rightarrow> ustr ''Undefined.token'' | Defined v \<Rightarrow> py_str pt v)"

text \<open>The format \<open>{user:6s}\<close>.\<close>

definition pad6 :: "pystr \<Rightarrow> pystr" where
  "pad6 s = s @ replicate (6 - length s) 32"

section \<open>basic_authz.py\<close>

definition roles_document :: pyval where
  "roles_document = PDict [(text_of ''roles'',
     PDict [(text_of ''alice'', text_of ''admin''), (text_of ''bob'', text_of ''viewer'')])]"

definition user_input :: "string \<Rightarrow> pyval" where
  "user_input user = PDict [(text_of ''user'', text_of user)]"

definition authz_config :: "exc + policy_config" where
  "authz_config = make_config (default_config\<lparr>default_entrypoint := Some (EpStr (ustr ''authz/allow''))\<rparr>)"

definition decision_line :: "py_text \<Rightarrow> string \<Rightarrow> pyval decision \<Rightarrow> pystr" where
  "decision_line pt user d = pad6 (ustr user) @ ustr '' -> allow='' @ decision_str pt d"

definition raw_line :: "py_text \<Rightarrow> pyval \<Rightarrow> pystr" where
  "raw_line pt raw = ustr ''raw(alice): '' @ py_str pt raw"

definition show_user :: "'s penv \<Rightarrow> string \<Rightarrow> ('s, unit) program" where
  "show_user pe user = bnd (on_policy (policy_evaluate pe (user_input user) None)) (\<lambda>decision.
     print_line (decision_line (pe_text pe) user decision))"

definition basic_authz_body :: "'s penv \<Rightarrow> ('s, unit) program" where
  "basic_authz_body pe =
     bnd (on_policy (set_data pe roles_document)) (\<lambda>_.
     bnd (map_act (show_user pe) [''alice'', ''bob'', ''carol'']) (\<lambda>_.
     bnd (on_policy (evaluate_raw pe (user_input ''alice'') None)) (\<lambda>raw.
     print_line (raw_line (pe_text pe) raw))))"

definition basic_authz_main :: "'s example_env \<Rightarrow> native \<Rightarrow> (exc + unit) \<times> ('s penv \<times> 's session) option" where
  "basic_authz_main xe nt = (case authz_config of
     Inl e \<Rightarrow> (Inl e, None) | Inr c \<Rightarrow> run_program xe (Some c) ''data_based.wasm'' basic_authz_body nt)"

section \<open>custom_builtin.py\<close>

text \<open>
  \<open>float * 2\<close>, on the bits: a subnormal moves one place to the left (into the normal range at
  the end), a normal number gets the next exponent, and past the largest exponent the product is
  infinite; infinities stay, a not-a-number becomes quiet. Two is a power of the base, so that
  nothing is rounded.
\<close>

definition double_magnitude :: "nat \<Rightarrow> nat" where
  "double_magnitude m =
     (if m < 2 ^ 52 then 2 * m
      else if m < 2046 * 2 ^ 52 then m + 2 ^ 52
      else if m \<le> 2047 * 2 ^ 52 then 2047 * 2 ^ 52
      else if m < 2047 * 2 ^ 52 + 2 ^ 51 then m + 2 ^ 51 else m)"

definition double_float :: "64 word \<Rightarrow> 64 word" where
  "double_float f = word_of_nat (unat f div 2 ^ 63 * 2 ^ 63 + double_magnitude (unat f mod 2 ^ 63))"

definition doubled :: "pyval \<Rightarrow> pyval \<Rightarrow> pyval" where
  "doubled twice value = PDict [(text_of ''doubled'', twice), (text_of ''original'', value)]"

text \<open>A bool is an int, and doubles to one.\<close>

definition double_it :: "pyval \<Rightarrow> exc + pyval" where
  "double_it value = Inr (case value of
       PBool b \<Rightarrow> doubled (PInt (of_bool b * 2)) value
     | PInt i \<Rightarrow> doubled (PInt (i * 2)) value
     | PFloat f \<Rightarrow> doubled (PFloat (double_float f)) value
     | _ \<Rightarrow> PDict [(text_of ''error'', text_of ''expected a number'')])"

text \<open>The \<open>str\<close> of a dict of ids, and of a list of names.\<close>

definition ids_str :: "py_text \<Rightarrow> (pystr \<times> int) list \<Rightarrow> pystr" where
  "ids_str pt m = py_str pt (PDict (map (\<lambda>(name, ident). (PStr name, PInt ident)) m))"

definition names_str :: "py_text \<Rightarrow> pystr list \<Rightarrow> pystr" where
  "names_str pt ns = py_str pt (PList (map PStr ns))"

definition custom_builtin_body :: "'s penv \<Rightarrow> ('s, unit) program" where
  "custom_builtin_body pe =
     bnd (reading (policy_builtins \<circ> se_policy)) (\<lambda>required.
     bnd (print_line (ustr ''required builtins: '' @ ids_str (pe_text pe) required)) (\<lambda>_.
     bnd (on_policy (register_builtin (ustr ''my.custom_builtin'') (Some (arity1 double_it)) True)) (\<lambda>_.
     bnd (reading (registered_builtins \<circ> se_policy)) (\<lambda>registered.
     bnd (print_line (ustr ''registered builtins: '' @ names_str (pe_text pe) registered)) (\<lambda>_.
     bnd (on_policy (policy_evaluate pe (PDict [(text_of ''value'', PInt 21)]) None)) (\<lambda>decision.
     print_line (ustr ''result: '' @ decision_str (pe_text pe) decision)))))))"

definition custom_builtin_main :: "'s example_env \<Rightarrow> native \<Rightarrow> (exc + unit) \<times> ('s penv \<times> 's session) option" where
  "custom_builtin_main xe nt = run_program xe None ''custom_builtin.wasm'' custom_builtin_body nt"

section \<open>yaml_builtin.py\<close>

definition hello_input :: pyval where
  "hello_input = PDict [(text_of ''name'', text_of ''world''),
     (text_of ''doc'', PStr (ustr ''a: 1'' @ 10 # ustr ''b: [2, 3]''))]"

text \<open>\<open>result[key]\<close> on a dictionary, and the line that shows it.\<close>

definition dict_item :: "(pyval \<times> pyval) list \<Rightarrow> string \<Rightarrow> exc + pyval" where
  "dict_item kvs key = (case map_of kvs (text_of key) of
     None \<Rightarrow> Inl (new_exc (OtherException ''KeyError'') key) | Some v \<Rightarrow> Inr v)"

definition show_member :: "py_text \<Rightarrow> (pyval \<times> pyval) list \<Rightarrow> string \<times> string \<Rightarrow> ('s, unit) program" where
  "show_member pt kvs = (\<lambda>(label, key). bnd (of_result (dict_item kvs key)) (\<lambda>v. print_line (ustr label @ py_str pt v)))"

definition show_result :: "py_text \<Rightarrow> pyval decision \<Rightarrow> ('s, unit) program" where
  "show_result pt result = (case result of
       Defined (PDict kvs) \<Rightarrow> bnd (map_act (show_member pt kvs)
         [(''greeting  : '', ''greeting''), (''valid_yaml: '', ''valid_yaml''), (''valid_json: '', ''valid_json'')]) (\<lambda>_. ret ())
     | _ \<Rightarrow> raise (new_exc (OtherException ''AssertionError'') []))"

definition exc_str :: "exc \<Rightarrow> pystr" where
  "exc_str e = (if exc_root e < length (exc_objs e) then eo_text (exc_objs e ! exc_root e) else [])"

text \<open>The handler returns: only without an exception does the program go on.\<close>

definition unavailable :: "exc \<Rightarrow> ('s, pyval decision option) program" where
  "unavailable e = (if exc_class_of e = OpaBuiltinError
     then bnd (print_line (ustr ''YAML builtin unavailable: '' @ exc_str e)) (\<lambda>_.
          bnd (print_line (ustr ''Install with:  uv add '' @ 39 # ustr ''opa-py-wasm[yaml]'' @ [39])) (\<lambda>_. ret None))
     else raise e)"

definition yaml_builtin_body :: "'s penv \<Rightarrow> ('s, unit) program" where
  "yaml_builtin_body pe =
     bnd (try_except (bnd (on_policy (policy_evaluate pe hello_input None)) (\<lambda>d. ret (Some d))) unavailable)
       (\<lambda>result. case result of None \<Rightarrow> ret () | Some d \<Rightarrow> show_result (pe_text pe) d)"

definition yaml_builtin_main :: "'s example_env \<Rightarrow> native \<Rightarrow> (exc + unit) \<times> ('s penv \<times> 's session) option" where
  "yaml_builtin_main xe nt = run_program xe None ''default_builtins.wasm'' yaml_builtin_body nt"

section \<open>pooled_eval.py\<close>

text \<open>
  What the main thread does before it starts the others, and the call of one of them; their
  interleaving is the subject of theory \<open>Example_Pooled\<close>.
\<close>

definition pooled_config :: "exc + policy_config" where
  "pooled_config = make_config (default_config\<lparr>pool_size := 4, default_entrypoint := Some (EpStr (ustr ''authz/allow''))\<rparr>)"

definition pooled_document :: pyval where
  "pooled_document = PDict [(text_of ''roles'', PDict [(text_of ''alice'', text_of ''admin'')])]"

definition pooled_setup :: "'s example_env \<Rightarrow> native \<Rightarrow> exc + 's penv \<times> 's policy" where
  "pooled_setup xe nt = rbind pooled_config (\<lambda>c.
     case from_wasm_file (xe_read xe) (xe_wasm xe) (xe_text xe) (xe_yaml xe) (xe_depth xe) (Some c)
         (fixture_file (xe_root xe) ''data_based.wasm'') nt of
       (Inl e, nt') \<Rightarrow> Inl e
     | (Inr (pe, p), nt') \<Rightarrow> (case set_data pe pooled_document p of (Inl e, q) \<Rightarrow> Inl e | (Inr _, q) \<Rightarrow> Inr (pe, q)))"

definition worker_input :: "nat \<Rightarrow> pyval" where
  "worker_input tid = user_input (if tid mod 2 = 0 then ''alice'' else ''bob'')"

definition decision_truth :: "pyval decision \<Rightarrow> bool" where
  "decision_truth d = (case d of UNDEFINED \<Rightarrow> False | Defined v \<Rightarrow> py_truthy v)"

definition worker_call :: "'s penv \<Rightarrow> nat \<Rightarrow> ('s policy, exc, bool) act" where
  "worker_call pe tid = bnd (policy_evaluate pe (worker_input tid) None) (\<lambda>d. ret (decision_truth d))"

section \<open>Paths and floats\<close>

text \<open>A program reads the file that the fixture builder writes.\<close>

lemma fixture_file_built: "fixture_file (fe_root fe) (stem @ ''.wasm'') = wasm_path fe (ustr stem)"
  by (simp add: fixture_file_def wasm_path_def WASM_DIR_def path_join_def ustr_def)

text \<open>The value of the magnitude of a finite float.\<close>

definition magnitude_value :: "nat \<Rightarrow> rat" where
  "magnitude_value m = (if m < 2 ^ 52 then of_nat m * 2 powi (- 1074)
     else of_nat (2 ^ 52 + m mod 2 ^ 52) * 2 powi (int (m div 2 ^ 52) - 1075))"

definition float_value :: "64 word \<Rightarrow> rat" where
  "float_value f = (if unat f < 2 ^ 63 then 1 else - 1) * magnitude_value (unat f mod 2 ^ 63)"

lemma double_magnitude_bound: "m < 2 ^ 63 \<Longrightarrow> double_magnitude m < 2 ^ 63"
  by (simp add: double_magnitude_def)

lemma double_float_parts:
  "unat (double_float f) div 2 ^ 63 = unat f div 2 ^ 63"
  "unat (double_float f) mod 2 ^ 63 = double_magnitude (unat f mod 2 ^ 63)"
proof -
  have d: "double_magnitude (unat f mod 2 ^ 63) < 2 ^ 63" by (rule double_magnitude_bound) simp
  have "unat f < 2 ^ LENGTH(64)" by (rule unsigned_less)
  then have "unat f div 2 ^ 63 \<le> 1" by simp
  with d have "unat f div 2 ^ 63 * 2 ^ 63 + double_magnitude (unat f mod 2 ^ 63) < 2 ^ LENGTH(64)" by simp
  then have "unat (double_float f) = unat f div 2 ^ 63 * 2 ^ 63 + double_magnitude (unat f mod 2 ^ 63)"
    unfolding double_float_def by (rule of_nat_inverse [OF refl])
  then show "unat (double_float f) div 2 ^ 63 = unat f div 2 ^ 63"
    "unat (double_float f) mod 2 ^ 63 = double_magnitude (unat f mod 2 ^ 63)"
    using d by simp_all
qed

lemma double_magnitude_value:
  assumes "m < 2046 * 2 ^ 52"
  shows "magnitude_value (double_magnitude m) = 2 * magnitude_value m"
proof (cases "m < 2 ^ 51")
  case True
  then show ?thesis by (simp add: magnitude_value_def double_magnitude_def)
next
  case False
  show ?thesis
  proof (cases "m < 2 ^ 52")
    case True
    have "2 * m div 2 ^ 52 = 1" by (rule div_nat_eqI) (use True False in simp_all)
    moreover from this have "2 ^ 52 + 2 * m mod 2 ^ 52 = 2 * m" by (simp add: modulo_nat_def)
    ultimately have "2 * m div 2 ^ 52 = 1" "2 ^ 52 + 2 * m mod 2 ^ 52 = 2 * m" by blast+
    then show ?thesis using True False by (simp add: magnitude_value_def double_magnitude_def)
  next
    case False
    then have "double_magnitude m = m + 2 ^ 52" using assms by (simp add: double_magnitude_def)
    moreover have "(m + 2 ^ 52) div 2 ^ 52 = m div 2 ^ 52 + 1" "(m + 2 ^ 52) mod 2 ^ 52 = m mod 2 ^ 52" by simp_all
    moreover have "(2 :: rat) powi (int (m div 2 ^ 52 + 1) - 1075) = 2 * 2 powi (int (m div 2 ^ 52) - 1075)"
      using power_int_add_1 [of "2 :: rat" "int (m div 2 ^ 52) - 1075"] by (simp add: algebra_simps)
    ultimately show ?thesis using False by (simp add: magnitude_value_def)
  qed
qed

lemma float_finite_magnitude: "float_finite f \<longleftrightarrow> unat f mod 2 ^ 63 < 2047 * 2 ^ 52"
proof -
  have m: "unat f mod 2 ^ 63 div 2 ^ 52 = unat f div 2 ^ 52 mod 2 ^ 11"
    using div_mult2_eq mod_mult2_eq [of "unat f" "2 ^ 52" "2 ^ 11"] by simp
  have w: "unat f < 18446744073709551616" using unsigned_less [of f] by simp
  have "drop_bit 52 f AND 2047 = take_bit 11 (drop_bit 52 f)"
    by (simp add: take_bit_eq_mask mask_eq_exp_minus_1)
  then have "unat (drop_bit 52 f AND 2047) = unat f div 2 ^ 52 mod 2 ^ 11"
    by (simp only: unsigned_take_bit_eq unsigned_drop_bit_eq) (simp add: drop_bit_eq_div take_bit_eq_mod mod_less [OF w])
  then have "float_finite f \<longleftrightarrow> unat f mod 2 ^ 63 div 2 ^ 52 \<noteq> 2047"
    unfolding float_finite_def m by (simp add: word_unat_eq_iff)
  also have "\<dots> \<longleftrightarrow> unat f mod 2 ^ 63 < 2047 * 2 ^ 52"
  proof -
    have "unat f mod 2 ^ 63 div 2 ^ 52 < 2048" unfolding m by simp
    then have "unat f mod 2 ^ 63 div 2 ^ 52 \<noteq> 2047 \<longleftrightarrow> unat f mod 2 ^ 63 div 2 ^ 52 < 2047" by linarith
    then show ?thesis by (simp add: div_less_iff_less_mult)
  qed
  finally show ?thesis .
qed

text \<open>Doubling is exact unless it overflows.\<close>

lemma double_float_value:
  assumes "float_finite (double_float f)"
  shows "float_value (double_float f) = 2 * float_value f"
proof -
  have m: "double_magnitude (unat f mod 2 ^ 63) < 2047 * 2 ^ 52"
    using assms unfolding float_finite_magnitude double_float_parts(2) .
  then have "unat f mod 2 ^ 63 < 2046 * 2 ^ 52" by (auto simp: double_magnitude_def split: if_splits)
  note v = double_magnitude_value [OF this]
  have "unat (double_float f) < 2 ^ 63 \<longleftrightarrow> unat f < 2 ^ 63"
    using double_float_parts(1) [of f] by (metis div_eq_0_iff power_eq_0_iff zero_neq_numeral)
  then show ?thesis unfolding float_value_def double_float_parts(2) v by simp
qed

end
