(* ===== verification/Example_Outcomes.thy ===== *)
theory Example_Outcomes
  imports Examples
begin

text \<open>
  What the programs of theory \<open>Examples\<close> print: every line with a decision shows what the guest
  answered to that input, on the document the program published, with the builtins it registered.
\<close>

section \<open>A session\<close>

text \<open>What no evaluation changes: the published document, the entrypoints, the registry.\<close>

definition same_view :: "'s policy \<Rightarrow> 's policy \<Rightarrow> bool" where
  "same_view p q \<longleftrightarrow> published_data p = published_data q \<and> policy_entrypoints p = policy_entrypoints q
     \<and> pw_registry (ps_world (po_state p)) = pw_registry (ps_world (po_state q))"

lemma guest_answer_view: "same_view p q \<Longrightarrow> guest_answer pe mem p v ep x \<longleftrightarrow> guest_answer pe mem q v ep x"
  by (simp add: guest_answer_def same_view_def inst_env_def data_snapshot_def published_data_def)

text \<open>The guest answered \<open>x\<close> at the entrypoint that is taken by default; that answer as a decision.\<close>

definition answered :: "'s penv \<Rightarrow> ('s \<Rightarrow> bytes) \<Rightarrow> 's policy \<Rightarrow> pyval \<Rightarrow> pyval \<Rightarrow> bool" where
  "answered pe mem p v x \<longleftrightarrow> (\<exists>ep. resolve_entrypoint (pe_config pe) (policy_entrypoints p) None = Inr ep
     \<and> guest_answer pe mem p v ep x)"

definition decided :: "'s penv \<Rightarrow> ('s \<Rightarrow> bytes) \<Rightarrow> 's policy \<Rightarrow> pyval \<Rightarrow> pyval decision \<Rightarrow> bool" where
  "decided pe mem p v d \<longleftrightarrow> (\<exists>x. answered pe mem p v x \<and> simplify_result (pe_config pe) x = Inr d)"

lemma same_view_answers:
  assumes "same_view p q"
  shows "answered pe mem p v x = answered pe mem q v x" and "decided pe mem p v d = decided pe mem q v d"
  using assms guest_answer_view [OF assms] by (simp_all add: answered_def decided_def same_view_def)

lemma same_view_trans: "same_view p q \<Longrightarrow> same_view q r \<Longrightarrow> same_view p r"
  by (simp add: same_view_def)

definition in_session :: "'s penv \<Rightarrow> ('s \<Rightarrow> bytes) \<Rightarrow> 's policy \<Rightarrow> 's session \<Rightarrow> bool" where
  "in_session pe mem p s \<longleftrightarrow> documents_inv pe mem (se_policy s) \<and> same_view (se_policy s) p"

lemma evaluate_raw_session:
  assumes "working_guest (pe_wasm pe) mem hp" and "in_session pe mem p s"
    and "on_policy (evaluate_raw pe v None) s = (r, s')"
  shows "in_session pe mem p s'" and "se_lines s' = se_lines s" and "r = Inr x \<Longrightarrow> answered pe mem p v x"
proof -
  obtain q where q: "evaluate_raw pe v None (se_policy s) = (r, q)" and s': "s' = s\<lparr>se_policy := q\<rparr>"
    using assms(3) by (auto simp: on_policy_def zoom_run split: prod.splits)
  have m: "memory_ok (pe_wasm pe) mem" using assms(1) by (simp add: working_guest_def)
  have i: "documents_inv pe mem (se_policy s)" "same_view (se_policy s) p" using assms(2) by (simp_all add: in_session_def)
  have "documents_inv pe mem q" using documents_evaluate [OF m i(1), of v None] q by simp
  moreover have "same_view q (se_policy s)"
    using evaluate_keeps_published(1) [of pe v None "se_policy s"] step_metadata(1) [of pe "Evaluate v None" "se_policy s"]
      evaluate_keeps_registry [of pe v None "se_policy s"] q
    by (simp add: same_view_def policy_evaluate_state policy_entrypoints_def)
  ultimately show "in_session pe mem p s'" "se_lines s' = se_lines s"
    using same_view_trans i(2) by (simp_all add: in_session_def s') blast
  show "answered pe mem p v x" if "r = Inr x"
    using evaluate_raw_answer [OF assms(1) i(1) q [unfolded that]] same_view_answers(1) [OF i(2), of pe mem v x]
    by (simp add: answered_def policy_entrypoints_def)
qed

lemma evaluate_session:
  assumes "working_guest (pe_wasm pe) mem hp" and "in_session pe mem p s"
    and "on_policy (policy_evaluate pe v None) s = (r, s')"
  shows "in_session pe mem p s'" and "se_lines s' = se_lines s" and "r = Inr d \<Longrightarrow> decided pe mem p v d"
proof -
  obtain r0 s0 where e: "on_policy (evaluate_raw pe v None) s = (r0, s0)" by fastforce
  have run: "s' = s0" "r = (case r0 of Inl e \<Rightarrow> Inl e | Inr raw \<Rightarrow> simplify_result (pe_config pe) raw)"
    using e assms(3) by (auto simp: on_policy_def zoom_run policy_evaluate_def act_simps split: prod.splits sum.splits)
  note n = evaluate_raw_session [OF assms(1,2) e]
  show "in_session pe mem p s'" "se_lines s' = se_lines s" using n run(1) by simp_all
  show "decided pe mem p v d" if "r = Inr d"
    using n(3) run(2) that by (auto simp: decided_def split: sum.splits)
qed

section \<open>The output of basic_authz.py\<close>

lemma show_user_session:
  assumes "working_guest (pe_wasm pe) mem hp" and "in_session pe mem p s" and "show_user pe u s = (r, s')"
  shows "in_session pe mem p s'"
    and "case r of Inl e \<Rightarrow> se_lines s' = se_lines s
      | Inr _ \<Rightarrow> \<exists>d. decided pe mem p (user_input u) d \<and> se_lines s' = se_lines s @ [decision_line (pe_text pe) u d]"
proof -
  obtain q s1 where e: "on_policy (policy_evaluate pe (user_input u) None) s = (q, s1)" by fastforce
  note n = evaluate_session [OF assms(1,2) e]
  show "in_session pe mem p s'"
    using n(1) e assms(3) by (auto simp: show_user_def print_line_def act_simps in_session_def split: sum.splits)
  show "case r of Inl e \<Rightarrow> se_lines s' = se_lines s
      | Inr _ \<Rightarrow> \<exists>d. decided pe mem p (user_input u) d \<and> se_lines s' = se_lines s @ [decision_line (pe_text pe) u d]"
    using n(2,3) e assms(3) by (auto simp: show_user_def print_line_def act_simps split: sum.splits)
qed

text \<open>The lines of the loop: one for every user, in order, up to the first evaluation that raises.\<close>

definition users_shown ::
  "'s penv \<Rightarrow> ('s \<Rightarrow> bytes) \<Rightarrow> 's policy \<Rightarrow> string list \<Rightarrow> pyval decision list \<Rightarrow> pystr list \<Rightarrow> bool" where
  "users_shown pe mem p users ds lines \<longleftrightarrow> length ds \<le> length users
     \<and> (\<forall>(u, d) \<in> set (zip users ds). decided pe mem p (user_input u) d)
     \<and> lines = map2 (decision_line (pe_text pe)) users ds"

lemma show_users_session:
  assumes "working_guest (pe_wasm pe) mem hp" and "in_session pe mem p s" and "map_act (show_user pe) users s = (r, s')"
  shows "in_session pe mem p s' \<and> (\<exists>ds lines. users_shown pe mem p users ds lines \<and> se_lines s' = se_lines s @ lines
    \<and> (case r of Inl e \<Rightarrow> length ds < length users | Inr _ \<Rightarrow> length ds = length users))"
  using assms(2,3)
proof (induction users arbitrary: s s' r)
  case Nil
  then show ?case by (intro conjI exI [of _ "[]"]) (auto simp: users_shown_def act_simps)
next
  case (Cons u users)
  obtain q s1 where u: "show_user pe u s = (q, s1)" by fastforce
  note n = show_user_session [OF assms(1) Cons.prems(1) u]
  show ?case
  proof (cases q)
    case (Inl e)
    then have "s' = s1" "r = Inl e" using u Cons.prems(2) by (auto simp: act_simps)
    with n Inl show ?thesis by (intro conjI exI [of _ "[]"]) (simp_all add: users_shown_def)
  next
    case (Inr x)
    then obtain d where d: "decided pe mem p (user_input u) d"
      "se_lines s1 = se_lines s @ [decision_line (pe_text pe) u d]" using n(2) by auto
    obtain q' s2 where m: "map_act (show_user pe) users s1 = (q', s2)" by fastforce
    have run: "s' = s2" "(\<exists>e. r = Inl e) = (\<exists>e. q' = Inl e)"
      using u m Inr Cons.prems(2) by (auto simp: act_simps split: sum.splits)
    from Cons.IH [OF n(1) m] obtain ds lines where ih: "in_session pe mem p s2" "users_shown pe mem p users ds lines"
      "se_lines s2 = se_lines s1 @ lines" "case q' of Inl e \<Rightarrow> length ds < length users | Inr _ \<Rightarrow> length ds = length users"
      by blast
    have "users_shown pe mem p (u # users) (d # ds) (decision_line (pe_text pe) u d # lines)"
      using ih(2) d(1) by (simp add: users_shown_def)
    then show ?thesis using ih d(2) run
      by (intro conjI exI [of _ "d # ds"] exI [of _ "decision_line (pe_text pe) u d # lines"]) (auto split: sum.splits)
  qed
qed

definition roles_bytes :: bytes where
  "roles_bytes = map of_char ''{\"roles\":{\"alice\":\"admin\",\"bob\":\"viewer\"}}''"

lemma serialise_roles:
  assumes "max_data_bytes c = 10000000"
  shows "serialise_data ft c roles_document = Inr (Some roles_bytes)"
proof -
  have "dumps ft roles_document = Inr roles_bytes"
    by (simp add: dumps_def roles_document_def Json_Roundtrip.compact_def quote_str_def esc_char_def key_str_def utf8_encode_def
        is_surrogate_def utf8_char_def roles_bytes_def)
  then show ?thesis using assms by (simp add: serialise_data_def roles_document_def roles_bytes_def)
qed

lemma authz_config_simps:
  "authz_config = Inr (default_config\<lparr>default_entrypoint := Some (EpStr (ustr ''authz/allow''))\<rparr>)"
  using valid_default_config post_init_Inr [of "default_config\<lparr>default_entrypoint := Some (EpStr (ustr ''authz/allow''))\<rparr>"]
  by (simp add: authz_config_def make_config_def valid_config_def)


text \<open>What a freshly built policy shows.\<close>

lemma from_wasm_file_bytes:
  "from_wasm_file rd w pt yaml depth config path nt = (Inr (pe, p), nt') \<Longrightarrow>
   \<exists>b. from_wasm_bytes w pt yaml depth config b nt = (Inr (pe, p), nt')"
  by (auto simp: from_wasm_file_def split: sum.splits)

lemma fresh_policy:
  assumes "from_wasm_bytes w pt yaml depth config wasm_bytes nt = (Inr (pe, p), nt')"
  shows "pe_wasm pe = w" and "pe_text pe = pt" and "pe_config pe = (case config of None \<Rightarrow> default_config | Some c \<Rightarrow> c)"
    and "documents_inv pe mem p" and "published_data p = None" and "\<not> po_closed p"
    and "pw_registry (ps_world (po_state p)) = registry_init (default_builtins pt yaml)"
proof -
  note d = documents_from_wasm_bytes [OF assms] and f = fresh_policy_published [OF assms]
  show "pe_wasm pe = w" "pe_text pe = pt" "documents_inv pe mem p" "published_data p = None" "\<not> po_closed p"
    using d f by blast+
  have "pw_registry w' = pw_registry w0" if "run_probe pe w0 = (r, w')" for w0 w' r and pe :: "'a penv"
    using that by (auto simp: run_probe_def build_instance_def split: prod.splits sum.splits)
  then show "pe_config pe = (case config of None \<Rightarrow> default_config | Some c \<Rightarrow> c)"
    and "pw_registry (ps_world (po_state p)) = registry_init (default_builtins pt yaml)"
    using assms
    by (auto simp: from_wasm_bytes_def policy_init_def initial_world_def Let_def split: sum.splits prod.splits if_splits)
qed

lemma set_roles_session:
  assumes "documents_inv pe mem p" and "\<not> po_closed p" and "max_data_bytes (pe_config pe) = 10000000"
  shows "\<exists>q. on_policy (set_data pe roles_document) \<lparr>se_policy = p, se_lines = []\<rparr> = (Inr (), \<lparr>se_policy = q, se_lines = []\<rparr>)
    \<and> in_session pe mem q \<lparr>se_policy = q, se_lines = []\<rparr> \<and> published_data q = Some roles_bytes"
proof -
  obtain u q where sd: "set_data pe roles_document p = (u, q)" by fastforce
  note ser = serialise_roles [OF assms(3), of "pt_float (pe_text pe)"]
  have "u = Inr ()" using sd assms(2) ser by (auto simp: set_data_def raise_if_closed_def act_simps)
  then have "on_policy (set_data pe roles_document) \<lparr>se_policy = p, se_lines = []\<rparr> = (Inr (), \<lparr>se_policy = q, se_lines = []\<rparr>)"
    using sd by (simp add: on_policy_def zoom_run)
  moreover have "published_data q = Some roles_bytes"
    using set_data_published(1) [of pe roles_document p] sd assms(2) ser by simp
  moreover have "documents_inv pe mem q" using documents_set_data [OF assms(1), of roles_document] sd by simp
  ultimately show ?thesis by (auto simp: in_session_def same_view_def)
qed

lemma basic_authz_outcome:
  assumes "working_guest (xe_wasm xe) mem hp" and "basic_authz_main xe nt = (r, Some (pe, s))"
  shows "Inr (pe_config pe) = authz_config \<and> published_data (se_policy s) = Some roles_bytes
    \<and> (\<exists>ds lines. users_shown pe mem (se_policy s) [''alice'', ''bob'', ''carol''] ds lines
        \<and> (case r of
             Inl e \<Rightarrow> se_lines s = lines
           | Inr _ \<Rightarrow> length ds = 3 \<and> (\<exists>raw. answered pe mem (se_policy s) (user_input ''alice'') raw
               \<and> se_lines s = lines @ [raw_line (pe_text pe) raw])))"
proof -
  let ?c = "default_config\<lparr>default_entrypoint := Some (EpStr (ustr ''authz/allow''))\<rparr>"
  obtain p nt' where f: "from_wasm_file (xe_read xe) (xe_wasm xe) (xe_text xe) (xe_yaml xe) (xe_depth xe) (Some ?c)
      (fixture_file (xe_root xe) ''data_based.wasm'') nt = (Inr (pe, p), nt')"
    and b: "basic_authz_body pe \<lparr>se_policy = p, se_lines = []\<rparr> = (r, s)"
    using assms(2) by (auto simp: basic_authz_main_def authz_config_simps run_program_def split: sum.splits prod.splits)
  obtain wb where "from_wasm_bytes (xe_wasm xe) (xe_text xe) (xe_yaml xe) (xe_depth xe) (Some ?c) wb nt = (Inr (pe, p), nt')"
    using from_wasm_file_bytes [OF f] by blast
  note fp = fresh_policy [OF this]
  have g: "working_guest (pe_wasm pe) mem hp" and c: "pe_config pe = ?c" using assms(1) fp(1,3) by simp_all
  obtain q where sd: "on_policy (set_data pe roles_document) \<lparr>se_policy = p, se_lines = []\<rparr> = (Inr (), \<lparr>se_policy = q, se_lines = []\<rparr>)"
    and q: "in_session pe mem q \<lparr>se_policy = q, se_lines = []\<rparr>" "published_data q = Some roles_bytes"
    using set_roles_session [OF fp(4,6)] c by (auto simp: default_config_def)
  obtain u s1 where us: "map_act (show_user pe) [''alice'', ''bob'', ''carol''] \<lparr>se_policy = q, se_lines = []\<rparr> = (u, s1)" by fastforce
  obtain ds lines where l: "in_session pe mem q s1" "users_shown pe mem q [''alice'', ''bob'', ''carol''] ds lines" "se_lines s1 = lines"
    "case u of Inl e \<Rightarrow> length ds < 3 | Inr _ \<Rightarrow> length ds = 3"
    using show_users_session [OF g q(1) us] by (cases u) auto
  have fin: "same_view (se_policy s) q \<and> (case r of Inl e \<Rightarrow> se_lines s = lines
      | Inr _ \<Rightarrow> length ds = 3 \<and> (\<exists>raw. answered pe mem q (user_input ''alice'') raw \<and> se_lines s = lines @ [raw_line (pe_text pe) raw]))"
  proof (cases u)
    case (Inl e)
    then have "r = Inl e" "s = s1" using b sd us by (simp_all add: basic_authz_body_def bnd_run del: map_act.simps)
    then show ?thesis using l by (simp add: in_session_def)
  next
    case (Inr x)
    obtain w s2 where raw: "on_policy (evaluate_raw pe (user_input ''alice'') None) s1 = (w, s2)" by fastforce
    note e = evaluate_raw_session [OF g l(1) raw]
    have "s = (case w of Inl e \<Rightarrow> s2 | Inr raw \<Rightarrow> s2\<lparr>se_lines := se_lines s2 @ [raw_line (pe_text pe) raw]\<rparr>)"
      "r = (case w of Inl e \<Rightarrow> Inl e | Inr raw \<Rightarrow> Inr ())"
      using b sd us Inr raw
      by (auto simp: basic_authz_body_def bnd_run print_line_def updating_run simp del: map_act.simps split: sum.splits)
    then show ?thesis using e l(3,4) Inr by (auto simp: in_session_def split: sum.splits)
  qed
  have v: "answered pe mem (se_policy s) = answered pe mem q" "decided pe mem (se_policy s) = decided pe mem q"
    using same_view_answers [of "se_policy s" q] fin by (simp_all add: fun_eq_iff)
  then have "users_shown pe mem (se_policy s) = users_shown pe mem q" by (simp add: fun_eq_iff users_shown_def)
  then have "users_shown pe mem (se_policy s) [''alice'', ''bob'', ''carol''] ds lines" using l(2) by simp
  moreover have "published_data (se_policy s) = Some roles_bytes" using fin q(2) by (simp add: same_view_def)
  moreover have "Inr (pe_config pe) = authz_config" using c by (simp add: authz_config_simps)
  ultimately show ?thesis using fin unfolding v(1) by blast
qed

section \<open>The other programs\<close>

lemma program_run:
  assumes "run_program xe config name body nt = (r, Some (pe, s))"
  obtains p wb nt' where "from_wasm_bytes (xe_wasm xe) (xe_text xe) (xe_yaml xe) (xe_depth xe) config wb nt = (Inr (pe, p), nt')"
    and "body pe \<lparr>se_policy = p, se_lines = []\<rparr> = (r, s)"
proof -
  obtain p nt' where f: "from_wasm_file (xe_read xe) (xe_wasm xe) (xe_text xe) (xe_yaml xe) (xe_depth xe) config
      (fixture_file (xe_root xe) name) nt = (Inr (pe, p), nt')" and b: "body pe \<lparr>se_policy = p, se_lines = []\<rparr> = (r, s)"
    using assms by (auto simp: run_program_def split: sum.splits prod.splits)
  from from_wasm_file_bytes [OF f] that b show thesis by blast
qed

definition all_builtins :: "py_text \<Rightarrow> yaml_lib option \<Rightarrow> (pystr \<times> builtin) list" where
  "all_builtins pt y = default_builtins pt y @ [(ustr ''my.custom_builtin'', arity1 double_it)]"

lemma custom_names:
  "sort (map fst (all_builtins pt y)) = map ustr [''json.is_valid'', ''my.custom_builtin'', ''sprintf'',
     ''yaml.is_valid'', ''yaml.marshal'', ''yaml.unmarshal'']"
  by (simp add: all_builtins_def default_builtins_def)

lemma register_custom:
  assumes "pw_registry (ps_world (po_state p)) = registry_init (default_builtins pt y)" and "\<not> po_closed p"
    and "documents_inv pe mem p"
  shows "\<exists>q. register_builtin (ustr ''my.custom_builtin'') (Some (arity1 double_it)) True p = (Inr (), q)
    \<and> documents_inv pe mem q \<and> published_data q = published_data p \<and> policy_builtins q = policy_builtins p
    \<and> published (pw_registry (ps_world (po_state q))) = all_builtins pt y"
proof -
  obtain u q where r: "register_builtin (ustr ''my.custom_builtin'') (Some (arity1 double_it)) True p = (u, q)" by fastforce
  have "u = Inr () \<and> published (pw_registry (ps_world (po_state q))) = all_builtins pt y \<and> policy_builtins q = policy_builtins p"
    using r assms(1,2)
    by (auto simp: register_builtin_def raise_if_closed_def act_simps register_def registry_init_def published_def
        publish_def on_world_def policy_builtins_def all_builtins_def default_builtins_def)
  then show ?thesis using r documents_register [OF assms(3)] register_published(1) by (metis snd_conv)
qed

lemma custom_builtin_outcome:
  assumes "working_guest (xe_wasm xe) mem hp" and "custom_builtin_main xe nt = (r, Some (pe, s))"
  shows "published (pw_registry (ps_world (po_state (se_policy s)))) = all_builtins (xe_text xe) (xe_yaml xe)
    \<and> (\<exists>required tail. se_lines s = [ustr ''required builtins: '' @ ids_str (xe_text xe) required,
          ustr ''registered builtins: '' @ names_str (xe_text xe) (map ustr [''json.is_valid'', ''my.custom_builtin'', ''sprintf'',
            ''yaml.is_valid'', ''yaml.marshal'', ''yaml.unmarshal''])] @ tail
        \<and> (case r of Inl e \<Rightarrow> tail = []
           | Inr _ \<Rightarrow> \<exists>d. decided pe mem (se_policy s) (PDict [(text_of ''value'', PInt 21)]) d
               \<and> tail = [ustr ''result: '' @ decision_str (xe_text xe) d]))"
proof -
  obtain p wb nt' where f: "from_wasm_bytes (xe_wasm xe) (xe_text xe) (xe_yaml xe) (xe_depth xe) None wb nt = (Inr (pe, p), nt')"
    and b: "custom_builtin_body pe \<lparr>se_policy = p, se_lines = []\<rparr> = (r, s)"
    using assms(2) unfolding custom_builtin_main_def by (rule program_run)
  note fp = fresh_policy [OF f]
  have g: "working_guest (pe_wasm pe) mem hp" using assms(1) fp(1) by simp
  obtain q where reg: "register_builtin (ustr ''my.custom_builtin'') (Some (arity1 double_it)) True p = (Inr (), q)"
    and q: "documents_inv pe mem q" "published (pw_registry (ps_world (po_state q))) = all_builtins (xe_text xe) (xe_yaml xe)"
    using register_custom [OF fp(7,6,4)] by blast
  let ?lines = "[ustr ''required builtins: '' @ ids_str (xe_text xe) (policy_builtins p),
     ustr ''registered builtins: '' @ names_str (xe_text xe) (map ustr [''json.is_valid'', ''my.custom_builtin'', ''sprintf'',
       ''yaml.is_valid'', ''yaml.marshal'', ''yaml.unmarshal''])]"
  let ?v = "PDict [(text_of ''value'', PInt 21)]"
  obtain u s1 where e: "on_policy (policy_evaluate pe ?v None) \<lparr>se_policy = q, se_lines = ?lines\<rparr> = (u, s1)" by fastforce
  have "registered_builtins q = map ustr [''json.is_valid'', ''my.custom_builtin'', ''sprintf'', ''yaml.is_valid'',
      ''yaml.marshal'', ''yaml.unmarshal'']"
    using custom_names by (simp add: registered_builtins_def Builtins.names_def q(2) del: ustr_simps)
  then have run: "s = (case u of Inl _ \<Rightarrow> s1 | Inr d \<Rightarrow> s1\<lparr>se_lines := se_lines s1 @ [ustr ''result: '' @ decision_str (xe_text xe) d]\<rparr>)"
    "r = (case u of Inl e \<Rightarrow> Inl e | Inr _ \<Rightarrow> Inr ())"
    using b reg e fp(2)
    by (auto simp: custom_builtin_body_def print_line_def act_simps on_policy_def [of "register_builtin _ _ _"] comp_def
        simp del: ustr_simps split: sum.splits)
  have i: "in_session pe mem q \<lparr>se_policy = q, se_lines = ?lines\<rparr>" using q(1) by (simp add: in_session_def same_view_def)
  note n = evaluate_session [OF g i e]
  have sv: "same_view (se_policy s) q" using n(1) run(1) by (simp add: in_session_def split: sum.splits)
  have "published (pw_registry (ps_world (po_state (se_policy s)))) = all_builtins (xe_text xe) (xe_yaml xe)"
    using q(2) sv by (simp add: same_view_def)
  moreover have "decided pe mem (se_policy s) = decided pe mem q"
    using same_view_answers(2) [OF sv] by (simp add: fun_eq_iff)
  moreover have "\<exists>tail. se_lines s = ?lines @ tail \<and> (case r of Inl e \<Rightarrow> tail = []
      | Inr _ \<Rightarrow> \<exists>d. decided pe mem q ?v d \<and> tail = [ustr ''result: '' @ decision_str (xe_text xe) d])"
    using n(2,3) run by (cases u) auto
  ultimately show ?thesis by (elim exE conjE) (intro conjI exI, assumption+, simp split: sum.splits)
qed

lemma show_result_run:
  assumes "show_result pt d s1 = (r, s)"
  shows "case r of Inl e \<Rightarrow> exc_class_of e \<noteq> OpaBuiltinError
    | Inr _ \<Rightarrow> \<exists>kvs g y j. d = Defined (PDict kvs) \<and> dict_item kvs ''greeting'' = Inr g \<and> dict_item kvs ''valid_yaml'' = Inr y
        \<and> dict_item kvs ''valid_json'' = Inr j \<and> s = s1\<lparr>se_lines := se_lines s1 @ [ustr ''greeting  : '' @ py_str pt g,
            ustr ''valid_yaml: '' @ py_str pt y, ustr ''valid_json: '' @ py_str pt j]\<rparr>"
proof (cases "\<exists>kvs. d = Defined (PDict kvs)")
  case True
  then obtain kvs where d: "d = Defined (PDict kvs)" by blast
  have err: "dict_item kvs k = Inl e \<Longrightarrow> exc_class_of e \<noteq> OpaBuiltinError" for k e
    by (auto simp: dict_item_def split: option.splits)
  show ?thesis using assms d
    by (auto simp: show_result_def show_member_def print_line_def act_simps simp del: ustr_simps split: sum.splits dest: err)
next
  case False
  then have "r = Inl (new_exc (OtherException ''AssertionError'') [])"
    using assms by (auto simp: show_result_def raise_run split: decision.splits pyval.splits)
  then show ?thesis by simp
qed

text \<open>Without PyYAML, or if a builtin fails, the program says so and returns; no \<open>OpaBuiltinError\<close> leaves it.\<close>

lemma yaml_builtin_outcome:
  assumes "working_guest (xe_wasm xe) mem hp" and "yaml_builtin_main xe nt = (r, Some (pe, s))"
  shows "case r of
      Inl e \<Rightarrow> exc_class_of e \<noteq> OpaBuiltinError
    | Inr _ \<Rightarrow> (\<exists>why. se_lines s = [ustr ''YAML builtin unavailable: '' @ why, ustr ''Install with:  uv add '' @ 39 # ustr ''opa-py-wasm[yaml]'' @ [39]])
      \<or> (\<exists>kvs g y j. decided pe mem (se_policy s) hello_input (Defined (PDict kvs)) \<and> dict_item kvs ''greeting'' = Inr g
          \<and> dict_item kvs ''valid_yaml'' = Inr y \<and> dict_item kvs ''valid_json'' = Inr j
          \<and> se_lines s = [ustr ''greeting  : '' @ py_str (xe_text xe) g, ustr ''valid_yaml: '' @ py_str (xe_text xe) y,
              ustr ''valid_json: '' @ py_str (xe_text xe) j])"
proof -
  obtain p wb nt' where f: "from_wasm_bytes (xe_wasm xe) (xe_text xe) (xe_yaml xe) (xe_depth xe) None wb nt = (Inr (pe, p), nt')"
    and b: "yaml_builtin_body pe \<lparr>se_policy = p, se_lines = []\<rparr> = (r, s)"
    using assms(2) unfolding yaml_builtin_main_def by (rule program_run)
  note fp = fresh_policy [OF f]
  have g: "working_guest (pe_wasm pe) mem hp" using assms(1) fp(1) by simp
  have i: "in_session pe mem p \<lparr>se_policy = p, se_lines = []\<rparr>" using fp(4) by (simp add: in_session_def same_view_def)
  obtain u s1 where e: "on_policy (policy_evaluate pe hello_input None) \<lparr>se_policy = p, se_lines = []\<rparr> = (u, s1)" by fastforce
  note n = evaluate_session [OF g i e]
  have l: "se_lines s1 = []" using n(2) by simp
  show ?thesis
  proof (cases u)
    case (Inl x)
    then show ?thesis using b e l
      by (auto simp: yaml_builtin_body_def unavailable_def print_line_def act_simps simp del: ustr_simps split: if_splits)
  next
    case (Inr d)
    have "same_view (se_policy s1) p" using n(1) by (simp add: in_session_def)
    from same_view_answers(2) [OF this] have dec: "decided pe mem (se_policy s1) hello_input d" using n(3) [OF Inr] by simp
    have "show_result (xe_text xe) d s1 = (r, s)"
      using b e Inr fp(2) by (simp add: yaml_builtin_body_def act_simps)
    note sr = show_result_run [OF this]
    show ?thesis
    proof (cases r)
      case (Inl x)
      then show ?thesis using sr by simp
    next
      case r: (Inr x)
      then obtain kvs g y j where k: "d = Defined (PDict kvs)" "dict_item kvs ''greeting'' = Inr g"
        "dict_item kvs ''valid_yaml'' = Inr y" "dict_item kvs ''valid_json'' = Inr j"
        "s = s1\<lparr>se_lines := se_lines s1 @ [ustr ''greeting  : '' @ py_str (xe_text xe) g,
           ustr ''valid_yaml: '' @ py_str (xe_text xe) y, ustr ''valid_json: '' @ py_str (xe_text xe) j]\<rparr>"
        using sr by (auto simp del: ustr_simps)
      have "decided pe mem (se_policy s) hello_input (Defined (PDict kvs))" using dec k(1,5) by simp
      then show ?thesis unfolding r sum.case using k l
        by (intro disjI2 exI [of _ kvs] exI [of _ g] exI [of _ y] exI [of _ j]) (simp del: ustr_simps)
    qed
  qed
qed

section \<open>The workers of pooled_eval.py\<close>

lemma pooled_config_simps:
  "pooled_config = Inr (default_config\<lparr>pool_size := 4, default_entrypoint := Some (EpStr (ustr ''authz/allow''))\<rparr>)"
  using valid_default_config
    post_init_Inr [of "default_config\<lparr>pool_size := 4, default_entrypoint := Some (EpStr (ustr ''authz/allow''))\<rparr>"]
  by (simp add: pooled_config_def make_config_def valid_config_def)

lemma pooled_setupE:
  assumes "pooled_setup xe nt = Inr (pe, q)"
  obtains wb p nt' where "from_wasm_bytes (xe_wasm xe) (xe_text xe) (xe_yaml xe) (xe_depth xe)
      (Some (default_config\<lparr>pool_size := 4, default_entrypoint := Some (EpStr (ustr ''authz/allow''))\<rparr>)) wb nt = (Inr (pe, p), nt')"
    and "set_data pe pooled_document p = (Inr (), q)"
proof -
  obtain p nt' where f: "from_wasm_file (xe_read xe) (xe_wasm xe) (xe_text xe) (xe_yaml xe) (xe_depth xe)
      (Some (default_config\<lparr>pool_size := 4, default_entrypoint := Some (EpStr (ustr ''authz/allow''))\<rparr>))
      (fixture_file (xe_root xe) ''data_based.wasm'') nt = (Inr (pe, p), nt')"
    and "set_data pe pooled_document p = (Inr (), q)"
    using assms by (auto simp: pooled_setup_def pooled_config_simps split: prod.splits sum.splits)
  with from_wasm_file_bytes [OF f] that show thesis by blast
qed

text \<open>A worker that is alone gets the truth value of a decision of the guest about its user.\<close>

lemma worker_call_answer:
  assumes "working_guest (pe_wasm pe) mem hp" and "documents_inv pe mem p" and "worker_call pe tid p = (Inr b, q)"
  shows "\<exists>d. decided pe mem p (worker_input tid) d \<and> b = decision_truth d"
proof -
  obtain d where e: "policy_evaluate pe (worker_input tid) None p = (Inr d, q)" and b: "b = decision_truth d"
    using assms(3) by (auto simp: worker_call_def act_simps split: prod.splits sum.splits)
  have "on_policy (policy_evaluate pe (worker_input tid) None) \<lparr>se_policy = p, se_lines = []\<rparr>
      = (Inr d, \<lparr>se_policy = q, se_lines = []\<rparr>)" using e by (simp add: on_policy_def zoom_run)
  from evaluate_session(3) [OF assms(1) _ this, of p] assms(2) b show ?thesis
    by (auto simp: in_session_def same_view_def)
qed

end
