(* ===== verification/Example_Demo.thy ===== *)
theory Example_Demo
  imports Example_Outcomes Guest
begin

text \<open>
  The authorization program on the demonstration guest of theory \<open>Guest\<close>: its policy can be built.
\<close>

definition demo_example :: "gstore example_env" where
  "demo_example = \<lparr>xe_wasm = g_wasm 2, xe_text = demo_text, xe_yaml = None, xe_depth = 0,
     xe_read = (\<lambda>path. Inr [0]), xe_root = []\<rparr>"

definition demo_authz_config :: policy_config where
  "demo_authz_config = default_config\<lparr>default_entrypoint := Some (EpStr (ustr ''authz/allow''))\<rparr>"

text \<open>The tick budget of the default timeout; the rounded division is not a case for rewriting.\<close>

lemma deadline_30: "deadline_ticks (Fin 30) = Inr 3000"
proof -
  have "\<lfloor>7605903601369376408980219232256 / 1152921504606847 :: rat\<rfloor> = 6597069766655999"
    by (rule floor_unique) simp_all
  moreover have "expo (30 / tick_seconds) = 11" by (rule expo_unique) (simp_all add: tick_seconds_def)
  ultimately have "fl (30 / tick_seconds) = Fin 3000"
    by (simp add: fl_def fl_pos_def Let_def tick_seconds_def power_int_minus round_half_even_def)
  moreover have "expo 30 = 4" by (rule expo_unique) simp_all
  then have "fl 30 = Fin 30" by (simp add: fl_def fl_pos_def Let_def power_int_minus round_half_even_def)
  ultimately show ?thesis by (simp add: deadline_ticks_def div_tick_def)
qed

lemma deadline_ticks_code [code]:
  "deadline_ticks s = (if s = Fin 30 then Inr 3000 else rbind (math_ceil (div_tick s)) (\<lambda>n. Inr (max 1 n)))"
  using deadline_30 by (simp add: deadline_ticks_def)

lemma demo_authz_built:
  "case from_wasm_bytes (g_wasm 2) demo_text None 0 (Some demo_authz_config) [0] no_stores of
     (Inr (pe, p), nt) \<Rightarrow> True | (Inl e, nt) \<Rightarrow> False"
  by code_simp

lemma demo_authz_run: "\<exists>r pe s. basic_authz_main demo_example no_stores = (r, Some (pe, s))"
proof -
  obtain pe p nt where "from_wasm_bytes (g_wasm 2) demo_text None 0 (Some demo_authz_config) [0] no_stores = (Inr (pe, p), nt)"
    using demo_authz_built by (auto split: prod.splits sum.splits)
  then have "from_wasm_file (xe_read demo_example) (xe_wasm demo_example) (xe_text demo_example) (xe_yaml demo_example)
      (xe_depth demo_example) (Some demo_authz_config) path no_stores = (Inr (pe, p), nt)" for path
    by (simp add: from_wasm_file_def demo_example_def)
  then show ?thesis
    by (cases "basic_authz_body pe \<lparr>se_policy = p, se_lines = []\<rparr>")
      (simp add: basic_authz_main_def authz_config_simps run_program_def demo_authz_config_def)
qed

end
