(* ===== verification/Example_Pooled.thy ===== *)
theory Example_Pooled
  imports Policy_Progress Policy_Counters Config
begin

text \<open>
  \<^verbatim>\<open>src/examples/pooled_eval.py\<close>: sixteen threads that evaluate once each on a policy with four
  slots, and the main thread that starts them, joins them and prints the counts. The evaluations
  are calls of the interleaving model of theory \<open>Policy_Concurrent\<close>; what the guest decides is
  nondeterministic here.
\<close>

section \<open>State\<close>

text \<open>
  A worker inside \<open>evaluate\<close> has its program counter there and, once the guest has run, what it
  got: the truth value of the decision, or none if the evaluation raised.
\<close>

datatype worker =
    Unstarted
  | Started
  | Calling pc "bool option"
  | Answered bool
  | Finished "bool option"

datatype main_pc = Starting nat | Joining nat | Printed "pystr list"

record pooled =
  pd_shared :: shared
  pd_workers :: "worker list"
  pd_results :: "bool list"
  pd_main :: main_pc

definition worker_threads :: nat where "worker_threads = 16"

definition worker_slots :: nat where "worker_slots = 4"

text \<open>The policy is built and \<open>set_data\<close> has returned; no worker is started.\<close>

definition pooled_start :: pooled where
  "pooled_start = \<lparr>pd_shared = (fst (initial worker_slots worker_threads))\<lparr>sh_version := 1\<rparr>,
     pd_workers = replicate worker_threads Unstarted, pd_results = [], pd_main = Starting 0\<rparr>"

text \<open>The two lines at the end; \<open>sum\<close> of a list of bools counts the true ones.\<close>

definition final_lines :: "bool list \<Rightarrow> nat \<Rightarrow> pystr list" where
  "final_lines results created = (let allowed = int (count_list results True) in
     [ustr ''16 threads, pool_size=4: '' @ int_repr allowed @ ustr '' allowed, ''
        @ int_repr (int (length results) - allowed) @ ustr '' denied'',
      ustr ''instances actually created: '' @ int_repr (int created) @ ustr '' (<= pool_size)''])"

section \<open>Steps\<close>

text \<open>One worker: its call of \<open>evaluate\<close> step by step, then the append under the lock.\<close>

inductive worker_step :: "shared \<Rightarrow> bool list \<Rightarrow> worker \<Rightarrow> shared \<Rightarrow> bool list \<Rightarrow> worker \<Rightarrow> bool" where
  enter: "tstep sh Ready sh' (Check v) \<Longrightarrow> worker_step sh rs Started sh' rs (Calling (Check v) None)"
| guest: "tstep sh (Loan v i) sh' p \<Longrightarrow> worker_step sh rs (Calling (Loan v i) a) sh' rs (Calling p b)"
| call: "tstep sh p sh' p' \<Longrightarrow> p' \<noteq> Ready \<Longrightarrow> (\<forall>v i. p \<noteq> Loan v i) \<Longrightarrow>
    worker_step sh rs (Calling p a) sh' rs (Calling p' a)"
| returned: "tstep sh p sh' Ready \<Longrightarrow> worker_step sh rs (Calling p (Some b)) sh' rs (Answered b)"
| raised: "tstep sh p sh' Ready \<Longrightarrow> worker_step sh rs (Calling p None) sh' rs (Finished None)"
| append: "worker_step sh rs (Answered b) sh (rs @ [b]) (Finished (Some b))"

inductive pooled_step :: "pooled \<Rightarrow> pooled \<Rightarrow> bool" where
  start: "pd_main s = Starting t \<Longrightarrow> t < worker_threads \<Longrightarrow>
    pooled_step s (s\<lparr>pd_workers := (pd_workers s)[t := Started], pd_main := Starting (Suc t)\<rparr>)"
| started: "pd_main s = Starting worker_threads \<Longrightarrow> pooled_step s (s\<lparr>pd_main := Joining 0\<rparr>)"
| join: "pd_main s = Joining t \<Longrightarrow> t < worker_threads \<Longrightarrow> pd_workers s ! t = Finished a \<Longrightarrow>
    pooled_step s (s\<lparr>pd_main := Joining (Suc t)\<rparr>)"
| report: "pd_main s = Joining worker_threads \<Longrightarrow>
    pooled_step s (s\<lparr>pd_main := Printed (final_lines (pd_results s) (sh_created (pd_shared s)))\<rparr>)"
| worker: "t < length (pd_workers s) \<Longrightarrow> worker_step (pd_shared s) (pd_results s) (pd_workers s ! t) sh rs w \<Longrightarrow>
    pooled_step s (s\<lparr>pd_shared := sh, pd_workers := (pd_workers s)[t := w], pd_results := rs\<rparr>)"

section \<open>The workers are threads of the policy\<close>

fun worker_pc :: "worker \<Rightarrow> pc" where
  "worker_pc (Calling p a) = p"
| "worker_pc _ = Ready"

definition threads :: "pooled \<Rightarrow> shared \<times> pc list" where
  "threads s = (pd_shared s, map worker_pc (pd_workers s))"

text \<open>What stays true of the policy, which nobody closes or gives new data.\<close>

definition policy_open :: "shared \<Rightarrow> bool" where
  "policy_open sh \<longleftrightarrow> \<not> sh_closed sh \<and> \<not> sh_pool_closed sh \<and> sh_version sh = 1"

fun began :: "pc \<Rightarrow> nat option" where
  "began (Check v) = Some v" | "began (Get v) = Some v" | "began (Got v s) = Some v" | "began (Create v) = Some v"
| "began (Build v n) = Some v" | "began (Made v i) = Some v" | "began (Fresh v i) = Some v"
| "began (Refresh v i n) = Some v" | "began (Loan v i) = Some v"
| "began _ = None"

text \<open>A call of \<open>evaluate\<close> that began after \<open>set_data\<close> had returned.\<close>

definition evaluating :: "pc \<Rightarrow> bool" where
  "evaluating p \<longleftrightarrow> counted p \<and> began p \<in> {None, Some 1}"

lemma tstep_evaluating:
  "tstep sh p sh' p' \<Longrightarrow> evaluating p \<Longrightarrow> policy_open sh \<Longrightarrow> policy_open sh' \<and> (p' = Ready \<or> evaluating p')"
  by (induction rule: tstep.induct) (auto simp: evaluating_def policy_open_def put_now_def close_store_def)

lemma tstep_enter: "tstep sh Ready sh' (Check v) \<Longrightarrow> policy_open sh \<Longrightarrow> policy_open sh' \<and> v = 1"
  by (auto simp: policy_open_def elim: tstepE)

lemma tstep_loan: "tstep sh (Loan v i) sh' p \<Longrightarrow> p \<noteq> Ready"
  by (auto elim: tstepE)

fun worker_ok :: "worker \<Rightarrow> bool" where
  "worker_ok (Calling p a) = evaluating p"
| "worker_ok _ = True"

lemma worker_step_thread:
  assumes "worker_step sh rs w sh' rs' w'" and "worker_ok w" and "policy_open sh"
  shows "worker_ok w' \<and> policy_open sh'"
    and "sh' = sh \<and> worker_pc w' = worker_pc w \<or> tstep sh (worker_pc w) sh' (worker_pc w')"
  using assms
proof (induction rule: worker_step.induct)
  case (enter sh sh' v rs)
  { case 1 then show ?case using tstep_enter [OF enter(1)] by (auto simp: evaluating_def) }
  { case 2 then show ?case using enter(1) by simp }
next
  case (guest sh v i sh' p rs a b)
  { case 1 then show ?case using tstep_evaluating [OF guest(1)] tstep_loan [OF guest(1)] by simp }
  { case 2 then show ?case using guest(1) by simp }
next
  case (call sh p sh' p' rs a)
  { case 1 then show ?case using tstep_evaluating [OF call(1)] call(2) by simp }
  { case 2 then show ?case using call(1) by simp }
next
  case (returned sh p sh' rs b)
  { case 1 then show ?case using tstep_evaluating [OF returned(1)] by simp }
  { case 2 then show ?case using returned(1) by simp }
next
  case (raised sh p sh' rs)
  { case 1 then show ?case using tstep_evaluating [OF raised(1)] by simp }
  { case 2 then show ?case using raised(1) by simp }
next
  case (append sh rs b)
  { case 1 then show ?case by simp }
  { case 2 then show ?case by simp }
qed

section \<open>Invariant\<close>

fun finished :: "worker \<Rightarrow> bool" where
  "finished (Finished a) = True"
| "finished _ = False"

text \<open>Which workers have started and ended, by what the main thread has done.\<close>

fun main_ok :: "main_pc \<Rightarrow> worker list \<Rightarrow> bool" where
  "main_ok (Starting t) ws = (t \<le> worker_threads \<and> (\<forall>u < worker_threads. ws ! u = Unstarted \<longleftrightarrow> t \<le> u))"
| "main_ok (Joining t) ws = (t \<le> worker_threads \<and> Unstarted \<notin> set ws \<and> (\<forall>u < t. finished (ws ! u)))"
| "main_ok (Printed lines) ws = (\<forall>w \<in> set ws. finished w)"

definition pooled_inv :: "pooled \<Rightarrow> bool" where
  "pooled_inv s \<longleftrightarrow> length (pd_workers s) = worker_threads \<and> policy_open (pd_shared s)
     \<and> (\<forall>w \<in> set (pd_workers s). worker_ok w)
     \<and> (\<forall>b. count_list (pd_results s) b = num (\<lambda>w. w = Finished (Some b)) (pd_workers s))
     \<and> main_ok (pd_main s) (pd_workers s)
     \<and> (\<forall>ls. pd_main s = Printed ls \<longrightarrow> ls = final_lines (pd_results s) (sh_created (pd_shared s)))"

lemma worker_step_kind:
  "worker_step sh rs w sh' rs' w' \<Longrightarrow> w \<noteq> Unstarted \<and> \<not> finished w \<and> w' \<noteq> Unstarted
     \<and> (\<forall>b. count_list rs' b + of_bool (w = Finished (Some b)) = count_list rs b + of_bool (w' = Finished (Some b)))"
  by (induction rule: worker_step.induct) auto

lemma pooled_inv_start: "pooled_inv pooled_start"
proof -
  have "num (\<lambda>w. w = Finished (Some b)) (replicate worker_threads Unstarted) = 0" for b unfolding num_zero by simp
  then show ?thesis by (simp add: pooled_inv_def pooled_start_def policy_open_def initial_def)
qed

lemma main_ok_worker:
  assumes "main_ok m ws" and "length ws = worker_threads" and "t < length ws" and "ws ! t \<noteq> Unstarted" and "\<not> finished (ws ! t)"
    and "w \<noteq> Unstarted"
  shows "main_ok m (ws[t := w]) \<and> (\<forall>ls. m \<noteq> Printed ls)"
proof (cases m)
  case (Starting k)
  then show ?thesis using assms by (auto simp: nth_list_update)
next
  case (Joining k)
  then have "Unstarted \<notin> set (ws[t := w])" using assms by (auto elim!: set_updateE)
  then show ?thesis using assms Joining by (auto simp: nth_list_update)
next
  case (Printed ls)
  then show ?thesis using assms nth_mem [OF assms(3)] by auto
qed

lemma pooled_inv_step: "pooled_step s s' \<Longrightarrow> pooled_inv s \<Longrightarrow> pooled_inv s'"
proof (induction rule: pooled_step.induct)
  case (start s t)
  then have t: "t < length (pd_workers s)" "pd_workers s ! t = Unstarted" by (auto simp: pooled_inv_def)
  have "\<forall>w \<in> set ((pd_workers s)[t := Started]). worker_ok w" using start(3) by (auto simp: pooled_inv_def elim!: set_updateE)
  moreover have "num (\<lambda>w. w = Finished (Some b)) ((pd_workers s)[t := Started]) = num (\<lambda>w. w = Finished (Some b)) (pd_workers s)" for b
    using num_update [OF t(1), of "\<lambda>w. w = Finished (Some b)" Started] t(2) by simp
  moreover have "main_ok (Starting (Suc t)) ((pd_workers s)[t := Started])"
    using start by (auto simp: pooled_inv_def nth_list_update)
  ultimately show ?case using start by (simp add: pooled_inv_def)
next
  case (started s)
  then show ?case by (auto simp: pooled_inv_def in_set_conv_nth)
next
  case (join s t a)
  then show ?case by (auto simp: pooled_inv_def less_Suc_eq)
next
  case (report s)
  then show ?case by (auto simp: pooled_inv_def in_set_conv_nth)
next
  case (worker t s sh rs w)
  note k = worker_step_kind [OF worker(2)]
  have "worker_ok (pd_workers s ! t)" "policy_open (pd_shared s)" using worker(1,3) by (simp_all add: pooled_inv_def)
  note th = worker_step_thread(1) [OF worker(2) this]
  have "\<forall>w' \<in> set ((pd_workers s)[t := w]). worker_ok w'" using worker(3) th by (auto simp: pooled_inv_def elim!: set_updateE)
  moreover have "count_list rs b = num (\<lambda>w. w = Finished (Some b)) ((pd_workers s)[t := w])" for b
    using num_update [OF worker(1), of "\<lambda>w. w = Finished (Some b)" w] k worker(3) by (simp add: pooled_inv_def) (metis add_right_cancel)
  moreover note main_ok_worker [of "pd_main s" "pd_workers s" t w]
  ultimately show ?case using worker k th by (auto simp: pooled_inv_def)
qed

lemma pooled_reach_inv: "pooled_step\<^sup>*\<^sup>* pooled_start s \<Longrightarrow> pooled_inv s"
  by (induction rule: rtranclp_induct) (use pooled_inv_start pooled_inv_step in blast)+

lemma pooled_step_threads:
  assumes "pooled_step s s'" and "pooled_inv s"
  shows "cstep\<^sup>*\<^sup>* (threads s) (threads s')"
  using assms
proof (induction rule: pooled_step.induct)
  case (start s t)
  then have "t < length (pd_workers s)" "pd_workers s ! t = Unstarted" by (auto simp: pooled_inv_def)
  then have "(map worker_pc (pd_workers s))[t := Ready] = map worker_pc (pd_workers s)" by (simp add: list_update_same_conv)
  then show ?case by (simp add: threads_def map_update)
next
  case (worker t s sh rs w)
  have "worker_ok (pd_workers s ! t)" "policy_open (pd_shared s)" using worker(1,3) by (simp_all add: pooled_inv_def)
  from worker_step_thread(2) [OF worker(2) this] show ?case
  proof
    assume "sh = pd_shared s \<and> worker_pc w = worker_pc (pd_workers s ! t)"
    then have "(map worker_pc (pd_workers s))[t := worker_pc w] = map worker_pc (pd_workers s)"
      using worker(1) by (simp add: list_update_same_conv)
    then show ?thesis using \<open>sh = pd_shared s \<and> _\<close> by (simp add: threads_def map_update)
  next
    assume "tstep (pd_shared s) (worker_pc (pd_workers s ! t)) sh (worker_pc w)"
    then have "cstep (threads s) (sh, (map worker_pc (pd_workers s))[t := worker_pc w])"
      using cstep.thread [of t "map worker_pc (pd_workers s)"] worker(1) by (simp add: threads_def)
    then show ?thesis by (simp add: threads_def map_update)
  qed
qed (simp_all add: threads_def)

lemma pooled_start_reachable: "reachable worker_slots worker_threads (threads pooled_start)"
proof -
  let ?st = "initial worker_slots worker_threads"
  have th: "snd ?st = replicate worker_threads Ready" "0 < length (snd ?st)" "snd ?st ! 0 = Ready" "\<not> sh_closed (fst ?st)"
    "sh_version (fst ?st) = 0"
    by (simp_all add: initial_def worker_threads_def)
  have "cstep (fst ?st, snd ?st) (fst ?st, (snd ?st)[0 := Set_data])"
    by (rule cstep.thread) (use th in \<open>auto intro: tstep.set_open\<close>)
  moreover have "cstep (fst ?st, (snd ?st)[0 := Set_data]) ((fst ?st)\<lparr>sh_version := 1\<rparr>, snd ?st)"
    using cstep.thread [of 0 "(snd ?st)[0 := Set_data]" "fst ?st" _ Ready] tstep.set_data [of "fst ?st"] th
    by (metis One_nat_def length_list_update list_update_id list_update_overwrite nth_list_update_eq)
  ultimately have "cstep\<^sup>*\<^sup>* ?st ((fst ?st)\<lparr>sh_version := 1\<rparr>, snd ?st)" by (auto intro: rtranclp_trans)
  then show ?thesis using th(1)
    by (simp add: reachable_def threads_def pooled_start_def worker_slots_def)
qed

lemma pooled_reachable:
  assumes "pooled_step\<^sup>*\<^sup>* pooled_start s"
  shows "reachable worker_slots worker_threads (threads s)"
  using assms
proof (induction rule: rtranclp_induct)
  case (step s s')
  have "cstep\<^sup>*\<^sup>* (threads s) (threads s')" using pooled_step_threads [OF step(2)] pooled_reach_inv [OF step(1)] by simp
  with step.IH show ?case unfolding reachable_def by (meson rtranclp_trans)
qed (rule pooled_start_reachable)

section \<open>The program ends\<close>

fun worker_weight :: "worker \<Rightarrow> nat" where
  "worker_weight Unstarted = 21" | "worker_weight Started = 20" | "worker_weight (Calling p a) = Suc (weight p)"
| "worker_weight (Answered b) = 1" | "worker_weight (Finished a) = 0"

fun main_weight :: "main_pc \<Rightarrow> nat" where
  "main_weight (Starting t) = 40 - t" | "main_weight (Joining t) = 20 - t" | "main_weight (Printed lines) = 0"

definition pooled_work :: "pooled \<Rightarrow> nat" where
  "pooled_work s = 3 * length (sh_idle (pd_shared s)) + sum_list (map worker_weight (pd_workers s)) + main_weight (pd_main s)"

lemma evaluating_not_ready: "evaluating p \<Longrightarrow> p \<noteq> Ready"
  by (auto simp: evaluating_def)

lemma worker_step_work:
  "worker_step sh rs w sh' rs' w' \<Longrightarrow> worker_ok w \<Longrightarrow>
   3 * length (sh_idle sh') + worker_weight w' < 3 * length (sh_idle sh) + worker_weight w"
proof (induction rule: worker_step.induct)
  case (enter sh sh' v rs)
  then have "sh_idle sh' = sh_idle sh" by (auto elim: tstepE)
  then show ?case by simp
qed (use tstep_weight evaluating_not_ready in fastforce)+

lemma pooled_step_work: "pooled_step s s' \<Longrightarrow> pooled_inv s \<Longrightarrow> pooled_work s' < pooled_work s"
proof (induction rule: pooled_step.induct)
  case (start s t)
  then have t: "t < length (pd_workers s)" "pd_workers s ! t = Unstarted" by (auto simp: pooled_inv_def)
  show ?case using sum_list_map_update [OF t(1), of worker_weight Started] t(2) start(1,2)
    by (simp add: pooled_work_def worker_threads_def)
next
  case (worker t s sh rs w)
  then have "worker_ok (pd_workers s ! t)" by (simp add: pooled_inv_def)
  from worker_step_work [OF worker(2) this] sum_list_map_update [OF worker(1), of worker_weight w]
  show ?case by (simp add: pooled_work_def)
qed (simp_all add: pooled_work_def worker_threads_def)

lemma pooled_work_bound:
  assumes "pooled_inv s" and "length (sh_idle (pd_shared s)) \<le> worker_slots"
  shows "pooled_work s \<le> 388"
proof -
  have w: "worker_weight w \<le> 21" for w using weight_bound by (cases w) (auto intro: le_SucI order_trans [OF weight_bound])
  have "sum_list (map worker_weight ws) \<le> 21 * length ws" for ws
    by (induction ws) (auto intro: add_mono w)
  from this [of "pd_workers s"] have "sum_list (map worker_weight (pd_workers s)) \<le> 336"
    using assms(1) by (simp add: pooled_inv_def worker_threads_def)
  moreover have "main_weight (pd_main s) \<le> 40" by (cases "pd_main s") simp_all
  ultimately show ?thesis using assms(2) by (simp add: pooled_work_def worker_slots_def)
qed

lemma pooled_steps_work: "(pooled_step ^^ m) s s' \<Longrightarrow> pooled_inv s \<Longrightarrow> pooled_inv s' \<and> pooled_work s' + m \<le> pooled_work s"
proof (induction m arbitrary: s')
  case (Suc m)
  then obtain s1 where "(pooled_step ^^ m) s s1" "pooled_step s1 s'" by auto
  with Suc.IH [of s1] Suc.prems(2) pooled_inv_step [of s1 s'] pooled_step_work [of s1 s'] show ?case by force
qed simp

text \<open>A worker that is started and not finished can move if the thread it is can.\<close>

lemma worker_moves:
  assumes "worker_ok w" and "w \<noteq> Unstarted" and "\<not> finished w" and "policy_open sh"
    and "\<And>p a. w = Calling p a \<Longrightarrow> \<exists>sh' p'. tstep sh p sh' p'"
  shows "\<exists>sh' rs' w'. worker_step sh rs w sh' rs' w'"
proof (cases w)
  case Started
  then show ?thesis using worker_step.enter [OF tstep.enter] by blast
next
  case (Calling p a)
  then obtain sh' p' where s: "tstep sh p sh' p'" using assms(5) by blast
  show ?thesis
  proof (cases "\<exists>v i. p = Loan v i")
    case True
    then show ?thesis using s Calling worker_step.guest by blast
  next
    case False
    then show ?thesis using s Calling worker_step.call [OF s] worker_step.returned [of sh p] worker_step.raised [of sh p]
      by (cases "p' = Ready"; cases a) blast+
  qed
next
  case (Answered b)
  then show ?thesis using worker_step.append by blast
qed (use assms in auto)

lemma pooled_progress:
  assumes "pooled_inv s" and "all_inv (threads s)" and "lock_inv (threads s)" and "\<And>ls. pd_main s \<noteq> Printed ls"
  shows "\<exists>s'. pooled_step s s'"
proof (cases "\<exists>t < length (pd_workers s). pd_workers s ! t \<noteq> Unstarted \<and> \<not> finished (pd_workers s ! t)")
  case True
  have ok: "policy_open (pd_shared s)" "\<And>t. t < length (pd_workers s) \<Longrightarrow> worker_ok (pd_workers s ! t)"
    using assms(1) by (simp_all add: pooled_inv_def)
  have go: "\<exists>s'. pooled_step s s'" if "t < length (pd_workers s)" "pd_workers s ! t \<noteq> Unstarted" "\<not> finished (pd_workers s ! t)"
    "\<And>p a. pd_workers s ! t = Calling p a \<Longrightarrow> \<exists>sh' p'. tstep (pd_shared s) p sh' p'" for t
    using worker_moves [OF ok(2) [OF that(1)] that(2,3) ok(1), of "pd_results s"] that(4) pooled_step.worker [OF that(1)] by blast
  show ?thesis
  proof (cases "\<exists>t < length (pd_workers s). \<exists>p a. pd_workers s ! t = Calling p a")
    case True
    then obtain t p a where t: "t < length (pd_workers s)" "pd_workers s ! t = Calling p a" by blast
    have "p \<noteq> Ready" using ok(2) [OF t(1)] t(2) evaluating_not_ready by simp
    moreover have "p \<in> set (map worker_pc (pd_workers s))" using t by (metis imageI list.set_map nth_mem worker_pc.simps(1))
    ultimately obtain u sh' p' where u: "u < length (pd_workers s)" "worker_pc (pd_workers s ! u) \<noteq> Ready"
      "tstep (pd_shared s) (worker_pc (pd_workers s ! u)) sh' p'"
      using call_progress [of "pd_shared s" "map worker_pc (pd_workers s)" p] assms(2,3) by (auto simp: threads_def)
    then show ?thesis by (intro go [of u]) (auto elim: worker_pc.elims finished.elims)
  next
    case False
    then show ?thesis using True go by blast
  qed
next
  case False
  then have f: "\<And>t. t < worker_threads \<Longrightarrow> pd_workers s ! t = Unstarted \<or> finished (pd_workers s ! t)"
    using assms(1) by (auto simp: pooled_inv_def)
  have m: "main_ok (pd_main s) (pd_workers s)" "length (pd_workers s) = worker_threads" using assms(1) by (simp_all add: pooled_inv_def)
  show ?thesis
  proof (cases "pd_main s")
    case (Starting t)
    then show ?thesis using m pooled_step.start [OF Starting] pooled_step.started [of s] by (cases "t < worker_threads") auto
  next
    case (Joining t)
    show ?thesis
    proof (cases "t < worker_threads")
      case True
      then have "finished (pd_workers s ! t)" using f m Joining by (metis main_ok.simps(2) nth_mem)
      then obtain a where "pd_workers s ! t = Finished a" by (auto elim: finished.elims)
      from pooled_step.join [OF Joining True this] show ?thesis by blast
    next
      case False
      then show ?thesis using m Joining pooled_step.report [of s] by auto
    qed
  qed (use assms(4) in blast)
qed

text \<open>What the program prints once every thread has been joined.\<close>

lemma pooled_counts:
  assumes "pooled_step\<^sup>*\<^sup>* pooled_start s" and "pd_main s = Printed ls"
  shows "ls = final_lines (pd_results s) (sh_created (pd_shared s))"
    and "count_list (pd_results s) b = num (\<lambda>w. w = Finished (Some b)) (pd_workers s)"
    and "sh_created (pd_shared s) = num is_instance (sh_idle (pd_shared s)) + sh_recreated (pd_shared s)"
    and "sh_created (pd_shared s) \<le> worker_slots + sh_recreated (pd_shared s)"
proof -
  note inv = pooled_reach_inv [OF assms(1)]
  have open': "\<not> sh_pool_closed (pd_shared s)" using inv by (simp add: pooled_inv_def policy_open_def)
  have r: "reachable worker_slots worker_threads (pd_shared s, map worker_pc (pd_workers s))"
    using pooled_reachable [OF assms(1)] by (simp add: threads_def)
  have "sh_max (pd_shared s) = worker_slots" using r run_max by (auto simp: reachable_def)
  moreover have "num live (map worker_pc (pd_workers s)) = 0"
    using inv assms(2) unfolding num_zero by (auto simp: pooled_inv_def elim!: finished.elims)
  moreover note reachable_counts [OF r open']
  ultimately show "sh_created (pd_shared s) = num is_instance (sh_idle (pd_shared s)) + sh_recreated (pd_shared s)"
    and "sh_created (pd_shared s) \<le> worker_slots + sh_recreated (pd_shared s)" by linarith+
  show "ls = final_lines (pd_results s) (sh_created (pd_shared s))"
    and "count_list (pd_results s) b = num (\<lambda>w. w = Finished (Some b)) (pd_workers s)"
    using inv assms(2) by (simp_all add: pooled_inv_def)
qed

text \<open>An evaluation runs on the document that was set before the threads were started.\<close>

lemma pooled_fresh:
  assumes "pooled_step\<^sup>*\<^sup>* pooled_start s" and "Calling (Loan v i) a \<in> set (pd_workers s)"
  shows "v = 1 \<and> 1 \<le> sh_inst_version (pd_shared s) i"
proof -
  have "evaluating (Loan v i)" using pooled_reach_inv [OF assms(1)] assms(2) by (auto simp: pooled_inv_def)
  moreover have "fresh_inv (threads s)" using reachable_inv [OF pooled_reachable [OF assms(1)]] by (simp add: all_inv_def)
  then have "fresh_pc (pd_shared s) (worker_pc (Calling (Loan v i) a))" using assms(2) unfolding fresh_inv_def threads_def by force
  ultimately show ?thesis by (simp add: evaluating_def)
qed

end
