(* ===== verification/Example_Schedule.thy ===== *)
theory Example_Schedule
  imports Example_Pooled Example_Outcomes Policy_Refinement
begin

text \<open>
  Two ends of \<^verbatim>\<open>src/examples/pooled_eval.py\<close>: the policy that its main thread builds is where the
  threads of theory \<open>Example_Pooled\<close> start, and a concrete run of these threads, evaluated by an
  executable form of their steps.
\<close>

section \<open>The policy the threads share\<close>

lemma pooled_setup_mirrors:
  assumes "native_wf nt" and "pooled_setup xe nt = Inr (pe, q)"
  shows "mirrors pe (nt_open nt) q (pd_shared pooled_start)"
proof -
  obtain wb p nt' where f: "from_wasm_bytes (xe_wasm xe) (xe_text xe) (xe_yaml xe) (xe_depth xe)
      (Some (default_config\<lparr>pool_size := 4, default_entrypoint := Some (EpStr (ustr ''authz/allow''))\<rparr>)) wb nt = (Inr (pe, p), nt')"
    and d: "set_data pe pooled_document p = (Inr (), q)"
    using assms(2) by (rule pooled_setupE)
  have "mirrors pe (nt_open nt) p (fst (initial worker_slots worker_threads))"
    using from_wasm_bytes_mirrors(2) [OF assms(1) f, of worker_threads] fresh_policy(3) [OF f] by (simp add: worker_slots_def)
  then show ?thesis using d
    by (auto simp: set_data_def raise_if_closed_def act_simps mirrors_def matches_def on_world_def agrees_def data_snapshot_def
        pooled_start_def initial_def split: if_splits sum.splits)
qed

section \<open>A run\<close>

text \<open>
  Steps as a function: \<open>Main\<close> is one of the main thread, \<open>Work t cs d\<close> those of worker \<open>t\<close> with the
  choices \<open>cs\<close> and, where the guest runs, its decision \<open>d\<close>.
\<close>

datatype pooled_choice = Main | Work nat "choice list" "bool option"

fun main_exec :: "pooled \<Rightarrow> main_pc \<Rightarrow> pooled option" where
  "main_exec s (Starting t) = Some (if t < worker_threads
     then s\<lparr>pd_workers := (pd_workers s)[t := Started], pd_main := Starting (Suc t)\<rparr>
     else s\<lparr>pd_main := Joining 0\<rparr>)"
| "main_exec s (Joining t) = (if t < worker_threads
     then (if finished (pd_workers s ! t) then Some (s\<lparr>pd_main := Joining (Suc t)\<rparr>) else None)
     else Some (s\<lparr>pd_main := Printed (final_lines (pd_results s) (sh_created (pd_shared s)))\<rparr>))"
| "main_exec s (Printed lines) = None"

fun worker_exec :: "choice \<Rightarrow> bool option \<Rightarrow> shared \<Rightarrow> bool list \<Rightarrow> worker \<Rightarrow> (shared \<times> bool list \<times> worker) option" where
  "worker_exec c d sh rs Started = Some (sh\<lparr>sh_active := Suc (sh_active sh)\<rparr>, rs, Calling (Check (sh_version sh)) None)"
| "worker_exec c d sh rs (Calling p a) = (case exec c sh p of
       None \<Rightarrow> None
     | Some (sh', p') \<Rightarrow> Some (sh', rs,
         if p' = Ready then (case a of Some b \<Rightarrow> Answered b | None \<Rightarrow> Finished None)
         else Calling p' (case p of Loan v i \<Rightarrow> d | _ \<Rightarrow> a)))"
| "worker_exec c d sh rs (Answered b) = Some (sh, rs @ [b], Finished (Some b))"
| "worker_exec c d sh rs w = None"

fun worker_replay :: "choice list \<Rightarrow> bool option \<Rightarrow> shared \<Rightarrow> bool list \<Rightarrow> worker \<Rightarrow> (shared \<times> bool list \<times> worker) option" where
  "worker_replay [] d sh rs w = Some (sh, rs, w)"
| "worker_replay (c # cs) d sh rs w = (case worker_exec c d sh rs w of
     None \<Rightarrow> None | Some (sh', rs', w') \<Rightarrow> worker_replay cs d sh' rs' w')"

fun pooled_exec :: "pooled_choice \<Rightarrow> pooled \<Rightarrow> pooled option" where
  "pooled_exec Main s = main_exec s (pd_main s)"
| "pooled_exec (Work t cs d) s = (if t < length (pd_workers s)
     then (case worker_replay cs d (pd_shared s) (pd_results s) (pd_workers s ! t) of
         None \<Rightarrow> None
       | Some (sh, rs, w) \<Rightarrow> Some (s\<lparr>pd_shared := sh, pd_workers := (pd_workers s)[t := w], pd_results := rs\<rparr>))
     else None)"

fun pooled_replay :: "pooled_choice list \<Rightarrow> pooled \<Rightarrow> pooled option" where
  "pooled_replay [] s = Some s"
| "pooled_replay (c # cs) s = (case pooled_exec c s of None \<Rightarrow> None | Some s' \<Rightarrow> pooled_replay cs s')"

lemma worker_exec_sound:
  assumes "worker_exec c d sh rs w = Some (sh', rs', w')"
  shows "worker_step sh rs w sh' rs' w'"
proof (cases w)
  case (Calling p a)
  then obtain p' where e: "exec c sh p = Some (sh', p')" "rs' = rs"
    "w' = (if p' = Ready then (case a of Some b \<Rightarrow> Answered b | None \<Rightarrow> Finished None)
       else Calling p' (case p of Loan v i \<Rightarrow> d | _ \<Rightarrow> a))"
    using assms by (auto split: option.splits)
  note s = exec_sound [OF e(1)]
  show ?thesis
  proof (cases "p' = Ready")
    case True
    then show ?thesis using Calling e s worker_step.returned [of sh p] worker_step.raised [of sh p] by (cases a) auto
  next
    case False
    then show ?thesis using Calling e s worker_step.guest worker_step.call [OF s] by (cases p) auto
  qed
qed (use assms in \<open>auto intro: worker_step.intros tstep.enter\<close>)

lemma worker_replay_run:
  "worker_replay cs d (pd_shared s) (pd_results s) (pd_workers s ! t) = Some (sh, rs, w) \<Longrightarrow> t < length (pd_workers s) \<Longrightarrow>
   pooled_step\<^sup>*\<^sup>* s (s\<lparr>pd_shared := sh, pd_workers := (pd_workers s)[t := w], pd_results := rs\<rparr>)"
proof (induction cs arbitrary: s)
  case Nil
  then have "s\<lparr>pd_shared := sh, pd_workers := (pd_workers s)[t := w], pd_results := rs\<rparr> = s" by (cases s) auto
  then show ?case by simp
next
  case (Cons c cs)
  then obtain sh1 rs1 w1 where e: "worker_exec c d (pd_shared s) (pd_results s) (pd_workers s ! t) = Some (sh1, rs1, w1)"
    and r: "worker_replay cs d sh1 rs1 w1 = Some (sh, rs, w)" by (auto split: option.splits)
  note p = pooled_step.worker [OF Cons.prems(2) worker_exec_sound [OF e]]
  with Cons.IH [of "s\<lparr>pd_shared := sh1, pd_workers := (pd_workers s)[t := w1], pd_results := rs1\<rparr>"] r Cons.prems(2)
  show ?case by (simp add: converse_rtranclp_into_rtranclp)
qed

lemma pooled_exec_run:
  assumes "pooled_exec c s = Some s'" and "pooled_inv s"
  shows "pooled_step\<^sup>*\<^sup>* s s'"
proof (cases c)
  case Main
  have m: "main_ok (pd_main s) (pd_workers s)" using assms(2) by (simp add: pooled_inv_def)
  have "pooled_step s s'"
  proof (cases "pd_main s")
    case (Starting t)
    then show ?thesis using Main assms(1) m pooled_step.start [OF Starting] pooled_step.started [of s]
      by (cases "t < worker_threads") auto
  next
    case (Joining t)
    then show ?thesis using Main assms(1) m pooled_step.join [OF Joining] pooled_step.report [of s]
      by (cases "t < worker_threads") (auto split: if_splits elim!: finished.elims)
  qed (use Main assms(1) in simp)
  then show ?thesis by blast
next
  case (Work t cs d)
  then show ?thesis using assms(1) by (auto split: if_splits option.splits intro: worker_replay_run)
qed

lemma pooled_replay_run:
  "pooled_replay cs s = Some s' \<Longrightarrow> pooled_step\<^sup>*\<^sup>* pooled_start s \<Longrightarrow> pooled_step\<^sup>*\<^sup>* pooled_start s'"
proof (induction cs arbitrary: s)
  case (Cons c cs)
  then obtain s1 where s: "pooled_exec c s = Some s1" "pooled_replay cs s1 = Some s'" by (auto split: option.splits)
  from pooled_exec_run [OF s(1) pooled_reach_inv [OF Cons.prems(2)]] Cons.prems(2)
  show ?case by (intro Cons.IH [OF s(2)]) (rule rtranclp_trans)
qed simp

text \<open>
  The first evaluation is stopped by its deadline: it raises, and its instance is replaced. The
  next four build an instance each and hold it while all others wait in vain.
\<close>

definition trapped_call :: "choice list" where
  "trapped_call = [Go, Go, Go, Go, Go, Built 0, Go, Go, Evaluated True False, Go, Go, Go, Go, Go]"

definition first_half :: "nat \<Rightarrow> choice list" where
  "first_half i = [Go, Go, Go, Go, Go, Built i, Go, Go]"

definition second_half :: "choice list" where
  "second_half = [Evaluated False False, Go, Go, Go, Go]"

definition pooled_schedule :: "pooled_choice list" where
  "pooled_schedule = replicate 17 Main @ [Work 0 trapped_call None]
     @ map (\<lambda>t. Work t (first_half t) None) [1, 2, 3, 4]
     @ map (\<lambda>t. Work t [Go, Go, Timeout, Go] None) [5..<16]
     @ map (\<lambda>t. Work t second_half (Some (even t))) [1, 2, 3, 4] @ replicate 17 Main"

lemma pooled_schedule_runs:
  "case pooled_replay pooled_schedule pooled_start of
     None \<Rightarrow> False
   | Some s \<Rightarrow> sh_created (pd_shared s) = 5 \<and> pd_main s = Printed [ustr ''16 threads, pool_size=4: 2 allowed, 2 denied'',
       ustr ''instances actually created: 5 (<= pool_size)'']"
  by code_simp

text \<open>So the program can print a number above four beside the words \<open>(<= pool_size)\<close>.\<close>

lemma pooled_exceeds:
  "\<exists>s. pooled_step\<^sup>*\<^sup>* pooled_start s \<and> sh_created (pd_shared s) = 5
     \<and> pd_main s = Printed [ustr ''16 threads, pool_size=4: 2 allowed, 2 denied'', ustr ''instances actually created: 5 (<= pool_size)'']"
  using pooled_schedule_runs pooled_replay_run [OF _ rtranclp.rtrancl_refl] by (auto split: option.splits)

end
