(* ===== verification/Spec2Isabelle.thy ===== *)
theory Spec2Isabelle
  imports Guest Policy_Refinement Policy_Metadata Fixtures Package Example_Demo Example_Schedule
begin

text \<open>
  Verification of \<^verbatim>\<open>opapywasm\<close>, a Python SDK that runs Open Policy Agent policies compiled to
  WebAssembly. The paths below are under \<^verbatim>\<open>src/opapywasm/\<close>, but for \<^verbatim>\<open>src/scripts/build_fixtures.py\<close>
  and the programs of \<^verbatim>\<open>src/examples/\<close>.

  \<^bold>\<open>The program.\<close> A policy (\<^verbatim>\<open>policy.py\<close>, \<open>OpaWasmPolicy\<close>) owns a runtime factory for one compiled
  module, a registry of host builtins, a versioned snapshot of the data document and a pool of
  instances. \<open>evaluate\<close> resolves the entrypoint, borrows an instance from the pool
  (\<^verbatim>\<open>pool.py\<close>), which builds it at first use and refreshes its data when the version tag is old,
  evaluates on it, gives it back (a poisoned one is replaced) and simplifies the result set. An
  instance (\<^verbatim>\<open>instance.py\<close>) ties together a wasmtime runtime (\<^verbatim>\<open>runtime.py\<close>), the typed ABI
  adapter (\<^verbatim>\<open>abi.py\<close>), the memory codec (\<^verbatim>\<open>memory.py\<close>), the data manager with its heap
  checkpoints (\<^verbatim>\<open>data.py\<close>) and the evaluator (\<^verbatim>\<open>evaluator.py\<close>); while the guest runs it can call
  back into the host, which dispatches to a registered builtin (\<^verbatim>\<open>builtins.py\<close>). A ticker thread
  advances the epoch of the engine so that deadlines fire. Errors are the typed hierarchy of
  \<^verbatim>\<open>errors.py\<close>; the configuration is \<open>PolicyConfig\<close> of \<^verbatim>\<open>types.py\<close>.

  \<^bold>\<open>Theories and sources.\<close>
  \<^item> \<open>Prelude\<close>: actions (state and exception), the judgements \<open>keeps\<close> and \<open>raises_in\<close> with their
    rule collections, and list lemmas. \<open>Simulation\<close>: the locale of functional refinement.
  \<^item> \<open>Errors\<close>: \<^verbatim>\<open>errors.py\<close>, and exception objects with cause and context links.
  \<^item> \<open>Config\<close>: \<^verbatim>\<open>types.py\<close>.
  \<^item> \<open>Wasm\<close>: the interface of the wasmtime package, a parameter of every definition that uses it.
  \<^item> \<open>Runtime\<close>, \<open>Ticker\<close>, \<open>Py_Float\<close>: \<^verbatim>\<open>runtime.py\<close>; the float arithmetic of the tick budget.
  \<^item> \<open>Abi\<close>: \<^verbatim>\<open>abi.py\<close>.
  \<^item> \<open>Json\<close>, \<open>Encoding\<close>, \<open>Json_Roundtrip\<close>, \<open>Json_Accept\<close>: what the SDK uses of the standard
    library's \<^verbatim>\<open>json\<close> module and text codecs, as \<^verbatim>\<open>memory.py\<close> calls them.
  \<^item> \<open>Codec\<close>: \<^verbatim>\<open>memory.py\<close>. \<open>Data\<close>: \<^verbatim>\<open>data.py\<close>. \<open>Evaluator\<close>: \<^verbatim>\<open>evaluator.py\<close>.
  \<^item> \<open>Builtins\<close>: \<^verbatim>\<open>builtins.py\<close>, default builtins and registry.
  \<^item> \<open>Instance\<close>: \<^verbatim>\<open>instance.py\<close>. \<open>Pool\<close>: \<^verbatim>\<open>pool.py\<close>. \<open>Policy\<close>: \<^verbatim>\<open>policy.py\<close>, each as one caller sees it.
  \<^item> \<open>Policy_Concurrent\<close>: \<^verbatim>\<open>pool.py\<close> and \<^verbatim>\<open>policy.py\<close> under several threads, cut at every access to
    shared state; a step relation on program counters.
  \<^item> \<open>Policy_Runs\<close>: concrete schedules, by an executable form of these steps that is sound and complete.
    \<open>Policy_Progress\<close>: the calls of these threads finish. \<open>Policy_Counters\<close>: the counters of the pool.
  \<^item> \<open>Policy_Data\<close>: from the published document to the guest, over the life of a policy.
    \<open>Policy_Metadata\<close>: entrypoints, builtins and ABI version, from the guest's declaration.
  \<^item> \<open>Policy_Refinement\<close>: the facade of theory \<open>Policy\<close> refines the threads of \<open>Policy_Concurrent\<close>.
  \<^item> \<open>Fixtures\<close>: \<^verbatim>\<open>src/scripts/build_fixtures.py\<close>. \<open>Package\<close>: the version lookup of \<^verbatim>\<open>__init__.py\<close>.
  \<^item> \<open>Examples\<close>: the programs \<^verbatim>\<open>basic_authz.py\<close>, \<^verbatim>\<open>custom_builtin.py\<close> and \<^verbatim>\<open>yaml_builtin.py\<close> as clients of
    the facade, with the doubling of a float on its bits; \<open>Example_Outcomes\<close>: what they print.
    \<open>Example_Pooled\<close>: \<^verbatim>\<open>pooled_eval.py\<close>, a main thread and sixteen workers whose calls are threads of
    \<open>Policy_Concurrent\<close>; \<open>Example_Schedule\<close>: how it starts, and a concrete run. \<open>Example_Demo\<close>: the
    authorization program on the guest of \<open>Guest\<close>.
  \<^item> \<open>Guest\<close>: a concrete executable guest, on which the hypotheses about guests are shown to hold.

  \<^bold>\<open>State and operations.\<close> Each class is a record with the fields of its constructor; a method is a
  definition of the same name (prefixed where names clash: \<open>inst_evaluate\<close>, \<open>policy_close\<close>,
  \<open>pool_close\<close>, \<open>ticker_close\<close>). Stateful methods are actions from a state to a result (an
  exception or a value) and a new state. The record of an instance extends that of its data
  manager, which holds the store. Which native stores are open is explicit in \<open>native\<close>. The
  registry keeps every dictionary it ever published, so that a snapshot is an address and
  aliasing is visible.

  \<^bold>\<open>Interfaces.\<close> \<open>instance_provider\<close> (theory \<open>Pool\<close>) is what the pool relies on of its callbacks,
  interpreted as \<open>pol\<close> on the policy's own factory, snapshot and refresh functions;
  \<open>numbered_provider\<close> (theory \<open>Policy_Refinement\<close>) extends it by the numbering of the stores, with
  the simulation of the pool by threads, and is interpreted as \<open>npol\<close> on the same; \<open>wasm_entry\<close>
  (theory \<open>Evaluator\<close>) is the evaluator's contract with the owner whose \<open>on_enter_wasm\<close> it calls,
  interpreted as \<open>owner\<close> on the instance; \<open>simulation\<close> is interpreted as \<open>reg\<close> on the registry,
  with a finite map as its specification.

  \<^bold>\<open>What is shown below.\<close> C1 to C6: exclusive use of instances, capacity, freshness of data,
  termination of calls without deadlock, the life of the ticker, and the counters, for all
  interleavings of any number of threads. C7 to C16: what an evaluation answers from the bytes of a
  package on, native resources over any sequence of calls, refinement of the thread model, data
  updates, errors, entrypoints, results and their type. C17 to C20: one evaluation, its
  faithfulness, what it leaves behind, and the typing and recovery of its errors. C21 to C26:
  poisoning, loading, construction, builtin dispatch, the registry and \<open>sprintf\<close>. C27 to C32:
  construction of a runtime, diagnostics, ABI checks, deadlines, and the ticker thread. C33 to C36:
  the codec and JSON. C37: a behaviour of shutdown the code does not exclude. C38: the fixture
  builder. C39 and C40: two of the example programs. The theories of the components have more:
  \<open>stores_exceed_slots\<close>, \<open>reload_data_outcome\<close>,
  \<open>config_checked\<close>, \<open>json_loads_type\<close>, \<open>with_policy_closes\<close>, \<open>package_version_raises\<close>,
  \<open>opa_version_blank\<close>, \<open>unbounded_timeout\<close>, \<open>load_data_raw\<close>, \<open>nan_accepted\<close>,
  \<open>custom_builtin_outcome\<close>, \<open>yaml_builtin_outcome\<close>, \<open>double_float_value\<close>, \<open>pooled_exceeds\<close>,
  \<open>fixture_file_built\<close> (the programs read the files the fixture builder writes).

  \<^bold>\<open>Hypotheses about guests.\<close> \<open>memory_ok\<close> (reads and writes act on a byte array), \<open>heap_ok\<close> (the heap
  pointer can be read and set), \<open>malloc_ok\<close> (an allocated block lies below the new heap pointer),
  \<open>working_guest\<close> (these three, for every adapter of the guest) and \<open>deadline_ok\<close> (setting a
  deadline sets it) are what the wasmtime and OPA documentation says of their operations; a
  theorem that needs one names it, and \<open>Guest\<close> satisfies them all. \<open>float_text_ok\<close> says that the
  text of a finite float reads back as the same float. \<open>opa_writes\<close> and \<open>tmp_new\<close> say that the OPA tool
  writes only the bundle it is told to write and that a temporary directory is new. \<open>Guest\<close> also runs the whole model, from
  the bytes of a package to a decision, by rewriting.

  \<^bold>\<open>Bounds and fuel.\<close> The JSON parser is started with fuel \<open>2 * length s + 1\<close>; \<open>json_parse_fuel\<close> shows
  that more makes no difference. The retry loop of the runtime is a \<open>partial_function\<close> that C27
  shows to be total. \<open>ie_depth\<close> is how deep guest calls and host callbacks may nest in the native
  stack; no theorem depends on its value. The sixteen threads of
  \<open>Example_Pooled\<close> take at most 388 steps, by a measure. All other loops are total functions. Python integers
  are unbounded integers; bytes are 8-bit words; floats are 64-bit patterns. In the concurrent
  model one evaluation by the guest, one construction and one reload are single steps that end.

  \<^bold>\<open>Not modelled.\<close> Logging; the values interpolated into error messages; the interpreter's recursion
  and integer-digit limits; memory exhaustion; PyYAML, the \<open>%\<close> operator and \<open>repr\<close>, which are
  parameters, as are the files that \<open>from_wasm_file\<close> reads and the OPA command line tool, tar reader
  and temporary directory of the fixture builder; the accessors that hand out a field of a runtime,
  instance or data manager; the re-exports of \<^verbatim>\<open>__init__.py\<close>. A section under a lock is one step of the
  concurrent model; what happens inside an instance is nondeterministic there.
\<close>

section \<open>Many threads on one policy\<close>

lemma reachable_all: "reachable n k (sh, th) \<Longrightarrow> all_inv (sh, th)"
  by (rule reachable_inv)

lemma reachable_loan: "reachable 1 2 (lent, [Loan 0 0, Ready])"
  using loan_run by (simp add: reachable_def)



text \<open>
  C2. Capacity. The threads that hold a slot of the pool never outnumber its slots, also around
  \<open>close\<close>; and while the pool is open no slot is ever lost: the idle slots and the slots in the
  hands of threads add up to the size of the pool.
\<close>

theorem pool_capacity:
  assumes "reachable n k (sh, th)"
  shows "num holds th \<le> sh_max sh \<and> length (sh_idle sh) \<le> sh_max sh
    \<and> (sh_pool_closed sh \<or> length (sh_idle sh) + num holds th = sh_max sh)"
proof -
  have inv: "capacity_inv (sh, th)" using reachable_all [OF assms] by (simp add: all_inv_def)
  have "real_slots (sh_idle sh) = length (sh_idle sh)" if "CloseSentinel \<notin> set (sh_idle sh)"
  proof -
    have "filter (\<lambda>s. s \<noteq> CloseSentinel) (sh_idle sh) = sh_idle sh" using that by (intro filter_True) auto
    then show ?thesis by simp
  qed
  then show ?thesis using inv by (auto simp: capacity_inv_def)
qed

theorem pool_capacity_witness:
  "num holds [Loan 0 0, Ready] \<le> sh_max lent \<and> length (sh_idle lent) + num holds [Loan 0 0, Ready] = sh_max lent"
  using pool_capacity [OF reachable_loan] by simp

text \<open>
  C3. Fresh data. The data version of an instance that is on loan to an evaluation is at least
  the version the policy had when that call of \<open>evaluate\<close> began: once \<open>set_data\<close> has
  returned, no evaluation that starts afterwards runs on older data, whatever the interleaving.
\<close>

theorem evaluation_data_fresh:
  assumes "reachable n k (sh, th)" and "Loan v i \<in> set th"
  shows "v \<le> sh_inst_version sh i"
proof -
  have "fresh_inv (sh, th)" using reachable_all [OF assms(1)] by (simp add: all_inv_def)
  then show ?thesis using assms(2) by (fastforce simp: fresh_inv_def)
qed

theorem evaluation_data_fresh_witness: "0 \<le> sh_inst_version lent 0 \<and> Loan 0 0 \<in> set [Loan 0 0, Ready]"
  using evaluation_data_fresh [OF reachable_loan, of 0 0] by simp

text \<open>
  C4. Every call finishes. Whatever the schedule, the calls under way take at most three steps per
  slot and eighteen per thread together, an evaluation by the guest counted as one step; and as
  long as one is under way, some call can take a step that is not a timeout. So neither a wait
  for a free instance, nor one that \<open>close\<close> interrupts, nor the lock of \<open>close\<close> is a deadlock.
\<close>

theorem calls_finish:
  assumes "reachable n k (sh, th)"
  shows "(\<forall>m st'. (call_step ^^ m) (sh, th) st' \<longrightarrow> m \<le> 3 * n + 18 * k)
    \<and> ((\<exists>p \<in> set th. p \<noteq> Ready) \<longrightarrow> (\<exists>t < length th. th ! t \<noteq> Ready
         \<and> (\<exists>sh' p'. tstep sh (th ! t) sh' p' \<and> \<not> (p' = Exit \<and> (\<exists>v. th ! t = Get v)))))"
proof -
  have inv: "all_inv (sh, th)" by (rule reachable_all [OF assms])
  have "sh_max sh = n" "length th = k" using assms run_max run_threads by (auto simp: reachable_def)
  then have "work (sh, th) \<le> 3 * n + 18 * k"
    using work_bound [of sh th] inv by (simp add: all_inv_def capacity_inv_def)
  then have "m \<le> 3 * n + 18 * k" if "(call_step ^^ m) (sh, th) st'" for m st'
    using call_steps_work [OF that] by linarith
  then show ?thesis using call_progress [OF inv reachable_lock [OF assms]] by blast
qed

lemma reachable_waiting: "reachable 1 2 (lent\<lparr>sh_active := 2\<rparr>, [Loan 0 0, Get 0])"
proof -
  have "replay [(1, Go), (1, Go)] (lent, [Loan 0 0, Ready]) = Some (lent\<lparr>sh_active := 2\<rparr>, [Loan 0 0, Get 0])"
    by (simp add: replay_simps)
  from lent_replay [OF this] show ?thesis by (simp add: reachable_def)
qed

theorem calls_finish_witness:
  "\<exists>t < 2. [Loan 0 0, Get 0] ! t \<noteq> Ready
     \<and> (\<exists>sh' p'. tstep (lent\<lparr>sh_active := 2\<rparr>) ([Loan 0 0, Get 0] ! t) sh' p' \<and> \<not> (p' = Exit \<and> (\<exists>v. [Loan 0 0, Get 0] ! t = Get v)))"
  using calls_finish [OF reachable_waiting] by (auto simp: numeral_2_eq_2)

lemma ticker_outlives_evaluations:
  assumes "reachable n k (sh, th)" and "p \<in> set th" and "counted p" and "p \<noteq> Exit" and "\<And>v. p \<noteq> Check v"
  shows "\<not> sh_ticker_stopped sh"
  using reachable_all [OF assms(1)] assms(2-5) unfolding all_inv_def lifecycle_inv_def by fastforce

lemma shutdown_stops_ticker:
  assumes "reachable n k (sh, th)" and "sh_closed sh" and "\<forall>p \<in> set th. p = Ready"
  shows "sh_ticker_stopped sh \<and> sh_active sh = 0 \<and> sh_pool_closed sh"
proof -
  have inv: "lifecycle_inv (sh, th)" "quit_inv (sh, th)" using reachable_all [OF assms(1)] by (simp_all add: all_inv_def)
  have "num counted th = 0" unfolding num_zero using assms(3) by auto
  moreover have "Stop_ticker \<notin> set th" using assms(3) by auto
  ultimately show ?thesis using inv assms(2) by (auto simp: lifecycle_inv_def quit_inv_def)
qed

text \<open>
  C5. The life of the ticker. While any evaluation is past its first look at the closed flag
  (waiting, building, refreshing, running or releasing an instance) the epoch ticker has not been
  stopped, so that its deadline can still fire after \<open>close\<close>; and when the policy is closed and
  every call has returned, the ticker has been told to stop and no evaluation is counted as active:
  neither \<open>close\<close> nor the last evaluation leaves it to the other.
\<close>

theorem ticker_lifetime:
  assumes "reachable n k (sh, th)"
  shows "((\<exists>p \<in> set th. counted p \<and> p \<noteq> Exit \<and> (\<forall>v. p \<noteq> Check v)) \<longrightarrow> \<not> sh_ticker_stopped sh)
    \<and> (sh_closed sh \<and> (\<forall>p \<in> set th. p = Ready) \<longrightarrow> sh_ticker_stopped sh \<and> sh_active sh = 0 \<and> sh_pool_closed sh)"
  using ticker_outlives_evaluations [OF assms] shutdown_stops_ticker [OF assms] by blast

theorem ticker_lifetime_witness:
  "\<not> sh_ticker_stopped lent \<and> counted (Loan 0 0)
     \<and> (\<exists>sh. reachable 1 2 (sh, [Ready, Ready]) \<and> sh_closed sh \<and> sh_ticker_stopped sh \<and> sh_active sh = 0)"
proof -
  obtain sh where "reachable 1 2 (sh, [Ready, Ready])" "sh_closed sh"
    using release_race_run by (auto simp: reachable_def)
  then show ?thesis using ticker_lifetime [of 1 2 sh "[Ready, Ready]"] ticker_lifetime [OF reachable_loan] by auto
qed

text \<open>
  C6. The counters account for the instances. While the pool is open, the instances that were
  created and not recreated are exactly those in the idle queue and those in the hands of a thread
  that has not given them up, under every interleaving; so \<open>instances_created\<close> exceeds
  \<open>instances_recreated\<close> by at most the size of the pool.
\<close>

theorem counters_account:
  assumes "reachable n k (sh, th)" and "\<not> sh_pool_closed sh"
  shows "sh_created sh = num is_instance (sh_idle sh) + num live th + sh_recreated sh
    \<and> sh_created sh \<le> sh_recreated sh + n"
proof -
  have "sh_max sh = n" using assms(1) run_max by (auto simp: reachable_def)
  then show ?thesis using reachable_counts [OF assms] by linarith
qed

theorem counters_account_witness: "sh_created lent = num live [Loan 0 0, Ready] + sh_recreated lent"
  using counters_account [OF reachable_loan] by simp

section \<open>The facade\<close>



text \<open>
  C8. Native resources over the life of a policy. A constructor that fails leaves every store it
  opened closed. A policy that was built, after any sequence of calls of \<open>set_data\<close>,
  \<open>register_builtin\<close>, \<open>evaluate\<close> (failing ones included) and \<open>close\<close>, has open exactly the
  stores of the healthy idle instances of its pool, at most one per slot, beside those that were
  open before; and closing it releases them all and stops the ticker.
\<close>

theorem policy_resources:
  assumes "native_wf nt"
  shows "case from_wasm_bytes w pt yaml depth config wasm_bytes nt of
      (Inl e, nt') \<Rightarrow> nt_open nt' = nt_open nt
    | (Inr (pe, p), nt') \<Rightarrow> nt_open nt' = nt_open nt \<and> (\<forall>calls.
        let q = fold (policy_step pe) calls p; c = policy_close pe q
        in policy_stores q = nt_open nt \<union> i_id ` set (policy_idle q)
           \<and> length (policy_idle q) \<le> pl_max_size (ps_pool (po_state q))
           \<and> (\<forall>i \<in> set (policy_idle q). \<not> i_poisoned i)
           \<and> policy_stores c = nt_open nt \<and> tk_stop (wo_ticker (pw_world (ps_world (po_state c)))))"
proof -
  obtain r nt' where f: "from_wasm_bytes w pt yaml depth config wasm_bytes nt = (r, nt')" by fastforce
  note i = from_wasm_bytes_inv [OF assms f]
  show ?thesis
  proof (cases r)
    case (Inl e)
    then show ?thesis using f i by simp
  next
    case (Inr pp)
    obtain pe p where p: "pp = (pe, p)" by fastforce
    have "policy_inv pe (nt_open nt) (fold (policy_step pe) calls p)" for calls
      using i(3) [of pe p] Inr p policy_inv_calls by blast
    note s = policy_inv_stores [OF this]
    show ?thesis unfolding f Inr p prod.case sum.case Let_def by (intro conjI allI i(2) s)
  qed
qed

theorem policy_resources_witness:
  "native_wf no_stores \<and> (case from_wasm_bytes (g_wasm 2) demo_text None 3 None [0] no_stores of
      (Inl e, nt') \<Rightarrow> nt_open nt' = {}
    | (Inr (pe, p), nt') \<Rightarrow> policy_stores (policy_close pe p) = {})"
  using policy_resources [of no_stores "g_wasm 2" demo_text None 3 None "[0]"]
  by (auto simp: Let_def split: prod.splits sum.splits dest: spec [of _ "[]"])

text \<open>
  C9. The facade refines the model of many threads. Any sequence of calls on a policy built from
  the bytes of a package, in full detail, is a run of threads of the interleaving model: it leads
  from the initial state to one with every thread at rest that agrees with the policy on the idle
  queue slot by slot, the data version, the version and mark of every idle instance, the open
  stores, the counters, the closed flags, the active count and the ticker. What holds of every
  reachable state there, such as the account of the counters, therefore holds of the facade.
\<close>

theorem policy_refines_threads:
  assumes "native_wf nt" and "from_wasm_bytes w pt yaml depth config wasm_bytes nt = (Inr (pe, p), nt')"
  shows "let q = fold (policy_step pe) calls p in
      (\<exists>sh. reachable (nat (pool_size (pe_config pe))) (Suc k) (sh, replicate (Suc k) Ready) \<and> mirrors pe (nt_open nt) q sh)
    \<and> (po_closed q \<or> instances_created q = length (policy_idle q) + instances_recreated q)"
  using client_run(1) [OF assms, of k calls] client_run(2) [OF assms, of calls] unfolding Let_def by blast

theorem policy_refines_threads_witness:
  "\<exists>pe p nt' sh. from_wasm_bytes (g_wasm 2) demo_text None 0 (Some demo_config) [0] no_stores = (Inr (pe, p), nt')
     \<and> reachable (nat (pool_size (pe_config pe))) 2 (sh, [Ready, Ready])
     \<and> mirrors pe {} (policy_close pe (snd (policy_evaluate pe (PBytes [49]) None p))) sh"
proof -
  obtain pe p nt' where b: "from_wasm_bytes (g_wasm 2) demo_text None 0 (Some demo_config) [0] no_stores = (Inr (pe, p), nt')"
    using demo_policy_run by (auto split: prod.splits sum.splits)
  have "native_wf no_stores" by simp
  from policy_refines_threads [OF this b, of "[Evaluate (PBytes [49]) None, Close]" 1] b show ?thesis
    by (auto simp: Let_def numeral_2_eq_2)
qed




text \<open>
  C12. What \<open>set_data\<close> raises: a closed policy refuses, a document that cannot be serialised, is
  not valid JSON or is too large gives \<open>OpaInvalidInputError\<close>. The one exception is a text with
  a surrogate code point, which \<open>str.encode\<close> refuses outside the \<open>try\<close>: its
  \<open>UnicodeEncodeError\<close> reaches the caller.
\<close>

theorem set_data_errors:
  assumes "set_data pe data p = (Inl e, q)"
  shows "exc_class_of e = (if po_closed p then OpaPolicyClosedError
    else if (\<exists>s. data = PStr s \<and> (\<exists>c \<in> set s. is_surrogate c)) then UnicodeEncodeError else OpaInvalidInputError)"
proof (cases "po_closed p")
  case True
  then show ?thesis using assms by (auto simp: set_data_def raise_if_closed_def act_simps)
next
  case False
  then have "serialise_data (pt_float (pe_text pe)) (pe_config pe) data = Inl e"
    using assms by (auto simp: set_data_def raise_if_closed_def act_simps split: sum.splits)
  then show ?thesis using False by (simp add: serialise_data_class)
qed

theorem set_data_errors_witness:
  "\<exists>e q. set_data demo_env (PStr [55296]) demo_policy = (Inl e, q) \<and> exc_class_of e = UnicodeEncodeError"
proof -
  obtain r q where s: "set_data demo_env (PStr [55296]) demo_policy = (r, q)" by fastforce
  have "\<exists>e. r = Inl e" using s
    by (auto simp: set_data_def raise_if_closed_def act_simps serialise_data_def utf8_encode_def is_surrogate_def)
  then obtain e where "r = Inl e" ..
  with s set_data_errors [of demo_env "PStr [55296]" demo_policy e q] show ?thesis by (auto simp: is_surrogate_def)
qed





text \<open>
  C15. Decisions. A defined decision is returned exactly for a result set whose first element is
  an object with a \<open>result\<close> member, and is that member (a JSON \<open>null\<close> included); the empty
  result set is undefined; every other shape is an error unless the configuration makes it
  undefined; and strictness turns undefined decisions into \<open>OpaEvaluationError\<close>.
\<close>

theorem simplify_result_spec:
  "(simplify_result c raw = Inr (Defined v) \<longleftrightarrow>
      (\<exists>kvs rest. raw = PList (PDict kvs # rest) \<and> map_of kvs (PStr (ustr ''result'')) = Some v))
   \<and> (simplify_result c raw = Inr UNDEFINED \<longleftrightarrow> \<not> strict_result c \<and> (raw = PList []
      \<or> \<not> strict_result_shape c \<and> (\<nexists>v. simplify_result c raw = Inr (Defined v))))
   \<and> (case simplify_result c raw of Inl e \<Rightarrow> exc_class_of e = OpaEvaluationError | Inr d \<Rightarrow> True)"
proof (intro conjI)
  show "simplify_result c raw = Inr UNDEFINED \<longleftrightarrow> \<not> strict_result c \<and> (raw = PList []
      \<or> \<not> strict_result_shape c \<and> (\<nexists>v. simplify_result c raw = Inr (Defined v)))"
    unfolding simplify_result_def by (auto split: option.splits)
  show "case simplify_result c raw of Inl e \<Rightarrow> exc_class_of e = OpaEvaluationError | Inr d \<Rightarrow> True"
    using simplify_result_error by (cases "simplify_result c raw") auto
qed (rule simplify_result_defined)

text \<open>
  C16. The type of a decision. Whatever the guest leaves in its memory, a defined decision is a JSON
  value: built from \<open>None\<close>, bools, numbers, text, lists and dictionaries with distinct text keys.
  An undefined one is returned only when the configuration is not strict.
\<close>

theorem decisions_are_json:
  "case policy_evaluate pe v entry p of
      (Inr (Defined d), q) \<Rightarrow> loaded d
    | (Inr UNDEFINED, q) \<Rightarrow> \<not> strict_result (pe_config pe)
    | (Inl e, q) \<Rightarrow> True"
proof (cases "evaluate_raw pe v entry p")
  case (Pair r q)
  show ?thesis
  proof (cases r)
    case (Inr raw)
    with Pair have "loaded raw" by (simp add: evaluate_raw_loaded)
    note s = simplify_result_loaded [OF this, of "pe_config pe"]
    show ?thesis using Pair Inr s
      by (auto simp: policy_evaluate_def act_simps simplify_result_def split: sum.splits decision.splits option.splits if_splits)
  qed (use Pair in \<open>simp add: policy_evaluate_def act_simps\<close>)
qed

section \<open>One evaluation\<close>

text \<open>
  C17. What an evaluation returns is the guest's answer to the caller's input. On success the guest
  was called, with the data document of the instance, on exactly the serialised input, which lay
  whole below the scratch area handed to the guest; and the value returned is the parse of the
  NUL-terminated text the guest answered, which respects the scan and result limits.
\<close>

theorem evaluation_faithful:
  assumes "memory_ok (ab_wasm (cd_abi (inst_codec ie i))) mem" and "heap_ok (cd_abi (inst_codec ie i)) hp"
    and "malloc_ok (cd_abi (inst_codec ie i)) hp"
  shows "case inst_evaluate ie v ep i of
      (Inr result, i') \<Rightarrow> \<exists>raw. encode_input (inst_codec ie i) v (max_input_bytes (ie_config ie))
             (parse_raw_json_input (ie_config ie)) = Inr raw
           \<and> faithful_eval (inst_evaluator ie i) mem raw ep (data_addr i) result
    | (Inl e, i') \<Rightarrow> True"
proof (cases "inst_evaluate ie v ep i")
  case (Pair r i')
  show ?thesis
  proof (cases r)
    case (Inr result)
    with Pair obtain raw where "encode_input (inst_codec ie i) v (max_input_bytes (ie_config ie))
        (parse_raw_json_input (ie_config ie)) = Inr raw" "faithful_eval (inst_evaluator ie i) mem raw ep (data_addr i) result"
      using inst_evaluate_faithful [OF assms] by metis
    then show ?thesis using Pair Inr by simp
  qed (use Pair in simp)
qed

theorem evaluation_faithful_witness:
  "\<exists>raw. encode_input (inst_codec g_env g_inst) (PBytes [49]) (max_input_bytes (ie_config g_env))
         (parse_raw_json_input (ie_config g_env)) = Inr raw
       \<and> faithful_eval (inst_evaluator g_env g_inst) g_mem raw 0 (data_addr g_inst) (PList [PDict [(PStr (ustr ''result''), PInt 1)]])"
proof -
  have "case inst_evaluate g_env (PBytes [49]) 0 g_inst of
      (Inr result, i') \<Rightarrow> \<exists>raw. encode_input (inst_codec g_env g_inst) (PBytes [49]) (max_input_bytes (ie_config g_env))
             (parse_raw_json_input (ie_config g_env)) = Inr raw
           \<and> faithful_eval (inst_evaluator g_env g_inst) g_mem raw 0 (data_addr g_inst) result
    | (Inl e, i') \<Rightarrow> True"
    by (rule evaluation_faithful [where hp = g_heap]) (simp_all add: g_memory_ok g_heap_ok g_malloc_ok)
  then show ?thesis using demo_instance_run by (auto split: prod.splits sum.splits)
qed

text \<open>
  C18. A successful evaluation leaves the instance as it found it: the document, its checkpoint and
  its version are unchanged, the guest heap is back at the checkpoint, so that nothing
  accumulates over evaluations, and an armed deadline has been pushed out of reach.
\<close>

theorem evaluation_leaves_clean:
  assumes "heap_ok (cd_abi (inst_codec ie i)) hp"
    and "deadline_ok (ab_wasm (cd_abi (inst_codec ie i))) hp dl" and "dm_inv i"
  shows "case inst_evaluate ie v ep i of
      (Inr result, i') \<Rightarrow> same_doc i i' \<and> i_data_version i' = i_data_version i
         \<and> hp (dm_store i') = data_heap_ptr i'
         \<and> (i_deadline_ticks i = None \<or> dl (dm_store i') = NO_DEADLINE_TICKS)
    | (Inl e, i') \<Rightarrow> True"
proof (cases "inst_evaluate ie v ep i")
  case (Pair r i')
  show ?thesis
  proof (cases r)
    case (Inr result)
    let ?i = "i\<lparr>i_entered_wasm := False\<rparr>"
    have "evaluate (inst_evaluator ie i) (Some mark_entered_wasm) v ep ?i = (Inr result, i')"
      using Pair Inr by (auto simp: inst_evaluate_def act_simps split: prod.splits sum.splits)
    then obtain raw d1 where g: "run_guest (inst_evaluator ie i) None raw ep d1 = (Inr result, i')" and d: "same_doc ?i d1"
      by (rule owner.evaluate_success)
    have inv: "dm_inv d1" using d assms(3) by (simp add: same_doc_def dm_inv_def)
    have "heap_ok (ev_abi (inst_evaluator ie i)) hp" "deadline_ok (ab_wasm (ev_abi (inst_evaluator ie i))) hp dl"
      using assms by (simp_all add: inst_evaluator_def)
    note s = run_guest_success [OF this inv g]
    have sd: "same_doc i i'" by (rule inst_evaluate_spec(3) [OF Pair])
    have "i_data_version i' = i_data_version i" by (rule inst_evaluate_spec(2) [OF Pair])
    moreover have "hp (dm_store i') = data_heap_ptr i'" using s(1) sd d by (simp add: same_doc_def)
    moreover have "i_deadline_ticks i = None \<or> dl (dm_store i') = NO_DEADLINE_TICKS"
      using s(2) by (cases "i_deadline_ticks i") (auto simp: inst_evaluator_def)
    ultimately show ?thesis using Pair Inr sd by simp
  qed (use Pair in simp)
qed

theorem evaluation_leaves_clean_witness:
  "case inst_evaluate g_env (PBytes [49]) 0 g_inst of
      (Inr result, i') \<Rightarrow> same_doc g_inst i' \<and> g_heap (dm_store i') = data_heap_ptr i'
    | (Inl e, i') \<Rightarrow> False"
  using evaluation_leaves_clean [of g_env g_inst g_heap g_dl "PBytes [49]" 0] g_heap_ok g_deadline_ok demo_instance_run
  by (auto split: prod.splits sum.splits)

text \<open>
  C19. Every \<open>Exception\<close> an evaluation raises is one of the SDK's typed errors, whatever the guest
  and the host builtins did; only what is not an \<open>Exception\<close> (a keyboard interrupt) passes as it
  is. The guest is relied on only for a heap pointer that can be set back.
\<close>

theorem evaluation_errors_typed:
  assumes "heap_ok (ev_abi ev) hp" and "dm_inv d"
  shows "case evaluate ev on_enter v ep d of
      (Inl e, d') \<Rightarrow> is_exception (exc_class_of e) \<longrightarrow> is_opa_error (exc_class_of e)
    | (Inr result, d') \<Rightarrow> True"
proof (cases "encode_input (ev_codec ev) v (ev_max_input_bytes ev) (ev_validate_input ev)")
  case (Inl e)
  have "is_exception (exc_class_of e)" using encode_input_raises [OF Inl] by auto
  then obtain s e' where "eval_failed ev False e d = (Inl e', d\<lparr>dm_store := s\<rparr>)" "is_opa_error (exc_class_of e')"
    by (rule eval_failed_before_entry [OF assms])
  then show ?thesis using Inl by (simp add: evaluate_def)
next
  case (Inr raw)
  from raises_inD [OF evaluate_entered_typed [OF this, of on_enter ep]] show ?thesis
    by (auto split: prod.splits sum.splits)
qed

theorem evaluation_errors_typed_witness:
  "\<exists>e d'. evaluate g_ev None (PObj 0) 0 g_dm = (Inl e, d') \<and> is_opa_error (exc_class_of e)"
proof -
  obtain e0 where c: "encode_input (ev_codec g_ev) (PObj 0) (ev_max_input_bytes g_ev) (ev_validate_input g_ev) = Inl e0"
    "exc_class_of e0 = OpaInvalidInputError"
    by (simp add: encode_input_def coerce_to_json_bytes_def dumps_def)
  obtain s e' where f: "eval_failed g_ev False e0 g_dm = (Inl e', g_dm\<lparr>dm_store := s\<rparr>)"
    "is_opa_error (exc_class_of e0) \<Longrightarrow> exc_class_of e' = exc_class_of e0"
    by (rule eval_failed_before_entry [of g_ev g_heap g_dm e0]) (use c g_heap_ok in simp_all)
  have "case evaluate g_ev None (PObj 0) 0 g_dm of
      (Inl e, d') \<Rightarrow> is_exception (exc_class_of e) \<longrightarrow> is_opa_error (exc_class_of e) | (Inr result, d') \<Rightarrow> True"
    by (rule evaluation_errors_typed [where hp = g_heap]) (simp_all add: g_heap_ok)
  then show ?thesis using c f by (simp add: evaluate_def)
qed

text \<open>
  C20. Errors that cross the guest are recovered. When a trap reaches the evaluator after the guest
  was entered, the caller gets an SDK error that is on the cause and context chain of the trap if
  there is any (such as the error of a host builtin, or \<open>opa_abort\<close>), however the links of the
  chain loop, and \<open>OpaEvaluationError\<close> if there is none; the instance is not touched again.
\<close>

theorem trapped_error_recovered:
  assumes "is_exception (exc_class_of e)" and "exc_class_of e \<notin> set PASSTHROUGH_ERRORS"
  shows "\<exists>x. eval_failed ev True e d = (Inl x, d)
    \<and> (if \<exists>j < length (exc_objs e). chain_reach (exc_objs e) (exc_root e) j \<and> is_opa_error (eo_class (exc_objs e ! j))
       then \<exists>j < length (exc_objs e). chain_reach (exc_objs e) (exc_root e) j
          \<and> is_opa_error (eo_class (exc_objs e ! j)) \<and> exc_class_of x = eo_class (exc_objs e ! j)
       else exc_class_of x = OpaEvaluationError)"
proof (cases "find_typed_in_chain e")
  case (Some j)
  note j = find_typed_Some [OF Some]
  have "eval_failed ev True e d = (Inl (reraise_from j e), d)"
    using assms Some by (simp add: eval_failed_def reset_heap_if_safe_def act_simps)
  then show ?thesis using j exc_class_of_reraise [of j e] by auto
next
  case None
  have "\<not> is_opa_error (eo_class (exc_objs e ! j))" if "j < length (exc_objs e)" "chain_reach (exc_objs e) (exc_root e) j" for j
    using chain_find_None_reach [OF None [unfolded find_typed_in_chain_def] that(2,1)] .
  then show ?thesis using assms None
    by (auto simp: eval_failed_def reset_heap_if_safe_def act_simps)
qed

theorem trapped_error_recovered_witness:
  "\<exists>x. eval_failed g_ev True (raise_from (Trap None) ''error while executing'' (new_exc OpaBuiltinError ''failed'')) g_dm = (Inl x, g_dm)
     \<and> exc_class_of x = OpaBuiltinError"
proof -
  define e where "e = raise_from (Trap None) ''error while executing'' (new_exc OpaBuiltinError ''failed'')"
  have objs: "length (exc_objs e) = 2" "exc_root e = 1" "eo_class (exc_objs e ! 0) = OpaBuiltinError"
    "eo_class (exc_objs e ! 1) = Trap None" "chain_next (exc_objs e) 1 = Some 0" "exc_class_of e = Trap None"
    by (simp_all add: e_def raise_from_def new_exc_def new_exc_text_def chain_next_def exc_class_of_def)
  have r: "chain_reach (exc_objs e) (exc_root e) 0"
    using chain_reach.link [OF chain_reach.here, of "exc_root e" "exc_objs e" 0] objs by simp
  have only: "j = 0" if "j < length (exc_objs e)" "is_opa_error (eo_class (exc_objs e ! j))" for j
    using that objs by (cases "j = 1") auto
  have "is_exception (exc_class_of e)" "exc_class_of e \<notin> set PASSTHROUGH_ERRORS"
    using objs(6) by (simp_all add: PASSTHROUGH_ERRORS_def)
  from trapped_error_recovered [OF this, of g_ev g_dm] obtain x where x: "eval_failed g_ev True e g_dm = (Inl x, g_dm)"
    "if \<exists>j < length (exc_objs e). chain_reach (exc_objs e) (exc_root e) j \<and> is_opa_error (eo_class (exc_objs e ! j))
       then \<exists>j < length (exc_objs e). chain_reach (exc_objs e) (exc_root e) j
          \<and> is_opa_error (eo_class (exc_objs e ! j)) \<and> exc_class_of x = eo_class (exc_objs e ! j)
       else exc_class_of x = OpaEvaluationError" by blast
  have "\<exists>j < length (exc_objs e). chain_reach (exc_objs e) (exc_root e) j \<and> is_opa_error (eo_class (exc_objs e ! j))"
    using r objs by (intro exI [of _ 0]) simp
  with x(2) only objs(3) have "exc_class_of x = OpaBuiltinError" by metis
  with x(1) show ?thesis unfolding e_def by blast
qed

section \<open>One instance\<close>

text \<open>
  C21. Poisoning. An evaluation marks the instance as poisoned exactly when an \<open>Exception\<close> is
  raised after the guest was entered, that is, after the input was serialised within its limit;
  a poisoned instance stays so; identity, data document and version tag are never changed. (A
  \<open>KeyboardInterrupt\<close> in the guest is no \<open>Exception\<close>: it leaves the instance unmarked.)
\<close>

theorem evaluate_poisons:
  "case inst_evaluate ie v ep i of (r, i') \<Rightarrow>
     (i_poisoned i' \<longleftrightarrow> i_poisoned i \<or> (\<exists>e raw. r = Inl e \<and> is_exception (exc_class_of e)
        \<and> encode_input (inst_codec ie i) v (max_input_bytes (ie_config ie)) (parse_raw_json_input (ie_config ie)) = Inr raw))
     \<and> same_id i i' \<and> same_doc i i' \<and> i_data_version i' = i_data_version i"
  using inst_evaluate_spec [of ie v ep i] by (auto split: prod.splits)

text \<open>
  C22. Loading data, on a guest whose heap pointer can be read and set. Success leaves the heap
  pointer at the recorded checkpoint, past the document, whose address is a proper pointer (\<open>0\<close>
  and the initial checkpoint for the cleared document); every \<open>Exception\<close> is an
  \<open>OpaDataError\<close>, and leaves no document and the heap as it was before any was loaded.
\<close>

theorem load_data_outcome:
  assumes "heap_ok (cd_abi cd) hp" and "dm_inv d"
  shows "case load_data cd limit data d of
      (Inr _, d') \<Rightarrow> hp (dm_store d') = data_heap_ptr d' \<and> dm_inv d'
        \<and> (if data = PNone then data_addr d' = 0 \<and> data_heap_ptr d' = initial_heap_ptr d' else 0 < data_addr d')
    | (Inl e, d') \<Rightarrow> is_exception (exc_class_of e) \<longrightarrow> exc_class_of e = OpaDataError \<and> data_addr d' = 0
        \<and> data_heap_ptr d' = initial_heap_ptr d' \<and> hp (dm_store d') = initial_heap_ptr d' \<and> dm_inv d'"
proof (cases "load_data cd limit data d")
  case (Pair r d')
  note h = load_data_heap [OF assms Pair]
  show ?thesis
  proof (cases r)
    case (Inr u)
    then show ?thesis using h Pair load_data_Inr [of cd limit data d d'] by (auto split: if_splits)
  qed (use h Pair in simp)
qed

theorem load_data_outcome_witness:
  "\<exists>d'. load_data g_codec 1000 PNone g_dm = (Inr (), d') \<and> g_heap (dm_store d') = 16 \<and> data_addr d' = 0"
proof -
  obtain s where s: "opa_heap_ptr_set (cd_abi g_codec) 16 g_store = (Inr (), s)"
    by (rule heap_set [OF g_heap_ok, of 16 g_host g_store]) simp_all
  define d' where "d' = g_dm\<lparr>dm_store := s, data_addr := 0, data_heap_ptr := 16\<rparr>"
  have r: "load_data g_codec 1000 PNone g_dm = (Inr (), d')"
    using s by (simp add: load_data_run g_dm_def d'_def)
  have "heap_ok (cd_abi g_codec) g_heap" by (simp add: g_heap_ok)
  from load_data_outcome [OF this g_dm_inv(1), where limit = 1000 and data = PNone] r show ?thesis by (simp add: d'_def g_dm_def)
qed

text \<open>
  C23. Building an instance opens one store and never loses it: if construction succeeds the
  instance owns a store of its own, is healthy, carries the version it was built with, and the
  ticker has been started if it has a deadline; if anything fails, every store that was opened on
  the way is closed and the ticker is untouched.
\<close>

theorem instance_construction:
  assumes "native_wf (wo_native wo)"
  shows "case instance_init ie fac epoch data version wo of
      (Inr i, wo') \<Rightarrow> nt_open (wo_native wo') = insert (i_id i) (nt_open (wo_native wo))
        \<and> i_id i \<notin> nt_open (wo_native wo) \<and> i_data_version i = version \<and> \<not> i_poisoned i
        \<and> wo_ticker wo' = (if i_deadline_ticks i \<noteq> None then ensure_running (wo_ticker wo) else wo_ticker wo)
    | (Inl e, wo') \<Rightarrow> nt_open (wo_native wo') = nt_open (wo_native wo) \<and> wo_ticker wo' = wo_ticker wo"
  using instance_init_spec [OF assms, of ie fac epoch data version]
  by (auto simp: instance_post_def split: prod.splits sum.splits)

theorem instance_construction_witness:
  "case instance_init g_env \<lparr>fa_module = g_module, fa_max_memory_pages = None\<rparr> True PNone 0
      \<lparr>wo_native = no_stores, wo_ticker = ticker_init\<rparr> of
      (Inr i, wo') \<Rightarrow> nt_open (wo_native wo') = {i_id i} \<and> \<not> i_poisoned i
    | (Inl e, wo') \<Rightarrow> nt_open (wo_native wo') = {}"
  using instance_construction [where wo = "\<lparr>wo_native = no_stores, wo_ticker = ticker_init\<rparr>" and ie = g_env
      and fac = "\<lparr>fa_module = g_module, fa_max_memory_pages = None\<rparr>" and epoch = True and data = PNone and version = 0]
  by (auto split: prod.splits sum.splits)

section \<open>Builtins\<close>

text \<open>
  C24. Dispatch of a host builtin. An id the module does not declare, or a name nobody registered,
  is refused before the guest is touched. Otherwise the registered function is applied to the
  decoded arguments and a result address is the proper pointer of the re-encoded value. Every
  \<open>Exception\<close> on the way, also one the function raised, comes out as \<open>OpaBuiltinError\<close>.
\<close>

theorem dispatch_outcome:
  "case dispatch_builtin cd id_to_name snap limit builtin_id ctx addrs s of
      (Inr a, t) \<Rightarrow> (\<exists>name fn args result s1. id_to_name builtin_id = Some name \<and> snap name = Some fn
        \<and> map_act (\<lambda>addr. opa_value_to_python cd addr None) addrs s = (Inr args, s1) \<and> length args = length addrs
        \<and> fn args = Inr result \<and> python_object_to_opa_value cd result limit s1 = (Inr a, t) \<and> 0 < a)
    | (Inl e, t) \<Rightarrow> (is_exception (exc_class_of e) \<longrightarrow> exc_class_of e = OpaBuiltinError)
        \<and> (Option.bind (id_to_name builtin_id) snap = None \<longrightarrow> t = s)"
  using dispatch_success [of cd id_to_name snap limit builtin_id ctx addrs s]
    raises_inD [OF dispatch_raises, of cd id_to_name snap limit builtin_id ctx addrs s]
    dispatch_unknown [of id_to_name builtin_id snap cd limit ctx addrs s]
  by (cases "dispatch_builtin cd id_to_name snap limit builtin_id ctx addrs s") (auto split: sum.splits)

theorem dispatch_outcome_witness:
  "\<exists>e. dispatch_builtin g_codec (\<lambda>n. None) (\<lambda>n. None) 1000 7 0 [] g_store = (Inl e, g_store)
     \<and> exc_class_of e = OpaBuiltinError"
  using dispatch_outcome [where cd = g_codec and id_to_name = "\<lambda>n. None" and snap = "\<lambda>n. None" and limit = 1000
      and builtin_id = 7 and ctx = 0 and addrs = "[]" and s = g_store]
  by (auto split: prod.splits sum.splits simp: dispatch_builtin_def act_simps)




text \<open>
  C26. \<open>sprintf\<close> and its operands. A call succeeds only if the array has an operand for every verb
  of the format other than \<open>%%\<close>; operands beyond these change nothing; and a format without a
  percent sign is returned as it is, whatever the operands.
\<close>

theorem sprintf_operands:
  "(case sprintf pt (PStr fmt) (PList xs) of Inr v \<Rightarrow> operands_needed fmt \<le> length xs | Inl e \<Rightarrow> True)
   \<and> (operands_needed fmt \<le> length xs \<longrightarrow> sprintf pt (PStr fmt) (PList (xs @ ys)) = sprintf pt (PStr fmt) (PList xs))
   \<and> (37 \<notin> set fmt \<longrightarrow> sprintf pt (PStr fmt) (PList xs) = Inr (PStr fmt))"
  using sprintf_loop_needs [of pt fmt xs] sprintf_loop_extra [of fmt xs pt ys] sprintf_loop_literal [of fmt pt xs]
  by (auto simp: sprintf_def rbind_eq_Inr split: sum.splits)

theorem sprintf_operands_witness:
  "sprintf demo_text (PStr (ustr ''hi'')) (PList [PInt 1]) = Inr (PStr (ustr ''hi''))"
  using sprintf_operands [where pt = demo_text and fmt = "ustr ''hi''" and xs = "[PInt 1]" and ys = "[]"] by simp

section \<open>Runtime and ticker\<close>

text \<open>
  C27. Construction of a runtime. The retry loop over initial memory sizes always ends, after a
  number of attempts that is logarithmic in the ceiling. If it succeeds, the runtime is the
  result of one attempt on a fresh store, with an initial size between two pages and the
  configured maximum, and that store is the only new one that stays open. If it fails, no store
  stays open, and the error is the failure to create a store, an \<open>OpaInvalidPolicyError\<close>, or an
  exception that is not from wasmtime.
\<close>

theorem runtime_construction:
  assumes "native_wf nt"
  shows "\<exists>r nt'. runtime_init w m d max_pages nt = Some (r, nt')
    \<and> (\<exists>k. nt_next nt' = nt_next nt + k \<and> 2 ^ k < 2 * (case max_pages of None \<Rightarrow> 16384 | Some p \<Rightarrow> max 2 p))
    \<and> (case r of
         Inr (q, rt) \<Rightarrow> 2 \<le> q \<and> q \<le> (case max_pages of None \<Rightarrow> 16384 | Some p \<Rightarrow> p)
           \<and> nt_open nt' = insert (rt_id rt) (nt_open nt) \<and> rt_id rt \<notin> nt_open nt
           \<and> (\<exists>s. wt_store_new w (rt_id rt) = Inr s
                \<and> attempt w m d max_pages q s = (Inr (rt_exports rt), rt_store rt))
       | Inl e \<Rightarrow> nt_open nt' = nt_open nt
           \<and> ((\<exists>n. wt_store_new w n = Inl e) \<or> exc_class_of e = OpaInvalidPolicyError
              \<or> \<not> is_wasmtime_error (exc_class_of e) \<and> (\<exists>n s q s'. wt_store_new w n = Inr s \<and> attempt w m d max_pages q s = (Inl e, s'))))"
proof -
  obtain r nt' where run: "runtime_init w m d max_pages nt = Some (r, nt')" and post: "runtime_post max_pages nt (r, nt')"
    using runtime_init_spec [OF assms, of w m d max_pages] by auto
  note o = runtime_init_outcome [OF run]
  have fresh: "i \<notin> nt_open nt" if "nt_next nt \<le> i" for i using assms that by (auto simp: native_wf_def)
  show ?thesis
  proof (cases r)
    case (Inr pr)
    then show ?thesis using run post o fresh
      by (auto simp: runtime_post_def attempt_outcome_def split: prod.splits)
  next
    case (Inl e)
    then show ?thesis using run post runtime_init_error [of w m d max_pages nt e nt'] by (auto simp: runtime_post_def)
  qed
qed

theorem runtime_construction_witness:
  "\<exists>r nt'. runtime_init (g_wasm 7) g_module None (Some 8) no_stores = Some (r, nt')
    \<and> (\<exists>k. nt_next nt' = k \<and> (2::int) ^ k < 16)"
proof -
  have "nt_next no_stores = 0" by (simp add: no_stores_def)
  then show ?thesis using runtime_construction [of no_stores "g_wasm 7" g_module None "Some 8"] by auto
qed



text \<open>
  C29. The ABI adapter accepts a module exactly if its ABI version is an integer version 1.2 or
  later of major version 1 and every export the SDK calls is a function of the expected type; a
  refusal is an \<open>OpaAbiError\<close>, or an \<open>OpaInvalidPolicyError\<close> for an export that is no function.
\<close>

theorem abi_accepts_exactly:
  "((\<exists>ab. abi_init w host ex default_spec s = Inr ab) \<longleftrightarrow> abi_accepts w ex s)
   \<and> (case abi_init w host ex default_spec s of
        Inr ab \<Rightarrow> ab_exports ab = ex \<and> ab_host ab = host \<and> supports_opa_eval ab \<and> fst (ab_version ab) = 1
      | Inl e \<Rightarrow> exc_class_of e \<in> {OpaAbiError, OpaInvalidPolicyError})"
  using abi_init_Inr_iff [of w host ex s] abi_init_error [of w host ex default_spec s]
  by (auto simp: abi_init_def rbind_eq_Inr default_spec_def check_version_def Let_def split: sum.splits if_splits)



text \<open>
  C31. One ticker thread, and it ticks. Under every interleaving of callers of \<open>ensure_running\<close>,
  callers of \<open>close\<close> and the ticker itself there is at most one ticker thread, and before shutdown
  there is one exactly if the ticker's record says so. Once \<open>ensure_running\<close> has returned on a
  ticker that is not stopped, every two steps of that thread advance the epoch by one, so that a
  deadline of \<open>n\<close> ticks has passed after \<open>2 * n\<close> of them; a second call starts nothing.
\<close>

theorem single_ticker_thread:
  assumes "ticker_step\<^sup>*\<^sup>* ticker_init t"
  shows "length (tk_threads t) \<le> 1 \<and> (tk_stop t \<or> tk_thread t = (tk_threads t \<noteq> []))
    \<and> (tk_stop t \<or> tk_epoch ((run_step 0 ^^ (2 * n)) (ensure_running t)) = tk_epoch t + n
         \<and> ensure_running (ensure_running t) = ensure_running t)"
proof -
  have inv: "ticker_inv t" by (rule ticker_reach_inv [OF assms])
  have "tk_epoch ((run_step 0 ^^ (2 * n)) (ensure_running t)) = tk_epoch t + n
      \<and> ensure_running (ensure_running t) = ensure_running t" if "\<not> tk_stop t"
    using run_steps_epoch [OF ensure_running_thread(1,2) [OF inv that], of n] ensure_running_thread(3,4) [OF inv that]
    by (simp add: ensure_running_def [of "ensure_running t"])
  then show ?thesis using inv by (auto simp: ticker_inv_def)
qed

theorem single_ticker_thread_witness:
  "length (tk_threads (ensure_running ticker_init)) \<le> 1 \<and> tk_thread (ensure_running ticker_init)
     \<and> tk_epoch ((run_step 0 ^^ (2 * 3)) (ensure_running (ensure_running ticker_init))) = 3"
proof -
  have "ticker_step\<^sup>*\<^sup>* ticker_init (ensure_running ticker_init)" by (intro r_into_rtranclp ticker_step.Ensure)
  from single_ticker_thread [OF this, of 3] show ?thesis by (simp add: ensure_running_def ticker_init_def)
qed

text \<open>
  C32. A stopped ticker dies out. Once the stop event is set it stays set, no thread is started any
  more, every step of a remaining thread brings it nearer to its end, and the epoch advances at
  most once more per thread that was about to advance it.
\<close>

theorem stopped_ticker_ends:
  assumes "ticker_step t t'" and "tk_stop t"
  shows "tk_stop t' \<and> length (tk_threads t') \<le> length (tk_threads t) \<and> ticker_work t' \<le> ticker_work t
    \<and> tk_epoch t' + count_list (tk_threads t') Incrementing = tk_epoch t + count_list (tk_threads t) Incrementing
    \<and> (\<forall>i < length (tk_threads t). ticker_work (run_step i t) < ticker_work t)"
  using stopped_step [OF assms] stopped_work_step [OF assms] stopped_work_run [OF assms(2)] by blast

theorem stopped_ticker_ends_witness:
  "tk_threads (run_step 0 (close_set_stop (ensure_running ticker_init))) = []
     \<and> ticker_work (run_step 0 (close_set_stop (ensure_running ticker_init)))
        < ticker_work (close_set_stop (ensure_running ticker_init))"
proof -
  let ?t = "close_set_stop (ensure_running ticker_init)"
  have t: "tk_stop ?t" "tk_threads ?t = [Waiting]" by (simp_all add: close_set_stop_def ensure_running_def ticker_init_def)
  have "ticker_step ?t (ensure_running ?t)" by (rule ticker_step.Ensure)
  from stopped_ticker_ends [OF this t(1)] t show ?thesis by (auto simp: run_step_def)
qed

section \<open>Memory and JSON\<close>

text \<open>
  C33. \<open>read_cstring\<close>, which scans the memory in chunks, is the text up to the first NUL of the
  window that the scan limit and the end of memory allow; without a NUL in that window, or from
  an address outside the memory, it is an \<open>OpaMemoryError\<close>; it never changes the store.
\<close>

theorem read_cstring_is_reference:
  assumes "memory_ok (ab_wasm (cd_abi cd)) mem"
  shows "read_cstring cd addr s =
    (if addr < 0 \<or> int (length (mem s)) \<le> addr
     then (Inl (new_exc OpaMemoryError ''start address outside guest memory''), s)
     else (case cstring_at (mem s) addr (cd_max_cstring_scan_bytes cd) of
        Some b \<Rightarrow> (Inr b, s)
      | None \<Rightarrow> (Inl (new_exc OpaMemoryError ''no NUL terminator found''), s)))"
  by (rule read_cstring_spec [OF assms])

theorem read_cstring_is_reference_witness: "read_cstring g_codec 16 g_store = (Inr [], g_store)"
proof -
  have "cstring_at (replicate 128 0) 16 10000000 = Some []"
    by (simp add: cstring_at_def region_def Let_def)
  moreover have "cd_max_cstring_scan_bytes g_codec = 10000000"
    by (simp add: g_codec_def mk_codec_def g_env_def default_config_def)
  moreover have "memory_ok (ab_wasm (cd_abi g_codec)) g_mem" by (simp add: g_memory_ok)
  ultimately show ?thesis using read_cstring_is_reference [of g_codec g_mem 16 g_store] by (simp add: g_store_def)
qed

text \<open>
  C34. What is written can be read back. A successful \<open>write_bytes\<close> returns a proper pointer to a
  buffer inside the memory, and \<open>read_bytes\<close> of that buffer returns the bytes that were written.
\<close>

theorem write_read_bytes:
  assumes "memory_ok (ab_wasm (cd_abi cd)) mem"
  shows "case write_bytes cd data s of
      (Inr addr, t) \<Rightarrow> 0 < addr \<and> addr + int (length data) \<le> int (length (mem t))
         \<and> read_bytes cd addr (int (length data)) t = (Inr data, t)
    | (Inl e, t) \<Rightarrow> True"
proof (cases "write_bytes cd data s")
  case (Pair r t)
  show ?thesis
  proof (cases r)
    case (Inr addr)
    note w = write_bytes_region [OF assms Pair [unfolded Inr]]
    then show ?thesis using Pair Inr read_bytes_spec [OF assms, of addr "int (length data)" t] by simp
  qed (use Pair in simp)
qed

theorem write_read_bytes_witness:
  "\<exists>addr t. write_bytes g_codec [1, 2] g_store = (Inr addr, t) \<and> read_bytes g_codec addr 2 t = (Inr [1, 2], t)"
proof -
  obtain r t where run: "write_bytes g_codec [1, 2] g_store = (r, t)" by fastforce
  have "\<exists>addr. r = Inr addr" using run
    by (auto simp: write_bytes_def act_simps g_malloc_run g_heap_def g_store_def memory_write_def g_wasm_def Let_def)
  moreover have "memory_ok (ab_wasm (cd_abi g_codec)) g_mem" by (simp add: g_memory_ok)
  ultimately show ?thesis using write_read_bytes [of g_codec g_mem "[1, 2]" g_store] run by auto
qed





section \<open>What shutdown and replacement do not promise\<close>

text \<open>
  C37. A release that races with \<open>close\<close> can leave a store open. There is an interleaving of one
  evaluation with one \<open>close\<close>, on a pool of one slot, after which both calls have returned, the
  policy is closed and no queue or thread refers to the instance, and its native store is still
  open: the release read the closed flag before \<open>close\<close> set it and put its instance back after
  the drain, into a queue the sentinel had filled.
\<close>

theorem close_race_leaks_store:
  "\<exists>sh. reachable 1 2 (sh, [Ready, Ready]) \<and> sh_closed sh \<and> sh_open sh = {0} \<and> idle_instances (sh_idle sh) = []"
  using release_race_run by (auto simp: reachable_def)

section \<open>The fixture builder\<close>

text \<open>
  C38. Building the fixtures. With an OPA tool that writes nothing but the bundle it is told to
  write, a run that returns has compiled every requested fixture from its own Rego source, with all
  its entrypoints and, where the fixture uses a custom builtin, with capabilities that declare it;
  its module is the \<open>policy.wasm\<close> of that bundle, and no other file has changed. If one of the
  requested fixtures is unknown the script fails before it builds anything.
\<close>

theorem fixtures_built:
  assumes "opa_bin fe = Inr opa" and "opa_writes fe opa" and "tmp_new fe" and "finite (dom (bs_files st))"
    and "script_main fe argv st = (r, st')"
  shows "case r of
      Inr code \<Rightarrow> code = 0
        \<and> (\<forall>s \<in> set (requested argv). \<exists>src content. bs_files st (rego_path fe s) = Some src
             \<and> compiled fe opa s src content \<and> bs_files st' (wasm_path fe s) = Some content)
        \<and> (\<forall>p. p \<notin> wasm_path fe ` set (requested argv) \<longrightarrow> bs_files st' p = bs_files st p)
    | Inl e \<Rightarrow> (\<exists>s \<in> set (requested argv). map_of FIXTURE_ENTRYPOINTS s = None) \<longrightarrow>
        bs_files st' = bs_files st \<and> bs_runs st' = bs_runs st @ [[opa, ustr ''version'']]"
proof -
  obtain v st1 where v: "opa_version fe opa st = (v, st1)" by fastforce
  note o = opa_version_runs [OF v assms(2)]
  show ?thesis
  proof (cases v)
    case (Inl e)
    then show ?thesis using assms(1,5) v o by (auto simp: script_main_def act_simps)
  next
    case (Inr version)
    show ?thesis
    proof (cases "\<exists>s \<in> set (requested argv). map_of FIXTURE_ENTRYPOINTS s = None")
      case True
      then have "filter (\<lambda>s. map_of FIXTURE_ENTRYPOINTS s = None) (requested argv) \<noteq> []" by (auto simp: filter_empty_conv)
      then show ?thesis using assms(1,5) v o Inr by (auto simp: script_main_def act_simps say_def Let_def)
    next
      case False
      then have f: "filter (\<lambda>s. map_of FIXTURE_ENTRYPOINTS s = None) (requested argv) = []" by (auto simp: filter_empty_conv)
      let ?st2 = "st1\<lparr>bs_printed := bs_printed st1 @ [ustr ''Using '' @ opa @ ustr '' ('' @ version @ ustr '')''] @
        [ustr ''Building '' @ int_repr (int (length (requested argv))) @ ustr '' fixture(s) into tests/fixtures/wasm:'']\<rparr>"
      obtain q st3 where q: "build_all fe opa (requested argv) ?st2 = (q, st3)" by fastforce
      have run: "script_main fe argv st = (case q of Inl e \<Rightarrow> (Inl e, st3)
          | Inr u \<Rightarrow> (Inr 0, st3\<lparr>bs_printed := bs_printed st3 @ [ustr ''Done. Remember to commit the generated .wasm files.'']\<rparr>))"
        using assms(1) v Inr f q by (simp add: script_main_def act_simps say_def Let_def split: sum.splits)
      show ?thesis
      proof (cases q)
        case (Inl e)
        then show ?thesis using run assms(5) False by auto
      next
        case (Inr u)
        have fin: "finite (dom (bs_files ?st2))" using assms(4) o by simp
        show ?thesis using build_all_spec [OF assms(2,3) fin q [unfolded Inr]] run assms(5) o Inr by auto
      qed
    qed
  qed
qed

theorem fixtures_built_witness:
  "\<exists>st'. script_main demo_fixture_env [ustr ''build_fixtures.py'', ustr ''allow_true''] demo_files = (Inr 0, st')
     \<and> (\<exists>content. compiled demo_fixture_env (ustr ''opa'') (ustr ''allow_true'') [] content
          \<and> bs_files st' (wasm_path demo_fixture_env (ustr ''allow_true'')) = Some content)"
proof -
  obtain st' where r: "script_main demo_fixture_env [ustr ''build_fixtures.py'', ustr ''allow_true''] demo_files = (Inr 0, st')"
    using demo_script_run by blast
  have o: "opa_bin demo_fixture_env = Inr (ustr ''opa'')" by (simp add: opa_bin_def demo_fixture_env_def)
  have "finite (dom (bs_files demo_files))" by (simp add: demo_files_def)
  from fixtures_built [OF o demo_opa_writes demo_tmp_new this r] r show ?thesis
    by (auto simp: requested_def demo_files_def)
qed

section \<open>The example programs\<close>



text \<open>
  C40. \<^verbatim>\<open>pooled_eval.py\<close> ends, and its counts add up. The threads start on the policy that the main
  thread built. From any state that any interleaving of the seventeen threads can reach, at most 388
  steps are left, and until the main thread has printed some thread can take one: no deadlock in
  \<open>evaluate\<close>, the lock of the results or \<open>join\<close>. Every evaluation runs on an instance with the
  document that was set before. The lines printed at the end give the results that the finished
  workers appended, each once, and a number of created instances that exceeds the size of the pool
  by at most the number of instances that were replaced.
\<close>

theorem pooled_eval_output:
  assumes "pooled_step\<^sup>*\<^sup>* pooled_start s"
  shows "(native_wf nt \<longrightarrow> pooled_setup xe nt = Inr (pe, q) \<longrightarrow> mirrors pe (nt_open nt) q (pd_shared pooled_start))
    \<and> (\<forall>m s'. (pooled_step ^^ m) s s' \<longrightarrow> m \<le> 388)
    \<and> ((\<exists>ls. pd_main s = Printed ls) \<or> (\<exists>s'. pooled_step s s'))
    \<and> (\<forall>v i a. Calling (Loan v i) a \<in> set (pd_workers s) \<longrightarrow> 1 \<le> sh_inst_version (pd_shared s) i)
    \<and> (\<forall>ls. pd_main s = Printed ls \<longrightarrow> ls = final_lines (pd_results s) (sh_created (pd_shared s))
        \<and> (\<forall>w \<in> set (pd_workers s). finished w)
        \<and> (\<forall>b. count_list (pd_results s) b = num (\<lambda>w. w = Finished (Some b)) (pd_workers s))
        \<and> sh_created (pd_shared s) \<le> 4 + sh_recreated (pd_shared s))"
proof (intro conjI allI impI ballI)
  note inv = pooled_reach_inv [OF assms] and reach = pooled_reachable [OF assms]
  have all: "all_inv (threads s)" "lock_inv (threads s)" using reachable_inv [OF reach] reachable_lock [OF reach] by blast+
  show "mirrors pe (nt_open nt) q (pd_shared pooled_start)" if "native_wf nt" "pooled_setup xe nt = Inr (pe, q)"
    by (rule pooled_setup_mirrors [OF that])
  have "sh_max (pd_shared s) = worker_slots" using reach run_max by (auto simp: reachable_def threads_def)
  then have "length (sh_idle (pd_shared s)) \<le> worker_slots" using all(1) by (simp add: all_inv_def capacity_inv_def threads_def)
  note bound = pooled_work_bound [OF inv this]
  show "m \<le> 388" if "(pooled_step ^^ m) s s'" for m s'
    using pooled_steps_work [OF that inv] bound by linarith
  show "(\<exists>ls. pd_main s = Printed ls) \<or> (\<exists>s'. pooled_step s s')" using pooled_progress [OF inv all] by blast
  show "1 \<le> sh_inst_version (pd_shared s) i" if "Calling (Loan v i) a \<in> set (pd_workers s)" for v i a
    using pooled_fresh [OF assms that] by simp
  fix ls
  assume p: "pd_main s = Printed ls"
  note c = pooled_counts [OF assms p]
  show "ls = final_lines (pd_results s) (sh_created (pd_shared s))"
    and "sh_created (pd_shared s) \<le> 4 + sh_recreated (pd_shared s)" using c(1,4) by (simp_all add: worker_slots_def)
  show "count_list (pd_results s) b = num (\<lambda>w. w = Finished (Some b)) (pd_workers s)" for b by (rule c(2))
  show "finished w" if "w \<in> set (pd_workers s)" for w using inv p that by (simp add: pooled_inv_def)
qed

theorem pooled_eval_output_witness:
  "\<exists>s. pooled_step\<^sup>*\<^sup>* pooled_start s \<and> sh_created (pd_shared s) = 5 \<and> 1 \<le> sh_recreated (pd_shared s)
     \<and> (\<forall>w \<in> set (pd_workers s). finished w) \<and> pd_main s = Printed (final_lines (pd_results s) 5)"
proof -
  obtain s ls where s: "pooled_step\<^sup>*\<^sup>* pooled_start s" "sh_created (pd_shared s) = 5" "pd_main s = Printed ls"
    using pooled_exceeds by blast
  from pooled_eval_output [OF s(1)] s(2,3) have "\<forall>w \<in> set (pd_workers s). finished w"
    "ls = final_lines (pd_results s) 5" "5 \<le> 4 + sh_recreated (pd_shared s)" by metis+
  then show ?thesis using s by (intro exI [of _ s]) simp
qed

end
